(* ===== verification/Base.thy ===== *)
theory Base imports Main "HOL-Library.Sublist" begin

text \<open>
  The prelude of the development: the fact collections the component theories fill, and the
  generic vocabulary they share. Go slices keep the difference between \<^term>\<open>None\<close> (a nil
  slice) and \<^term>\<open>Some []\<close> (an empty one), because \<open>encoding/json\<close> prints them
  differently and the policy hashes of \<open>api-server/policy.go\<close> cover that text.
\<close>

named_theorems go_eval "definitions of the Go library functions, for evaluation"
named_theorems audit_simps "what each operation of the audit log does to its fields"
named_theorems audit_inv "operations preserve the invariants of the audit log"

section \<open>Go slices\<close>

type_synonym 'a slice = "'a list option"

definition elems :: "'a slice \<Rightarrow> 'a list" where
  "elems s = (case s of None \<Rightarrow> [] | Some xs \<Rightarrow> xs)"

definition snoc_slice :: "'a slice \<Rightarrow> 'a \<Rightarrow> 'a slice" where
  "snoc_slice s x = Some (elems s @ [x])"

text \<open>\<open>append([]T(nil), xs...)\<close>: the copy of an empty slice is nil.\<close>

definition copy_slice :: "'a slice \<Rightarrow> 'a slice" where
  "copy_slice s = (case elems s of [] \<Rightarrow> None | xs \<Rightarrow> Some xs)"

lemma elems_simps [simp]:
  "elems None = []" "elems (Some xs) = xs"
  by (simp_all add: elems_def)

lemma elems_snoc [simp]: "elems (snoc_slice s x) = elems s @ [x]"
  by (simp add: snoc_slice_def)

lemma elems_copy [simp]: "elems (copy_slice s) = elems s"
  by (cases "elems s") (simp_all add: copy_slice_def)

section \<open>Reachability under a step relation\<close>

text \<open>
  Every stateful component is a start state and a step relation. The locale proves once that
  an invariant kept by each step holds in every reachable state.
\<close>

inductive reaches :: "('s \<Rightarrow> 's \<Rightarrow> bool) \<Rightarrow> 's \<Rightarrow> 's \<Rightarrow> bool" for step where
  reaches_refl: "reaches step s s"
| reaches_step: "reaches step s t \<Longrightarrow> step t u \<Longrightarrow> reaches step s u"

lemma reaches_one: "step s t \<Longrightarrow> reaches step s t"
  by (rule reaches_step [where t = s]) (simp_all add: reaches_refl)

lemma reaches_trans:
  assumes "reaches step s t" and "reaches step t u"
  shows "reaches step s u"
  using assms(2,1) by (induction rule: reaches.induct) (auto intro: reaches_step)

locale step_system =
  fixes step :: "'s \<Rightarrow> 's \<Rightarrow> bool"
    and inv :: "'s \<Rightarrow> bool"
    and le :: "'s \<Rightarrow> 's \<Rightarrow> bool"
  assumes step_inv: "step s t \<Longrightarrow> inv s \<Longrightarrow> inv t"
    and step_le: "step s t \<Longrightarrow> inv s \<Longrightarrow> le s t"
    and le_refl: "le s s"
    and le_trans: "le s t \<Longrightarrow> le t u \<Longrightarrow> le s u"
begin

lemma reaches_inv: "reaches step s t \<Longrightarrow> inv s \<Longrightarrow> inv t"
  by (induction rule: reaches.induct) (auto dest: step_inv)

lemma reaches_le: "reaches step s t \<Longrightarrow> inv s \<Longrightarrow> le s t"
  by (induction rule: reaches.induct) (auto intro: le_refl le_trans step_le dest: reaches_inv)

end

section \<open>Lists\<close>

lemma find_eq_None: "find P xs = None \<longleftrightarrow> (\<forall>x \<in> set xs. \<not> P x)"
  by (auto simp: find_None_iff)

lemma find_SomeD: "find P xs = Some x \<Longrightarrow> x \<in> set xs \<and> P x"
  by (auto simp: find_Some_iff)

lemma find_mono_None:
  assumes "find Q xs = None" and "\<And>x. x \<in> set xs \<Longrightarrow> P x \<Longrightarrow> Q x"
  shows "find P xs = None"
  using assms by (auto simp: find_None_iff)

lemma takeWhile_notin: "x \<notin> set xs \<Longrightarrow> takeWhile (\<lambda>y. y \<noteq> x) xs = xs"
  by (induction xs) auto

lemma dropWhile_notin: "x \<notin> set xs \<Longrightarrow> dropWhile (\<lambda>y. y \<noteq> x) xs = []"
  by (induction xs) auto

lemma takeWhile_append_stop:
  "x \<notin> set xs \<Longrightarrow> takeWhile (\<lambda>y. y \<noteq> x) (xs @ x # ys) = xs"
  by (induction xs) auto

lemma dropWhile_append_stop:
  "x \<notin> set xs \<Longrightarrow> dropWhile (\<lambda>y. y \<noteq> x) (xs @ x # ys) = x # ys"
  by (induction xs) auto

lemma notin_takeWhile: "x \<notin> set (takeWhile (\<lambda>y. y \<noteq> x) xs)"
  by (auto dest: set_takeWhileD)

end
