(* ===== verification/Go_Strings.thy ===== *)
theory Go_Strings imports Base begin

text \<open>
  The functions of Go's \<open>strings\<close>, \<open>strconv\<close> and \<open>encoding/hex\<close> packages that the program
  calls. A Go string is its list of bytes, so \<^typ>\<open>string\<close> (a list of 8-bit characters) models
  it exactly and \<^term>\<open>length\<close> counts bytes. \<open>ToLower\<close> and \<open>TrimSpace\<close> are the ASCII
  cases of the Go functions: on strings of ASCII bytes they agree with them; a multi-byte UTF-8
  sequence is left as it is.
\<close>

section \<open>Case and white space\<close>

definition to_lower_char :: "char \<Rightarrow> char" where
  [go_eval]: "to_lower_char c =
     (let n = of_char c :: nat in if 65 \<le> n \<and> n \<le> 90 then char_of (n + 32) else c)"

definition to_lower :: "string \<Rightarrow> string" where
  [go_eval]: "to_lower = map to_lower_char"

definition is_space :: "char \<Rightarrow> bool" where
  [go_eval]: "is_space c \<longleftrightarrow>
     c = CHR '' '' \<or> c = CHR 0x09 \<or> c = CHR 0x0A \<or> c = CHR 0x0B \<or> c = CHR 0x0C \<or> c = CHR 0x0D"

definition trim_space :: "string \<Rightarrow> string" where
  [go_eval]: "trim_space s = rev (dropWhile is_space (rev (dropWhile is_space s)))"

lemma of_char_less_256: "(of_char c :: nat) < 256"
  using nat_of_char_less_256 by simp

lemma to_lower_char_idem [simp]: "to_lower_char (to_lower_char c) = to_lower_char c"
  by (auto simp: to_lower_char_def Let_def of_char_of)

lemma to_lower_idem [simp]: "to_lower (to_lower s) = to_lower s"
  by (simp add: to_lower_def)

lemma to_lower_Nil [simp]: "to_lower [] = []"
  and to_lower_Cons [simp]: "to_lower (c # s) = to_lower_char c # to_lower s"
  and to_lower_append [simp]: "to_lower (s @ t) = to_lower s @ to_lower t"
  and to_lower_eq_Nil [simp]: "to_lower s = [] \<longleftrightarrow> s = []"
  and length_to_lower [simp]: "length (to_lower s) = length s"
  by (simp_all add: to_lower_def)

lemma set_to_lower: "set (to_lower s) = to_lower_char ` set s"
  by (simp add: to_lower_def)

text \<open>A byte that is no ASCII letter is the only preimage of itself.\<close>

definition caseless :: "char \<Rightarrow> bool" where
  "caseless c \<longleftrightarrow> (let n = of_char c :: nat in n < 65 \<or> 90 < n \<and> n < 97 \<or> 122 < n)"

lemma to_lower_char_caseless: "caseless x \<Longrightarrow> to_lower_char c = x \<longleftrightarrow> c = x"
proof -
  assume x: "caseless x"
  show ?thesis
  proof (cases "65 \<le> (of_char c :: nat) \<and> (of_char c :: nat) \<le> 90")
    case True
    then have "(of_char (to_lower_char c) :: nat) = of_char c + 32"
      by (simp add: to_lower_char_def Let_def of_char_of)
    with True x have "to_lower_char c \<noteq> x" "c \<noteq> x"
      by (auto simp: caseless_def Let_def)
    then show ?thesis by simp
  next
    case False
    then show ?thesis by (auto simp: to_lower_char_def Let_def)
  qed
qed

lemma caseless_in_to_lower: "caseless x \<Longrightarrow> x \<in> set (to_lower s) \<longleftrightarrow> x \<in> set s"
  by (metis image_iff set_to_lower to_lower_char_caseless)

section \<open>Searching and cutting\<close>

text \<open>\<open>strings.HasPrefix\<close> is \<^term>\<open>prefix\<close>, \<open>strings.HasSuffix\<close> is \<^term>\<open>suffix\<close>.\<close>

text \<open>\<open>strings.Index\<close>: the first position of a substring, if there is one.\<close>

fun str_index :: "string \<Rightarrow> string \<Rightarrow> nat option" where
  "str_index [] sub = (if sub = [] then Some 0 else None)"
| "str_index (c # s) sub =
     (if prefix sub (c # s) then Some 0 else map_option Suc (str_index s sub))"

definition str_contains :: "string \<Rightarrow> string \<Rightarrow> bool" where
  [go_eval]: "str_contains s sub \<longleftrightarrow> str_index s sub \<noteq> None"

text \<open>\<open>strings.Cut\<close> at a single byte: what stands before it, what stands after it.\<close>

definition cut_byte :: "char \<Rightarrow> string \<Rightarrow> string \<times> string" where
  [go_eval]: "cut_byte c s = (takeWhile (\<lambda>x. x \<noteq> c) s, drop 1 (dropWhile (\<lambda>x. x \<noteq> c) s))"

text \<open>\<open>strings.Split\<close> at a single byte.\<close>

fun split_byte :: "char \<Rightarrow> string \<Rightarrow> string list" where
  "split_byte c [] = [[]]"
| "split_byte c (x # s) =
     (if x = c then [] # split_byte c s
      else (case split_byte c s of [] \<Rightarrow> [[x]] | w # ws \<Rightarrow> (x # w) # ws))"

text \<open>\<open>strings.Fields\<close>: the words between runs of white space.\<close>

definition space_fields :: "string \<Rightarrow> string list" where
  [go_eval]: "space_fields s =
     filter (\<lambda>w. w \<noteq> []) (split_byte (CHR '' '') (map (\<lambda>c. if is_space c then CHR '' '' else c) s))"

lemma str_index_SomeD: "str_index s sub = Some i \<Longrightarrow> i + length sub \<le> length s \<and> prefix sub (drop i s)"
proof (induction s arbitrary: i)
  case Nil
  then show ?case by (auto split: if_splits)
next
  case (Cons c s)
  then show ?case
    by (auto split: if_splits dest: prefix_length_le)
qed

lemma str_index_least: "str_index s sub = Some i \<Longrightarrow> j < i \<Longrightarrow> \<not> prefix sub (drop j s)"
proof (induction s arbitrary: i j)
  case Nil
  then show ?case by (auto split: if_splits)
next
  case (Cons c s)
  then show ?case by (cases j) (auto split: if_splits)
qed

lemma str_index_decomp:
  assumes "str_index s sub = Some i"
  shows "s = take i s @ sub @ drop (i + length sub) s"
proof -
  from assms have "prefix sub (drop i s)" by (blast dest: str_index_SomeD)
  then obtain r where r: "drop i s = sub @ r" by (auto simp: prefix_def)
  then have "drop (length sub) (drop i s) = r" by simp
  with r show ?thesis by (metis add.commute append_take_drop_id drop_drop)
qed

lemma str_index_None: "str_index s sub = None \<Longrightarrow> \<not> prefix sub (drop j s)"
proof (induction s arbitrary: j)
  case Nil
  then show ?case by (auto split: if_splits)
next
  case (Cons c s)
  then show ?case by (cases j) (auto split: if_splits)
qed

lemma str_index_None_append: "str_index s sub = None \<Longrightarrow> s \<noteq> a @ sub @ b"
  using str_index_None [of s sub "length a"] by (auto simp: prefix_def)

lemma str_index_after:
  assumes "str_index s (c # sub) = Some i" and "s = a @ (c # sub) @ b" and "c \<notin> set a"
  shows "i = length a"
proof -
  have "\<not> i < length a"
  proof
    assume i: "i < length a"
    then have "drop i s = a ! i # drop (Suc i) s"
      using assms(2) Cons_nth_drop_Suc [of i s] by (simp add: nth_append)
    moreover from str_index_SomeD [OF assms(1)] have "prefix (c # sub) (drop i s)" by simp
    ultimately have "a ! i = c" by simp
    with i assms(3) show False by (metis nth_mem)
  qed
  moreover have "\<not> length a < i"
    using str_index_least [OF assms(1), of "length a"] assms(2) by (auto simp: prefix_def)
  ultimately show ?thesis by simp
qed

lemma str_index_byte: "str_index s [c] = (if c \<in> set s then Some (length (takeWhile (\<lambda>x. x \<noteq> c) s)) else None)"
  by (induction s) (auto simp: prefix_def)

lemma concat_split_byte_set: "w \<in> set (split_byte c s) \<Longrightarrow> set w \<subseteq> set s - {c}"
proof (induction s arbitrary: w)
  case Nil
  then show ?case by simp
next
  case (Cons x s)
  then show ?case by (fastforce split: if_splits list.splits)
qed

section \<open>Decimal numbers\<close>

text \<open>\<open>strconv.Itoa\<close>, as \<open>encoding/json\<close> and \<open>%d\<close> print integers.\<close>

definition digit_char :: "nat \<Rightarrow> char" where
  [go_eval]: "digit_char d = char_of (48 + d)"

fun nat_digits :: "nat \<Rightarrow> string" where
  "nat_digits n = (if n < 10 then [digit_char n] else nat_digits (n div 10) @ [digit_char (n mod 10)])"

declare nat_digits.simps [simp del]

definition itoa :: "int \<Rightarrow> string" where
  [go_eval]: "itoa i = (if i < 0 then CHR ''-'' # nat_digits (nat (- i)) else nat_digits (nat i))"

definition is_digit :: "char \<Rightarrow> bool" where
  [go_eval]: "is_digit c \<longleftrightarrow> (let n = of_char c :: nat in 48 \<le> n \<and> n \<le> 57)"

definition digit_val :: "char \<Rightarrow> nat" where
  [go_eval]: "digit_val c = of_char c - 48"

definition digits_val :: "string \<Rightarrow> nat" where
  [go_eval]: "digits_val s = foldl (\<lambda>a c. 10 * a + digit_val c) 0 s"

lemma is_digit_digit_char [simp]: "d < 10 \<Longrightarrow> is_digit (digit_char d)"
  by (simp add: is_digit_def digit_char_def of_char_of)

lemma digit_val_digit_char [simp]: "d < 10 \<Longrightarrow> digit_val (digit_char d) = d"
  by (simp add: digit_val_def digit_char_def of_char_of)

lemma nat_digits_digits: "\<forall>c \<in> set (nat_digits n). is_digit c"
proof (induction n rule: nat_digits.induct)
  case (1 n)
  then show ?case by (cases "n < 10") (auto simp: nat_digits.simps [of n])
qed

lemma nat_digits_nonempty [simp]: "nat_digits n \<noteq> []"
  by (subst nat_digits.simps) simp

lemma digits_val_nat_digits [simp]: "digits_val (nat_digits n) = n"
proof (induction n rule: nat_digits.induct)
  case (1 n)
  then show ?case
    by (cases "n < 10") (auto simp: nat_digits.simps [of n] digits_val_def)
qed

text \<open>\<open>strconv.Atoi\<close>, and \<open>strconv.ParseUint\<close> to base 10 in 32 bits.\<close>

definition atoi :: "string \<Rightarrow> int option" where
  [go_eval]: "atoi s =
     (let neg = prefix ''-'' s; d = (if neg \<or> prefix ''+'' s then tl s else s) in
      if d \<noteq> [] \<and> list_all is_digit d then
        (let n = int (digits_val d); i = (if neg then - n else n) in
         if - (2 ^ 63) \<le> i \<and> i < 2 ^ 63 then Some i else None)
      else None)"

definition parse_uint32 :: "string \<Rightarrow> nat option" where
  [go_eval]: "parse_uint32 s =
     (if s \<noteq> [] \<and> list_all is_digit s \<and> int (digits_val s) < 2 ^ 32 then Some (digits_val s) else None)"

section \<open>Hexadecimal\<close>

text \<open>\<open>hex.EncodeToString\<close>.\<close>

definition hex_digit :: "nat \<Rightarrow> char" where
  [go_eval]: "hex_digit d = (if d < 10 then char_of (48 + d) else char_of (87 + d))"

definition hex_byte :: "char \<Rightarrow> string" where
  [go_eval]: "hex_byte c = (let n = of_char c :: nat in [hex_digit (n div 16), hex_digit (n mod 16)])"

definition hex_encode :: "string \<Rightarrow> string" where
  [go_eval]: "hex_encode s = concat (map hex_byte s)"

lemma length_hex_encode [simp]: "length (hex_encode s) = 2 * length s"
  by (induction s) (simp_all add: hex_encode_def hex_byte_def Let_def)

section \<open>Quoting\<close>

text \<open>\<open>%q\<close> of \<open>fmt\<close> on ASCII: Go syntax, which is not always JSON.\<close>

definition go_quote_char :: "char \<Rightarrow> string" where
  [go_eval]: "go_quote_char c =
     (if c = CHR 0x22 then [CHR 0x5C, CHR 0x22]
      else if c = CHR 0x5C then [CHR 0x5C, CHR 0x5C]
      else (case map_of [(CHR 0x07, CHR ''a''), (CHR 0x08, CHR ''b''), (CHR 0x0C, CHR ''f''),
               (CHR 0x0A, CHR ''n''), (CHR 0x0D, CHR ''r''), (CHR 0x09, CHR ''t''), (CHR 0x0B, CHR ''v'')] c of
              Some d \<Rightarrow> [CHR 0x5C, d]
            | None \<Rightarrow> if (of_char c :: nat) < 32 \<or> c = CHR 0x7F then CHR 0x5C # CHR ''x'' # hex_byte c else [c]))"

definition go_quote :: "string \<Rightarrow> string" where
  [go_eval]: "go_quote s = [CHR 0x22] @ concat (map go_quote_char s) @ [CHR 0x22]"

end
