(* ===== verification/Go_Url.thy ===== *)
theory Go_Url imports Go_Strings begin

text \<open>
  The part of Go's \<open>net/url\<close> (and the IPv6 syntax check of \<open>net/netip\<close> it calls) that
  \<open>api-server/policy.go\<close> relies on: \<open>url.Parse\<close> and \<open>URL.Hostname\<close>, in the version
  \<open>api-server/go.mod\<close> names (1.26.2: colons in a host are an error outside an IP literal, and
  an IP literal must be a valid IPv6 address). The callers only test whether parsing failed, so
  every error is \<^term>\<open>None\<close>. The comma-separated host lists some database schemes may carry are
  not modelled. The lemmas at the end are the facts about parsed hosts that the policy needs.
\<close>

record url =
  url_scheme :: string
  url_host :: string
  url_path :: string

section \<open>Escapes\<close>

datatype enc_mode = EncodePath | EncodeUserPassword | EncodeHost | EncodeZone | EncodeFragment

definition is_alnum :: "char \<Rightarrow> bool" where
  [go_eval]: "is_alnum c \<longleftrightarrow> (let n = of_char c :: nat in
     48 \<le> n \<and> n \<le> 57 \<or> 65 \<le> n \<and> n \<le> 90 \<or> 97 \<le> n \<and> n \<le> 122)"

definition is_hex :: "char \<Rightarrow> bool" where
  [go_eval]: "is_hex c \<longleftrightarrow> (let n = of_char c :: nat in
     48 \<le> n \<and> n \<le> 57 \<or> 65 \<le> n \<and> n \<le> 70 \<or> 97 \<le> n \<and> n \<le> 102)"

definition unhex :: "char \<Rightarrow> nat" where
  [go_eval]: "unhex c = (let n = of_char c :: nat in
     if n \<le> 57 then n - 48 else if n \<le> 70 then n - 55 else n - 87)"

definition decode_hex :: "char \<Rightarrow> char \<Rightarrow> char" where
  [go_eval]: "decode_hex a b = char_of (16 * unhex a + unhex b)"

text \<open>\<open>!shouldEscape(c, encodeHost)\<close>: the ASCII bytes a host may hold as they are.\<close>

definition host_ok :: "char \<Rightarrow> bool" where
  [go_eval]: "host_ok c \<longleftrightarrow> is_alnum c \<or> c \<in> set ''!$&()*+,;=:[]<>-_.~'' \<or> c = CHR 0x27 \<or> c = CHR 0x22"

definition non_ascii :: "char \<Rightarrow> bool" where
  [go_eval]: "non_ascii c \<longleftrightarrow> 128 \<le> (of_char c :: nat)"

definition escape_ok :: "enc_mode \<Rightarrow> char \<Rightarrow> char \<Rightarrow> bool" where
  [go_eval]: "escape_ok m a b \<longleftrightarrow> is_hex a \<and> is_hex b \<and>
     (case m of
        EncodeHost \<Rightarrow> 8 \<le> unhex a \<or> (a = CHR ''2'' \<and> b = CHR ''5'')
      | EncodeZone \<Rightarrow> (a = CHR ''2'' \<and> b = CHR ''5'') \<or>
          (let v = decode_hex a b in v = CHR '' '' \<or> host_ok v)
      | _ \<Rightarrow> True)"

definition plain_ok :: "enc_mode \<Rightarrow> char \<Rightarrow> bool" where
  [go_eval]: "plain_ok m c \<longleftrightarrow>
     (if m = EncodeHost \<or> m = EncodeZone then non_ascii c \<or> host_ok c else True)"

fun unescape :: "enc_mode \<Rightarrow> string \<Rightarrow> string option" where
  "unescape m [] = Some []"
| "unescape m (c # s) =
     (if c = CHR ''%'' then
        (case s of
           a # b # r \<Rightarrow>
             (if escape_ok m a b
              then map_option ((#) (decode_hex a b)) (unescape m r)
              else None)
         | _ \<Rightarrow> None)
      else if plain_ok m c then map_option ((#) c) (unescape m s)
      else None)"

section \<open>IPv6 literals\<close>

definition octet_ok :: "string \<Rightarrow> bool" where
  [go_eval]: "octet_ok f \<longleftrightarrow> f \<noteq> [] \<and> list_all is_digit f \<and>
     (length f = 1 \<or> hd f \<noteq> CHR ''0'') \<and> digits_val f \<le> 255"

definition ip4_fields_ok :: "string \<Rightarrow> bool" where
  [go_eval]: "ip4_fields_ok s \<longleftrightarrow>
     (let fs = split_byte CHR ''.'' s in length fs = 4 \<and> list_all octet_ok fs)"

text \<open>
  The loop of \<open>parseIPv6\<close>: \<open>n\<close> 16-bit fields are read, \<open>ell\<close> says an ellipsis was seen,
  \<open>s\<close> is what is left. The loop makes at most eight rounds.
\<close>

function ip6_loop :: "nat \<Rightarrow> bool \<Rightarrow> string \<Rightarrow> bool" where
  "ip6_loop n ell s =
     (if 8 \<le> n then s = [] \<and> \<not> ell
      else
        let g = takeWhile is_hex s; r = dropWhile is_hex s in
        if g = [] \<or> 4 < length g then False
        else if prefix ''.'' r then (ell \<or> n = 6) \<and> n \<le> 6 \<and> ip4_fields_ok s \<and> (n + 2 < 8 \<longleftrightarrow> ell)
        else if r = [] then (Suc n < 8 \<longleftrightarrow> ell)
        else if hd r \<noteq> CHR '':'' \<or> length r = 1 then False
        else if hd (tl r) = CHR '':'' then
          \<not> ell \<and> (if tl (tl r) = [] then Suc n < 8 else ip6_loop (Suc n) True (tl (tl r)))
        else ip6_loop (Suc n) ell (tl r))"
  by pat_completeness auto
termination
  by (relation "measure (\<lambda>(n, ell, s). 8 - n)") auto

declare ip6_loop.simps [simp del]

definition ip6_ok :: "string \<Rightarrow> bool" where
  [go_eval]: "ip6_ok s \<longleftrightarrow>
     (let (a, z) = cut_byte CHR ''%'' s in
      (CHR ''%'' \<in> set s \<longrightarrow> z \<noteq> []) \<and>
      (if prefix ''::'' a then (if drop 2 a = [] then True else ip6_loop 0 True (drop 2 a))
       else ip6_loop 0 False a))"

text \<open>\<open>netip.ParseAddr\<close> succeeds and the address is no IPv4 address.\<close>

definition ip_literal_ok :: "string \<Rightarrow> bool" where
  [go_eval]: "ip_literal_ok s \<longleftrightarrow>
     (case find (\<lambda>c. c = CHR ''.'' \<or> c = CHR '':'' \<or> c = CHR ''%'') s of
        Some c \<Rightarrow> c = CHR '':'' \<and> ip6_ok s
      | None \<Rightarrow> False)"

section \<open>Parse\<close>

definition valid_optional_port :: "string \<Rightarrow> bool" where
  [go_eval]: "valid_optional_port p \<longleftrightarrow>
     (case p of [] \<Rightarrow> True | c # ds \<Rightarrow> c = CHR '':'' \<and> list_all is_digit ds)"

text \<open>What stands before the last occurrence of a byte, and what stands after it.\<close>

definition rcut_byte :: "char \<Rightarrow> string \<Rightarrow> string \<times> string" where
  [go_eval]: "rcut_byte c s =
     (rev (drop 1 (dropWhile (\<lambda>x. x \<noteq> c) (rev s))), rev (takeWhile (\<lambda>x. x \<noteq> c) (rev s)))"

definition parse_host :: "string \<Rightarrow> string option" where
  [go_eval]: "parse_host host =
     (if CHR ''['' \<in> set host then
        (if fst (rcut_byte CHR ''['' host) \<noteq> [] \<or> CHR '']'' \<notin> set host then None
         else
           let (lit, colon_port) = rcut_byte CHR '']'' host; hostname = drop 1 lit in
           if \<not> valid_optional_port colon_port then None
           else
             let name =
               (case str_index hostname ''%25'' of
                  Some i \<Rightarrow>
                    (case (unescape EncodeHost (take i hostname), unescape EncodeZone (drop i hostname)) of
                       (Some a, Some z) \<Rightarrow> Some (a @ z)
                     | _ \<Rightarrow> None)
                | None \<Rightarrow> unescape EncodeHost hostname) in
             (case name of
                None \<Rightarrow> None
              | Some nm \<Rightarrow> if ip_literal_ok nm then Some (''['' @ nm @ '']'' @ colon_port) else None))
      else if CHR '':'' \<in> set host \<and> \<not> valid_optional_port (dropWhile (\<lambda>x. x \<noteq> CHR '':'') host) then None
      else unescape EncodeHost host)"

definition userinfo_char :: "char \<Rightarrow> bool" where
  [go_eval]: "userinfo_char c \<longleftrightarrow> is_alnum c \<or> c \<in> set ''-._:~!$&()*+,;=%@'' \<or> c = CHR 0x27"

definition parse_authority :: "string \<Rightarrow> string option" where
  [go_eval]: "parse_authority auth =
     (if CHR ''@'' \<notin> set auth then parse_host auth
      else
        let (user, host) = rcut_byte CHR ''@'' auth in
        (case parse_host host of
           None \<Rightarrow> None
         | Some h \<Rightarrow>
             if list_all userinfo_char user \<and> unescape EncodeUserPassword (fst (cut_byte CHR '':'' user)) \<noteq> None
                \<and> unescape EncodeUserPassword (snd (cut_byte CHR '':'' user)) \<noteq> None
             then Some h else None))"

definition scheme_char :: "char \<Rightarrow> bool" where
  [go_eval]: "scheme_char c \<longleftrightarrow> is_alnum c \<or> c = CHR ''+'' \<or> c = CHR ''-'' \<or> c = CHR ''.''"

definition is_alpha :: "char \<Rightarrow> bool" where
  [go_eval]: "is_alpha c \<longleftrightarrow> is_alnum c \<and> \<not> is_digit c"

text \<open>\<open>getScheme\<close>: the scheme and the rest; an empty scheme leaves the whole string.\<close>

definition get_scheme :: "string \<Rightarrow> (string \<times> string) option" where
  [go_eval]: "get_scheme s =
     (let sch = takeWhile scheme_char s; r = dropWhile scheme_char s in
      if prefix '':'' s then None
      else if sch \<noteq> [] \<and> is_alpha (hd sch) \<and> prefix '':'' r then Some (sch, tl r)
      else Some ([], s))"

definition ctl_byte :: "char \<Rightarrow> bool" where
  [go_eval]: "ctl_byte c \<longleftrightarrow> (let n = of_char c :: nat in n < 32 \<or> n = 127)"

definition url_parse_nofrag :: "string \<Rightarrow> url option" where
  [go_eval]: "url_parse_nofrag raw =
     (if list_ex ctl_byte raw then None
      else if raw = ''*'' then Some \<lparr>url_scheme = [], url_host = [], url_path = ''*''\<rparr>
      else
        (case get_scheme raw of
           None \<Rightarrow> None
         | Some (sch, rest0) \<Rightarrow>
             let scheme = to_lower sch; rest = fst (cut_byte CHR ''?'' rest0) in
             if \<not> prefix ''/'' rest \<and> scheme \<noteq> [] then
               Some \<lparr>url_scheme = scheme, url_host = [], url_path = []\<rparr>
             else if \<not> prefix ''/'' rest \<and> CHR '':'' \<in> set (fst (cut_byte CHR ''/'' rest)) then None
             else if prefix ''//'' rest \<and> (scheme \<noteq> [] \<or> \<not> prefix ''///'' rest) then
               let auth = takeWhile (\<lambda>x. x \<noteq> CHR ''/'') (drop 2 rest);
                   path = dropWhile (\<lambda>x. x \<noteq> CHR ''/'') (drop 2 rest) in
               (case (parse_authority auth, unescape EncodePath path) of
                  (Some h, Some p) \<Rightarrow> Some \<lparr>url_scheme = scheme, url_host = h, url_path = p\<rparr>
                | _ \<Rightarrow> None)
             else
               (case unescape EncodePath rest of
                  Some p \<Rightarrow> Some \<lparr>url_scheme = scheme, url_host = [], url_path = p\<rparr>
                | None \<Rightarrow> None)))"

definition url_parse :: "string \<Rightarrow> url option" where
  [go_eval]: "url_parse raw =
     (let (u, frag) = cut_byte CHR ''#'' raw in
      (case url_parse_nofrag u of
         None \<Rightarrow> None
       | Some r \<Rightarrow> if unescape EncodeFragment frag = None then None else Some r))"

definition url_hostname :: "url \<Rightarrow> string" where
  [go_eval]: "url_hostname u =
     (let hp = url_host u;
          host = (if CHR '':'' \<in> set hp \<and> valid_optional_port (CHR '':'' # snd (rcut_byte CHR '':'' hp))
                  then fst (rcut_byte CHR '':'' hp) else hp) in
      if prefix ''['' host \<and> suffix '']'' host then butlast (tl host) else host)"

section \<open>What a parsed host looks like\<close>

definition host_char :: "char \<Rightarrow> bool" where
  "host_char c \<longleftrightarrow> non_ascii c \<or> host_ok c \<or> c = CHR ''%'' \<or> c = CHR '' ''"

lemma host_char_delims:
  "\<not> host_char CHR ''@''" "\<not> host_char CHR ''/''" "\<not> host_char CHR ''?''" "\<not> host_char CHR ''#''"
  by (simp_all add: host_char_def go_eval)

lemma non_ascii_delims: "\<not> non_ascii CHR '':''" "\<not> non_ascii CHR ''['' " "\<not> non_ascii CHR '']''"
  by (simp_all add: go_eval)

lemma is_hex_delims: "\<not> is_hex CHR '':''" "\<not> is_hex CHR ''['' " "\<not> is_hex CHR ''%''"
  by (simp_all add: go_eval)

lemma is_digit_host_char: "is_digit c \<Longrightarrow> host_char c"
  by (auto simp: host_char_def host_ok_def is_alnum_def is_digit_def Let_def)

lemma is_digit_delims: "\<not> is_digit CHR '':''" "\<not> is_digit CHR ''%''" "\<not> is_digit CHR '']''" "\<not> is_digit CHR ''@''"
  by (simp_all add: go_eval)

lemma unhex_less: "is_hex a \<Longrightarrow> unhex a < 16"
  by (auto simp: is_hex_def unhex_def Let_def)

lemma of_char_decode_hex:
  assumes "is_hex a" "is_hex b"
  shows "(of_char (decode_hex a b) :: nat) = 16 * unhex a + unhex b"
proof -
  from assms have "16 * unhex a + unhex b < 256" using unhex_less [of a] unhex_less [of b] by linarith
  then show ?thesis by (simp add: decode_hex_def)
qed

lemma decode_hex_25: "decode_hex CHR ''2'' CHR ''5'' = CHR ''%''"
  by code_simp

lemma escape_host_cases:
  assumes "escape_ok EncodeHost a b"
  shows "decode_hex a b = CHR ''%'' \<or> non_ascii (decode_hex a b)"
proof (cases "a = CHR ''2'' \<and> b = CHR ''5''")
  case True
  then show ?thesis using decode_hex_25 by simp
next
  case False
  with assms have "8 \<le> unhex a" "is_hex a" "is_hex b" by (auto simp: escape_ok_def)
  then show ?thesis by (simp add: non_ascii_def of_char_decode_hex)
qed

lemma escape_host_delims:
  assumes "escape_ok EncodeHost a b"
  shows "decode_hex a b \<noteq> CHR '':''" "decode_hex a b \<noteq> CHR ''[''" "a \<noteq> CHR '':''" "b \<noteq> CHR '':''"
  using escape_host_cases [OF assms] non_ascii_delims is_hex_delims assms
  by (auto simp: escape_ok_def)

lemma escape_zone_cases:
  assumes "escape_ok EncodeZone a b"
  shows "host_char (decode_hex a b)"
proof (cases "a = CHR ''2'' \<and> b = CHR ''5''")
  case True
  then show ?thesis using decode_hex_25 by (simp add: host_char_def)
next
  case False
  with assms show ?thesis by (auto simp: escape_ok_def Let_def host_char_def)
qed

text \<open>Induction over a successful decoding: the empty string, an escape, a byte kept.\<close>

lemma unescape_induct [consumes 1, case_names Nil Esc Plain]:
  assumes "unescape m s = Some t"
    and "P [] []"
    and "\<And>a b s t. escape_ok m a b \<Longrightarrow> unescape m s = Some t \<Longrightarrow> P s t \<Longrightarrow>
           P (CHR ''%'' # a # b # s) (decode_hex a b # t)"
    and "\<And>c s t. c \<noteq> CHR ''%'' \<Longrightarrow> plain_ok m c \<Longrightarrow> unescape m s = Some t \<Longrightarrow> P s t \<Longrightarrow> P (c # s) (c # t)"
  shows "P s t"
  using assms(1)
proof (induction s arbitrary: t rule: length_induct)
  case (1 s)
  show ?case
  proof (cases s)
    case Nil
    with 1 assms(2) show ?thesis by simp
  next
    case (Cons c s')
    show ?thesis
    proof (cases "c = CHR ''%''")
      case True
      with 1 Cons obtain a b r z where "s' = a # b # r" "escape_ok m a b"
          "unescape m r = Some z" "t = decode_hex a b # z"
        by (auto split: list.splits if_splits)
      with 1 Cons True assms(3) show ?thesis by simp
    next
      case False
      with 1 Cons obtain z where "plain_ok m c" "unescape m s' = Some z" "t = c # z"
        by (auto split: if_splits)
      with 1 Cons False assms(4) show ?thesis by simp
    qed
  qed
qed

lemma unescape_host_chars:
  assumes "unescape m s = Some t" and "m = EncodeHost \<or> m = EncodeZone"
  shows "list_all host_char t"
  using assms
proof (induction rule: unescape_induct)
  case (Esc a b s t)
  then show ?case
    using escape_host_cases [of a b] escape_zone_cases [of a b] by (auto simp: host_char_def)
qed (auto simp: plain_ok_def host_char_def)

lemma unescape_id: "unescape m s = Some t \<Longrightarrow> CHR ''%'' \<notin> set s \<Longrightarrow> t = s"
  by (induction rule: unescape_induct) auto

lemma unescape_digits: "list_all is_digit ds \<Longrightarrow> unescape EncodeHost ds = Some ds"
proof (induction ds)
  case Nil
  then show ?case by simp
next
  case (Cons c ds)
  then have "c \<noteq> CHR ''%''" "host_ok c"
    using is_digit_delims by (auto simp: host_ok_def is_alnum_def is_digit_def Let_def)
  with Cons show ?case by (simp add: plain_ok_def)
qed

text \<open>Decoding a host neither adds nor removes a bracket or a colon, and keeps the port.\<close>

lemma unescape_host_port:
  assumes "unescape EncodeHost h = Some r"
    and "valid_optional_port (dropWhile (\<lambda>x. x \<noteq> CHR '':'') h)"
  shows "dropWhile (\<lambda>x. x \<noteq> CHR '':'') r = dropWhile (\<lambda>x. x \<noteq> CHR '':'') h"
  using assms
proof (induction rule: unescape_induct)
  case (Esc a b s t)
  then show ?case using escape_host_delims [of a b] by simp
next
  case (Plain c s t)
  then show ?case
    using unescape_digits [of s] by (cases "c = CHR '':''") (auto simp: valid_optional_port_def)
qed simp

lemma unescape_host_bracket:
  assumes "unescape EncodeHost h = Some r" and "CHR ''['' \<in> set r"
  shows "CHR ''['' \<in> set h"
  using assms
proof (induction rule: unescape_induct)
  case (Esc a b s t)
  then show ?case using escape_host_delims [of a b] by auto
qed auto

lemma unescape_host_percent:
  assumes "unescape EncodeHost h = Some r" and "CHR ''%'' \<in> set h"
  shows "\<exists>c \<in> set r. c = CHR ''%'' \<or> non_ascii c"
  using assms
proof (induction rule: unescape_induct)
  case (Esc a b s t)
  then show ?case using escape_host_cases [of a b] by auto
qed auto

text \<open>An IPv6 address has at least two colons.\<close>

lemma ip6_loop_colons:
  "ip6_loop n ell s \<Longrightarrow> \<not> ell \<Longrightarrow> n \<le> 8 \<Longrightarrow> 6 \<le> n + count_list s CHR '':'' \<or> 2 \<le> count_list s CHR '':''"
proof (induction n ell s rule: ip6_loop.induct)
  case (1 n ell s)
  define g where "g = takeWhile is_hex s"
  define r where "r = dropWhile is_hex s"
  from "1.prems" have ell: "ell = False" by simp
  have s: "s = g @ r" by (simp add: g_def r_def)
  show ?case
  proof (cases "8 \<le> n \<or> prefix ''.'' r \<or> r = []")
    case True
    with "1.prems" ell show ?thesis
      by (auto simp: ip6_loop.simps [of n False s] Let_def g_def [symmetric] r_def [symmetric] split: if_splits)
  next
    case False
    with "1.prems" ell obtain c r' where r: "r = CHR '':'' # c # r'" and g: "g \<noteq> []" "\<not> 4 < length g"
      by (cases r; cases "tl r")
        (auto simp: ip6_loop.simps [of n False s] Let_def g_def [symmetric] r_def [symmetric] split: if_splits)
    show ?thesis
    proof (cases "c = CHR '':''")
      case True
      with r s show ?thesis by simp
    next
      case F2: False
      with False r g "1.prems" ell have "ip6_loop (Suc n) ell (c # r')"
        by (simp add: ip6_loop.simps [of n False s] Let_def g_def [symmetric] r_def [symmetric])
      with False F2 r g "1.prems" "1.IH"(2) [OF _ g_def r_def]
      have "6 \<le> Suc n + count_list (c # r') CHR '':'' \<or> 2 \<le> count_list (c # r') CHR '':''"
        by simp
      with r s show ?thesis by auto
    qed
  qed
qed

lemma count_list_append: "count_list (xs @ ys) x = count_list xs x + count_list ys x"
  by (induction xs) auto

lemma ip_literal_colons:
  assumes "ip_literal_ok s"
  shows "2 \<le> count_list s CHR '':''"
proof -
  define a where "a = fst (cut_byte CHR ''%'' s)"
  have le: "count_list a CHR '':'' \<le> count_list s CHR '':''"
    using takeWhile_dropWhile_id [of "\<lambda>x. x \<noteq> CHR ''%''" s]
    by (metis a_def count_list_append cut_byte_def fst_conv le_add1)
  from assms have ok: "ip6_ok s" by (auto simp: ip_literal_ok_def split: option.splits)
  show ?thesis
  proof (cases "prefix ''::'' a")
    case True
    then have "2 \<le> count_list a CHR '':''" by (auto simp: prefix_def)
    with le show ?thesis by simp
  next
    case False
    with ok have "ip6_loop 0 False a" by (simp add: ip6_ok_def a_def split: prod.splits)
    then have "6 \<le> count_list a CHR '':'' \<or> 2 \<le> count_list a CHR '':''"
      using ip6_loop_colons [of 0 False a] by simp
    with le show ?thesis by linarith
  qed
qed

section \<open>Hosts and host names\<close>

lemma rcut_byte_last: "c \<notin> set b \<Longrightarrow> rcut_byte c (a @ c # b) = (a, b)"
  by (simp add: rcut_byte_def takeWhile_append_stop dropWhile_append_stop)

lemma rcut_byte_decomp: "c \<in> set s \<Longrightarrow> s = fst (rcut_byte c s) @ c # snd (rcut_byte c s)"
proof -
  assume "c \<in> set s"
  then obtain a b where "s = a @ c # b" "c \<notin> set b" by (metis split_list_last)
  then show ?thesis by (simp add: rcut_byte_last)
qed

lemma cut_byte_set: "set (fst (cut_byte c s)) \<subseteq> set s"
  by (auto simp: cut_byte_def dest: set_takeWhileD)

lemma parse_host_plain:
  assumes "parse_host h = Some r" and "CHR ''['' \<notin> set h"
  shows "unescape EncodeHost h = Some r" "CHR ''['' \<notin> set r"
    "valid_optional_port (dropWhile (\<lambda>x. x \<noteq> CHR '':'') r)" "list_all host_char r"
proof -
  from assms show u: "unescape EncodeHost h = Some r" by (simp add: parse_host_def split: if_splits)
  with assms(2) show "CHR ''['' \<notin> set r" using unescape_host_bracket by blast
  from assms have "valid_optional_port (dropWhile (\<lambda>x. x \<noteq> CHR '':'') h)"
    by (auto simp: parse_host_def valid_optional_port_def dropWhile_notin split: if_splits)
  with unescape_host_port [OF u] show "valid_optional_port (dropWhile (\<lambda>x. x \<noteq> CHR '':'') r)"
    by simp
  from u show "list_all host_char r" using unescape_host_chars by blast
qed

lemma parse_host_bracket:
  assumes "parse_host h = Some r" and "CHR ''['' \<in> set h"
  obtains nm p where "r = ''['' @ nm @ '']'' @ p" "valid_optional_port p" "ip_literal_ok nm"
    "list_all host_char nm"
proof -
  obtain lit p where lp: "rcut_byte CHR '']'' h = (lit, p)" by fastforce
  define hn where "hn = drop 1 lit"
  from assms lp obtain nm where port: "valid_optional_port p" and lit: "ip_literal_ok nm"
    and r: "r = ''['' @ nm @ '']'' @ p"
    and nm: "(case str_index hn ''%25'' of
                  Some i \<Rightarrow>
                    (case (unescape EncodeHost (take i hn), unescape EncodeZone (drop i hn)) of
                       (Some a, Some z) \<Rightarrow> Some (a @ z)
                     | _ \<Rightarrow> None)
                | None \<Rightarrow> unescape EncodeHost hn) = Some nm"
    unfolding parse_host_def Let_def hn_def [symmetric]
    by (auto simp: hn_def split: if_splits option.splits)
  from nm have "list_all host_char nm"
    using unescape_host_chars by (fastforce split: option.splits)
  with port lit r that show ?thesis by blast
qed

lemma hostname_plain:
  assumes "url_host u = hp" and "CHR ''['' \<notin> set hp"
    and "valid_optional_port (dropWhile (\<lambda>x. x \<noteq> CHR '':'') hp)"
  shows "url_hostname u = takeWhile (\<lambda>x. x \<noteq> CHR '':'') hp"
proof -
  have nob: "\<not> prefix ''['' t" if "set t \<subseteq> set hp" for t
    using that assms(2) by (auto simp: prefix_def)
  show ?thesis
  proof (cases "CHR '':'' \<in> set hp")
    case False
    then show ?thesis using nob assms(1) by (simp add: url_hostname_def Let_def takeWhile_notin)
  next
    case True
    then obtain a ds where hp: "hp = a @ CHR '':'' # ds" "CHR '':'' \<notin> set a"
      by (metis split_list_first)
    with assms(3) have ds: "list_all is_digit ds"
      by (simp add: dropWhile_append_stop valid_optional_port_def)
    then have "CHR '':'' \<notin> set ds" using is_digit_delims by (auto simp: list_all_iff)
    moreover have "\<not> prefix ''['' a" using nob hp by auto
    ultimately show ?thesis using hp ds assms(1)
      by (simp add: url_hostname_def Let_def rcut_byte_last takeWhile_append_stop valid_optional_port_def)
  qed
qed

lemma hostname_bracket:
  assumes "url_host u = ''['' @ nm @ '']'' @ p" and "valid_optional_port p"
  shows "url_hostname u = nm"
proof (cases p)
  case Nil
  then have "\<not> valid_optional_port (CHR '':'' # snd (rcut_byte CHR '':'' (url_host u)))"
    using assms(1) is_digit_delims by (simp add: rcut_byte_def valid_optional_port_def)
  moreover have "suffix '']'' (CHR ''['' # nm @ '']'')" by (simp add: suffix_def)
  ultimately show ?thesis using assms(1) Nil by (simp add: url_hostname_def Let_def butlast_append)
next
  case (Cons c ds)
  with assms(2) have c: "c = CHR '':''" and ds: "list_all is_digit ds"
    by (auto simp: valid_optional_port_def)
  then have nc: "CHR '':'' \<notin> set ds" using is_digit_delims by (auto simp: list_all_iff)
  have hp: "url_host u = (''['' @ nm @ '']'') @ CHR '':'' # ds" using assms(1) Cons c by simp
  show ?thesis
    unfolding url_hostname_def Let_def hp rcut_byte_last [OF nc]
    using ds by (simp add: valid_optional_port_def butlast_append suffix_def)
qed

lemma url_hostname_empty: "url_host u = [] \<Longrightarrow> url_hostname u = []"
  by (simp add: url_hostname_def)

lemma url_parse_cases:
  assumes "url_parse raw = Some u"
  shows "url_host u = [] \<or> (\<exists>h. parse_host h = Some (url_host u))"
    and "CHR ''/'' \<notin> set (url_scheme u)"
proof -
  from assms have nf: "url_parse_nofrag (fst (cut_byte CHR ''#'' raw)) = Some u"
    by (auto simp: url_parse_def split: prod.splits option.splits if_splits)
  have pa: "\<exists>h. parse_host h = Some r" if "parse_authority a = Some r" for a r
    using that by (auto simp: parse_authority_def split: if_splits prod.splits option.splits)
  from nf show "url_host u = [] \<or> (\<exists>h. parse_host h = Some (url_host u))"
    unfolding url_parse_nofrag_def Let_def
    by (auto split: if_splits option.splits prod.splits dest: pa)
  have sc: "CHR ''/'' \<notin> set (to_lower sch)" if "get_scheme s = Some (sch, r)" for s sch r
  proof -
    have "CHR ''/'' \<notin> set (takeWhile scheme_char s)"
      by (auto simp: go_eval dest!: set_takeWhileD)
    with that show ?thesis
      by (auto simp: get_scheme_def Let_def caseless_in_to_lower caseless_def split: if_splits)
  qed
  from nf show "CHR ''/'' \<notin> set (url_scheme u)"
    unfolding url_parse_nofrag_def Let_def
    by (auto split: if_splits option.splits prod.splits dest: sc)
qed

lemma url_hostname_shape:
  assumes "url_parse raw = Some u"
  shows "list_all host_char (url_hostname u)" and "count_list (url_hostname u) CHR '':'' \<noteq> 1"
proof -
  have "list_all host_char (url_hostname u) \<and> count_list (url_hostname u) CHR '':'' \<noteq> 1"
  proof (cases "url_host u = []")
    case True
    then show ?thesis by (simp add: url_hostname_empty)
  next
    case False
    with url_parse_cases(1) [OF assms] obtain h where h: "parse_host h = Some (url_host u)" by blast
    show ?thesis
    proof (cases "CHR ''['' \<in> set h")
      case True
      from parse_host_bracket [OF h True] obtain nm p where
        "url_hostname u = nm" "ip_literal_ok nm" "list_all host_char nm"
        by (metis hostname_bracket)
      with ip_literal_colons [of nm] show ?thesis by simp
    next
      case F2: False
      note p = parse_host_plain [OF h F2]
      have hn: "url_hostname u = takeWhile (\<lambda>x. x \<noteq> CHR '':'') (url_host u)"
        by (rule hostname_plain [OF refl p(2,3)])
      then have "CHR '':'' \<notin> set (url_hostname u)" by (simp add: notin_takeWhile)
      then have "count_list (url_hostname u) CHR '':'' = 0" by (simp add: count_list_0_iff)
      moreover have "list_all host_char (url_hostname u)"
        using p(4) hn by (auto simp: list_all_iff dest: set_takeWhileD)
      ultimately show ?thesis by simp
    qed
  qed
  then show "list_all host_char (url_hostname u)" "count_list (url_hostname u) CHR '':'' \<noteq> 1" by auto
qed

section \<open>Ordinary host names\<close>

text \<open>A name of letters, digits, hyphens, dots and underscores, as DNS host names are.\<close>

definition dns_char :: "char \<Rightarrow> bool" where
  [go_eval]: "dns_char c \<longleftrightarrow> is_alnum c \<or> c \<in> set ''-._''"

definition dns_name :: "string \<Rightarrow> bool" where
  [go_eval]: "dns_name s \<longleftrightarrow> s \<noteq> [] \<and> list_all dns_char s"

lemma dns_char_delims:
  "\<not> dns_char CHR '':''" "\<not> dns_char CHR ''%''" "\<not> dns_char CHR ''*''" "\<not> dns_char CHR ''@''"
  "\<not> dns_char CHR ''/''" "\<not> dns_char CHR ''?''" "\<not> dns_char CHR ''#''"
  by (simp_all add: go_eval)

lemma non_ascii_not_dns: "non_ascii c \<Longrightarrow> \<not> dns_char (to_lower_char c)"
  by (auto simp: non_ascii_def dns_char_def is_alnum_def to_lower_char_def Let_def of_char_of)

lemma dns_name_lower_notin:
  assumes "dns_name (to_lower s)" and "\<not> dns_char x" and "caseless x"
  shows "x \<notin> set s"
  using assms by (auto simp: dns_name_def list_all_iff set_to_lower to_lower_char_caseless)
    (metis to_lower_char_caseless)

lemma caseless_delims:
  "caseless CHR '':''" "caseless CHR ''%''" "caseless CHR ''*''" "caseless CHR ''@''"
  "caseless CHR ''/''" "caseless CHR ''?''" "caseless CHR ''#''" "caseless CHR ''.''"
  by (simp_all add: caseless_def)

lemma valid_port_chars:
  assumes "valid_optional_port p" and "c \<in> set p"
  shows "c \<noteq> CHR ''%'' \<and> \<not> non_ascii c"
proof -
  from assms have "c = CHR '':'' \<or> is_digit c"
    by (cases p) (auto simp: valid_optional_port_def list_all_iff)
  then show ?thesis by (auto simp: is_digit_def non_ascii_def Let_def)
qed

text \<open>A host whose name is an ordinary one was written without escapes or brackets.\<close>

lemma parse_host_dns:
  assumes "parse_host hp = Some (url_host u)" and dns: "dns_name (to_lower (url_hostname u))"
  shows "hp = url_host u" "takeWhile (\<lambda>x. x \<noteq> CHR '':'') hp = url_hostname u"
    "valid_optional_port (dropWhile (\<lambda>x. x \<noteq> CHR '':'') hp)"
proof -
  note notin = dns_name_lower_notin [OF dns]
  have nobr: "CHR ''['' \<notin> set hp"
  proof
    assume "CHR ''['' \<in> set hp"
    then obtain nm where "url_hostname u = nm" "ip_literal_ok nm"
      using parse_host_bracket [OF assms(1)] by (metis hostname_bracket)
    then have "2 \<le> count_list (url_hostname u) CHR '':''" using ip_literal_colons by blast
    then have "CHR '':'' \<in> set (url_hostname u)" by (metis count_list_0_iff not_numeral_le_zero)
    then show False using notin dns_char_delims caseless_delims by blast
  qed
  note p = parse_host_plain [OF assms(1) nobr]
  have hn: "url_hostname u = takeWhile (\<lambda>x. x \<noteq> CHR '':'') (url_host u)"
    by (rule hostname_plain [OF refl p(2,3)])
  have "CHR ''%'' \<notin> set hp"
  proof
    assume "CHR ''%'' \<in> set hp"
    from unescape_host_percent [OF p(1) this] obtain c where
      c: "c \<in> set (url_host u)" "c = CHR ''%'' \<or> non_ascii c" by blast
    have "c \<notin> set (dropWhile (\<lambda>x. x \<noteq> CHR '':'') (url_host u))"
      using valid_port_chars [OF p(3)] c(2) by blast
    then have "c \<in> set (url_hostname u)"
      using c(1) hn takeWhile_dropWhile_id [of "\<lambda>x. x \<noteq> CHR '':''" "url_host u"]
      by (metis Un_iff set_append)
    then show False
      using c(2) notin dns_char_delims caseless_delims dns non_ascii_not_dns
      by (auto simp: dns_name_def list_all_iff set_to_lower)
  qed
  with unescape_id [OF p(1)] show hp: "hp = url_host u" by simp
  from hp hn show "takeWhile (\<lambda>x. x \<noteq> CHR '':'') hp = url_hostname u" by simp
  from hp p(3) show "valid_optional_port (dropWhile (\<lambda>x. x \<noteq> CHR '':'') hp)" by simp
qed

lemma colon_no_scheme_char: "\<not> scheme_char CHR '':''"
  by (simp add: go_eval)

lemma parse_authorityD:
  "parse_authority a = Some h \<Longrightarrow> CHR ''@'' \<notin> set a \<Longrightarrow> parse_host a = Some h"
  by (simp add: parse_authority_def)

text \<open>Where the authority of a URL with a host stands in the string that was parsed.\<close>

lemma url_parse_authority:
  assumes "url_parse s = Some u" and "url_host u \<noteq> []"
  obtains (Scheme) sch X where "s = sch @ ''://'' @ X" "CHR '':'' \<notin> set sch"
      "parse_authority (takeWhile (\<lambda>x. x \<noteq> CHR ''/'') (takeWhile (\<lambda>x. x \<noteq> CHR ''?'')
         (takeWhile (\<lambda>x. x \<noteq> CHR ''#'') X))) = Some (url_host u)"
    | (Relative) "prefix ''//'' s"
proof -
  define raw where "raw = takeWhile (\<lambda>x. x \<noteq> CHR ''#'') s"
  from assms(1) have nf: "url_parse_nofrag raw = Some u"
    by (auto simp: url_parse_def raw_def cut_byte_def split: option.splits if_splits)
  then obtain sch rest0 where gs: "get_scheme raw = Some (sch, rest0)"
    using assms(2) by (auto simp: url_parse_nofrag_def split: if_splits option.splits)
  define rest where "rest = takeWhile (\<lambda>x. x \<noteq> CHR ''?'') rest0"
  from nf gs assms(2) have pre: "prefix ''//'' rest"
    and pa: "parse_authority (takeWhile (\<lambda>x. x \<noteq> CHR ''/'') (drop 2 rest)) = Some (url_host u)"
    unfolding url_parse_nofrag_def Let_def
    by (auto simp: rest_def cut_byte_def split: if_splits option.splits)
  from pre obtain Y where Y: "rest0 = ''//'' @ Y" and rest: "rest = ''//'' @ takeWhile (\<lambda>x. x \<noteq> CHR ''?'') Y"
    unfolding rest_def
    by (cases rest0; cases "tl rest0") (auto simp: prefix_def split: if_splits)
  have raw_s: "s = raw @ dropWhile (\<lambda>x. x \<noteq> CHR ''#'') s" by (simp add: raw_def)
  show thesis
  proof (cases "sch = []")
    case True
    with gs have "raw = rest0" by (auto simp: get_scheme_def Let_def split: if_splits)
    with Y raw_s Relative show ?thesis by (metis append_assoc prefixI)
  next
    case False
    with gs have raw: "raw = sch @ '':'' @ rest0" and sch: "sch = takeWhile scheme_char raw"
      by (auto simp: get_scheme_def Let_def prefix_def split: if_splits)
        (metis append_Cons append_Nil list.sel(3) takeWhile_dropWhile_id)+
    define X where "X = Y @ dropWhile (\<lambda>x. x \<noteq> CHR ''#'') s"
    have s: "s = (sch @ ''://'') @ X" using raw_s raw Y by (simp add: X_def)
    have "CHR ''#'' \<notin> set raw" by (simp add: raw_def notin_takeWhile)
    then have "\<forall>x \<in> set (sch @ ''://''). x \<noteq> CHR ''#''"
      unfolding raw Y by auto
    then have "raw = (sch @ ''://'') @ takeWhile (\<lambda>x. x \<noteq> CHR ''#'') X"
      unfolding raw_def by (subst s) (simp add: takeWhile_append2)
    with raw Y have "takeWhile (\<lambda>x. x \<noteq> CHR ''#'') X = Y" by simp
    with pa rest have "parse_authority (takeWhile (\<lambda>x. x \<noteq> CHR ''/'') (takeWhile (\<lambda>x. x \<noteq> CHR ''?'')
         (takeWhile (\<lambda>x. x \<noteq> CHR ''#'') X))) = Some (url_host u)"
      by simp
    moreover have "CHR '':'' \<notin> set sch"
      using colon_no_scheme_char sch set_takeWhileD by metis
    ultimately show ?thesis using s Scheme by simp
  qed
qed

text \<open>An https URL whose authority is a plain host, with or without a port, and whose path starts with a slash.\<close>

definition plain_authority :: "string \<Rightarrow> bool" where
  "plain_authority a \<longleftrightarrow> a \<noteq> [] \<and> (\<forall>c \<in> set ''/?#@[%''. c \<notin> set a)"

lemma takeWhile_plain: "c \<notin> set a \<Longrightarrow> takeWhile (\<lambda>x. x \<noteq> c) (a @ z) = a @ takeWhile (\<lambda>x. x \<noteq> c) z"
  by (induction a) auto

lemma get_scheme_https: "get_scheme (''https:'' @ r) = Some (''https'', r)"
proof -
  have "scheme_char CHR ''h''" "scheme_char CHR ''t''" "scheme_char CHR ''p''" "scheme_char CHR ''s''"
    "is_alpha CHR ''h''" by code_simp+
  with colon_no_scheme_char show ?thesis by (simp add: get_scheme_def)
qed

lemma url_parse_https:
  assumes "url_parse (''https://'' @ a @ z) = Some v" and a: "plain_authority a" and z: "z = [] \<or> prefix ''/'' z"
  shows "url_host v = a" "url_scheme v = ''https''" "valid_optional_port (dropWhile (\<lambda>x. x \<noteq> CHR '':'') a)"
proof -
  have na: "CHR ''/'' \<notin> set a" "CHR ''?'' \<notin> set a" "CHR ''#'' \<notin> set a" "CHR ''@'' \<notin> set a"
      "CHR ''['' \<notin> set a" "CHR ''%'' \<notin> set a" using a by (simp_all add: plain_authority_def)
  define z1 where "z1 = takeWhile (\<lambda>x. x \<noteq> CHR ''#'') z"
  define z2 where "z2 = takeWhile (\<lambda>x. x \<noteq> CHR ''?'') z1"
  have z2: "takeWhile (\<lambda>x. x \<noteq> CHR ''/'') z2 = []"
    using z by (cases z) (auto simp: z1_def z2_def prefix_def)
  have nf: "url_parse_nofrag (''https://'' @ a @ z1) = Some v"
    using assms(1) na by (auto simp: url_parse_def cut_byte_def takeWhile_plain z1_def split: option.splits if_splits)
  have gs: "get_scheme (''https://'' @ a @ z1) = Some (''https'', ''//'' @ a @ z1)"
    using get_scheme_https [of "''//'' @ a @ z1"] by simp
  have tl: "to_lower ''https'' = ''https''" by code_simp
  have rest: "fst (cut_byte CHR ''?'' (''//'' @ a @ z1)) = ''//'' @ a @ z2"
    using na by (simp add: cut_byte_def takeWhile_plain z2_def)
  have auth: "takeWhile (\<lambda>x. x \<noteq> CHR ''/'') (drop 2 (''//'' @ a @ z2)) = a"
    using na z2 by (simp add: takeWhile_plain)
  have pre: "prefix ''/'' (''//'' @ a @ z2)" "prefix ''//'' (''//'' @ a @ z2)" "''https'' \<noteq> ([] :: string)"
      "''https://'' @ a @ z1 \<noteq> ''*''" by simp_all
  define P where "P = unescape EncodePath (dropWhile (\<lambda>x. x \<noteq> CHR ''/'') (drop 2 (''//'' @ a @ z2)))"
  define bad where "bad = list_ex ctl_byte (''https://'' @ a @ z1)"
  have "url_parse_nofrag (''https://'' @ a @ z1) =
      (if bad then None
       else case (parse_authority a, P) of
          (Some h, Some p) \<Rightarrow> Some \<lparr>url_scheme = ''https'', url_host = h, url_path = p\<rparr>
        | _ \<Rightarrow> None)"
    unfolding url_parse_nofrag_def gs option.case prod.case Let_def rest tl auth P_def bad_def
    by (simp only: pre simp_thms if_True if_False not_True_eq_False)
  from trans [OF this [symmetric] nf]
  have "\<exists>h p. parse_authority a = Some h \<and> v = \<lparr>url_scheme = ''https'', url_host = h, url_path = p\<rparr>"
    by (cases "parse_authority a"; cases P; cases bad) auto
  then obtain h p where h: "parse_host a = Some h" and v: "v = \<lparr>url_scheme = ''https'', url_host = h, url_path = p\<rparr>"
    using parse_authorityD na(4) by blast
  have "h = a" using unescape_id [OF parse_host_plain(1) [OF h na(5)] na(6)] .
  with v parse_host_plain(3) [OF h na(5)] show "url_host v = a" "url_scheme v = ''https''"
    "valid_optional_port (dropWhile (\<lambda>x. x \<noteq> CHR '':'') a)" by simp_all
qed

lemma url_hostname_https:
  assumes "url_parse (''https://'' @ host @ port @ z) = Some v" and "plain_authority host" "CHR '':'' \<notin> set host"
    and "port = [] \<or> (\<exists>p. port = CHR '':'' # p \<and> list_all is_digit p)" and "z = [] \<or> prefix ''/'' z"
  shows "url_hostname v = host" "url_scheme v = ''https''"
proof -
  have d: "list_all (\<lambda>c. \<not> is_digit c \<and> c \<noteq> CHR '':'') ''/?#@[%''" by code_simp
  have pa: "plain_authority (host @ port)"
    unfolding plain_authority_def
  proof (intro conjI ballI)
    show "host @ port \<noteq> []" using assms(2) by (simp add: plain_authority_def)
    fix c
    assume c: "c \<in> set ''/?#@[%''"
    with d have "\<not> is_digit c" "c \<noteq> CHR '':''" by (simp_all add: list_all_iff del: list.set)
    moreover have "c \<notin> set host" using assms(2) c by (simp add: plain_authority_def del: list.set)
    ultimately show "c \<notin> set (host @ port)" using assms(4) by (auto simp: list_all_iff)
  qed
  have u: "url_parse (''https://'' @ (host @ port) @ z) = Some v" using assms(1) by simp
  note hv = url_parse_https [OF u pa assms(5)]
  have nb: "CHR ''['' \<notin> set (host @ port)" using pa by (simp add: plain_authority_def)
  have tw: "takeWhile (\<lambda>x. x \<noteq> CHR '':'') (host @ port) = host"
    using assms(3,4) by (auto simp: takeWhile_plain)
  from hostname_plain [OF hv(1) nb hv(3)] show "url_hostname v = host" unfolding tw .
  from hv(2) show "url_scheme v = ''https''" .
qed

end
