(* ===== verification/Go_Json.thy ===== *)
theory Go_Json imports Go_Strings begin

text \<open>
  \<open>encoding/json\<close> as the program uses it: \<open>Marshal\<close> of the structs, slices and raw messages it
  builds, to the exact bytes (the audit chain and the policy hashes cover them), and the reading
  of a string literal, which a verifier of the chain needs. String literals get Go's escapes,
  the HTML-safe ones included; bytes above 127 are copied, as for valid UTF-8. \<^term>\<open>JRaw\<close> in the
  datatype below is a \<open>json.RawMessage\<close>, which \<open>Marshal\<close> compacts. The constructor for an
  unsupported value stands for a Go value \<open>Marshal\<close> refuses, with its error text, so that the
  error branches of the callers stay in the model.
\<close>

section \<open>Values and their text\<close>

datatype json =
    JNull
  | JBool bool
  | JInt int
  | JStr string
  | JArr "json list"
  | JObj "(string \<times> json) list"
  | JRaw string
  | JUnsupported string

definition json_escape :: "char \<Rightarrow> string" where
  [go_eval]: "json_escape c =
     (if c = CHR 0x22 then [CHR 0x5C, CHR 0x22]
      else if c = CHR 0x5C then [CHR 0x5C, CHR 0x5C]
      else if c = CHR 0x08 then CHR 0x5C # ''b''
      else if c = CHR 0x0C then CHR 0x5C # ''f''
      else if c = CHR 0x0A then CHR 0x5C # ''n''
      else if c = CHR 0x0D then CHR 0x5C # ''r''
      else if c = CHR 0x09 then CHR 0x5C # ''t''
      else if (of_char c :: nat) < 32 \<or> c = CHR ''<'' \<or> c = CHR ''>'' \<or> c = CHR ''&''
        then CHR 0x5C # ''u00'' @ hex_byte c
      else [c])"

definition json_quote :: "string \<Rightarrow> string" where
  [go_eval]: "json_quote s = [CHR 0x22] @ concat (map json_escape s) @ [CHR 0x22]"

fun join :: "string \<Rightarrow> string list \<Rightarrow> string" where
  "join sep [] = []"
| "join sep [w] = w"
| "join sep (w # v # ws) = w @ sep @ join sep (v # ws)"

definition html_escape :: "char \<Rightarrow> string" where
  [go_eval]: "html_escape c =
     (if c = CHR ''<'' \<or> c = CHR ''>'' \<or> c = CHR ''&'' then CHR 0x5C # ''u00'' @ hex_byte c else [c])"

text \<open>\<open>compact\<close>: white space outside string literals goes, inside them nothing does.\<close>

fun json_compact :: "bool \<Rightarrow> string \<Rightarrow> string" where
  "json_compact in_str [] = []"
| "json_compact False (c # s) =
     (if c \<in> {CHR '' '', CHR 0x09, CHR 0x0A, CHR 0x0D} then json_compact False s
      else if c = CHR 0x22 then c # json_compact True s
      else html_escape c @ json_compact False s)"
| "json_compact True (c # s) =
     (if c = CHR 0x5C then
        (case s of [] \<Rightarrow> [c] | d # r \<Rightarrow> c # html_escape d @ json_compact True r)
      else if c = CHR 0x22 then c # json_compact False s
      else html_escape c @ json_compact True s)"

text \<open>The first error of a list of results, or all the results.\<close>

fun all_ok :: "('e + 'a) list \<Rightarrow> 'e + 'a list" where
  "all_ok [] = Inr []"
| "all_ok (Inl e # rs) = Inl e"
| "all_ok (Inr a # rs) = (case all_ok rs of Inl e \<Rightarrow> Inl e | Inr as \<Rightarrow> Inr (a # as))"

definition json_member :: "string \<times> (string + string) \<Rightarrow> string + string" where
  [go_eval]: "json_member kv = (case snd kv of Inl e \<Rightarrow> Inl e | Inr v \<Rightarrow> Inr (json_quote (fst kv) @ '':'' @ v))"

primrec json_marshal :: "json \<Rightarrow> string + string" where
  "json_marshal JNull = Inr ''null''"
| "json_marshal (JBool b) = Inr (if b then ''true'' else ''false'')"
| "json_marshal (JInt i) = Inr (itoa i)"
| "json_marshal (JStr s) = Inr (json_quote s)"
| "json_marshal (JArr xs) =
     (case all_ok (map json_marshal xs) of
        Inl e \<Rightarrow> Inl e | Inr ws \<Rightarrow> Inr (''['' @ join '','' ws @ '']''))"
| "json_marshal (JObj kvs) =
     (case all_ok (map json_member (map (map_prod id json_marshal) kvs)) of
        Inl e \<Rightarrow> Inl e | Inr ws \<Rightarrow> Inr (''{'' @ join '','' ws @ ''}''))"
| "json_marshal (JRaw s) = Inr (if s = [] then ''null'' else json_compact False s)"
| "json_marshal (JUnsupported e) = Inl e"

text \<open>A value without refused parts is marshalled.\<close>

primrec json_ok :: "json \<Rightarrow> bool" where
  "json_ok JNull = True"
| "json_ok (JBool b) = True"
| "json_ok (JInt i) = True"
| "json_ok (JStr s) = True"
| "json_ok (JArr xs) = list_all (\<lambda>b. b) (map json_ok xs)"
| "json_ok (JObj kvs) = list_all snd (map (map_prod id json_ok) kvs)"
| "json_ok (JRaw s) = True"
| "json_ok (JUnsupported e) = False"

lemma all_ok_Inr: "(\<exists>as. all_ok rs = Inr as) \<longleftrightarrow> (\<forall>r \<in> set rs. \<exists>a. r = Inr a)"
proof (induction rs rule: all_ok.induct)
  case (3 a rs)
  then show ?case by (auto split: sum.splits)
qed auto

lemma json_member_Inr: "(\<exists>w. json_member kv = Inr w) \<longleftrightarrow> (\<exists>v. snd kv = Inr v)"
  by (auto simp: json_member_def split: sum.splits)

lemma json_marshal_ok: "json_ok j \<longleftrightarrow> (\<exists>b. json_marshal j = Inr b)"
proof (induction j)
  case (JArr xs)
  have "json_ok (JArr xs) \<longleftrightarrow> (\<exists>ws. all_ok (map json_marshal xs) = Inr ws)"
    using JArr by (simp add: all_ok_Inr list_all_iff)
  then show ?case by (auto split: sum.splits)
next
  case (JObj kvs)
  have "json_ok (JObj kvs) \<longleftrightarrow> (\<forall>kv \<in> set kvs. json_ok (snd kv))"
    by (auto simp: list_all_iff)
  also have "\<dots> \<longleftrightarrow> (\<forall>kv \<in> set kvs. \<exists>b. json_marshal (snd kv) = Inr b)"
    using JObj by (auto simp: snds.simps)
  also have "\<dots> \<longleftrightarrow> (\<exists>ws. all_ok (map json_member (map (map_prod id json_marshal) kvs)) = Inr ws)"
    by (auto simp: all_ok_Inr json_member_Inr)
  finally show ?case by (auto split: sum.splits)
qed auto

section \<open>Reading a string literal back\<close>

definition hex_val :: "char \<Rightarrow> nat option" where
  [go_eval]: "hex_val c = (let n = of_char c :: nat in
     if 48 \<le> n \<and> n \<le> 57 then Some (n - 48)
     else if 97 \<le> n \<and> n \<le> 102 then Some (n - 87)
     else if 65 \<le> n \<and> n \<le> 70 then Some (n - 55) else None)"

definition hex4 :: "char \<Rightarrow> char \<Rightarrow> char \<Rightarrow> char \<Rightarrow> nat option" where
  [go_eval]: "hex4 a b c d =
     (case (hex_val a, hex_val b, hex_val c, hex_val d) of
        (Some i, Some j, Some k, Some l) \<Rightarrow> Some (((16 * i + j) * 16 + k) * 16 + l)
      | _ \<Rightarrow> None)"

text \<open>\<open>utf8.EncodeRune\<close>, and \<open>utf16.DecodeRune\<close> of a surrogate pair.\<close>

definition utf8_encode :: "nat \<Rightarrow> string" where
  [go_eval]: "utf8_encode u =
     (if u < 128 then [char_of u]
      else if u < 2048 then [char_of (192 + u div 64), char_of (128 + u mod 64)]
      else if 55296 \<le> u \<and> u \<le> 57343 then [CHR 0xEF, CHR 0xBF, CHR 0xBD]
      else if u < 65536 then [char_of (224 + u div 4096), char_of (128 + u div 64 mod 64), char_of (128 + u mod 64)]
      else [char_of (240 + u div 262144), char_of (128 + u div 4096 mod 64),
            char_of (128 + u div 64 mod 64), char_of (128 + u mod 64)])"

definition surrogate_pair :: "nat \<Rightarrow> nat \<Rightarrow> nat option" where
  [go_eval]: "surrogate_pair u v =
     (if 55296 \<le> u \<and> u < 56320 \<and> 56320 \<le> v \<and> v < 57344
      then Some ((u - 55296) * 1024 + (v - 56320) + 65536) else None)"

text \<open>The second escape of a surrogate pair, if one stands here.\<close>

definition low_half :: "string \<Rightarrow> nat option" where
  [go_eval]: "low_half s =
     (case s of
        q # w # a # b # c # d # r \<Rightarrow> if q = CHR 0x5C \<and> w = CHR ''u'' then hex4 a b c d else None
      | _ \<Rightarrow> None)"

text \<open>The bytes after the opening quote, up to the closing one; and what follows it.\<close>

fun read_chars :: "string \<Rightarrow> (string \<times> string) option" where
  "read_chars [] = None"
| "read_chars (c # s) =
     (if c = CHR 0x22 then Some ([], s)
      else if c = CHR 0x5C then
        (case s of
           [] \<Rightarrow> None
         | e # r \<Rightarrow>
             if e = CHR ''u'' then
               (case r of
                  h1 # h2 # h3 # h4 # r' \<Rightarrow>
                    (case hex4 h1 h2 h3 h4 of
                       None \<Rightarrow> None
                     | Some u \<Rightarrow>
                         (case Option.bind (low_half r') (surrogate_pair u) of
                            Some v \<Rightarrow> map_option (apfst ((@) (utf8_encode v))) (read_chars (drop 6 r'))
                          | None \<Rightarrow> map_option (apfst ((@) (utf8_encode u))) (read_chars r')))
                | _ \<Rightarrow> None)
             else
               (case map_of [(CHR 0x22, CHR 0x22), (CHR 0x5C, CHR 0x5C), (CHR ''/'', CHR ''/''),
                     (CHR ''b'', CHR 0x08), (CHR ''f'', CHR 0x0C), (CHR ''n'', CHR 0x0A),
                     (CHR ''r'', CHR 0x0D), (CHR ''t'', CHR 0x09)] e of
                  Some d \<Rightarrow> map_option (apfst ((#) d)) (read_chars r)
                | None \<Rightarrow> None))
      else if (of_char c :: nat) < 32 then None
      else map_option (apfst ((#) c)) (read_chars s))"

definition read_string :: "string \<Rightarrow> (string \<times> string) option" where
  [go_eval]: "read_string s = (case s of [] \<Rightarrow> None | c # r \<Rightarrow> if c = CHR 0x22 then read_chars r else None)"

lemma hex_val_hex_digit: "d < 16 \<Longrightarrow> hex_val (hex_digit d) = Some d"
  by (auto simp: hex_val_def hex_digit_def Let_def of_char_of)

lemma read_chars_escape: "read_chars (json_escape c @ r) = map_option (apfst ((#) c)) (read_chars r)"
proof -
  have u: "read_chars ((CHR 0x5C # ''u00'' @ hex_byte c) @ r) = map_option (apfst ((#) c)) (read_chars r)"
    if "(of_char c :: nat) < 128"
  proof -
    have h: "hex4 CHR ''0'' CHR ''0'' (hex_digit (of_char c div 16)) (hex_digit (of_char c mod 16)) = Some (of_char c)"
    proof -
      have "hex_val (hex_digit (of_char c div 16)) = Some (of_char c div 16)"
          "hex_val (hex_digit (of_char c mod 16)) = Some (of_char c mod 16)"
        using of_char_less_256 [of c] by (intro hex_val_hex_digit; linarith)+
      then show ?thesis by (simp add: hex4_def) (simp add: hex_val_def)
    qed
    have "surrogate_pair (of_char c) v = None" for v using that by (simp add: surrogate_pair_def)
    then have n: "Option.bind x (surrogate_pair (of_char c)) = None" for x by (cases x) simp_all
    have e: "utf8_encode (of_char c) = [c]" using that by (simp add: utf8_encode_def)
    have "(@) [c] = (#) c" by (rule ext) simp
    with e show ?thesis by (simp add: hex_byte_def Let_def h n)
  qed
  show ?thesis
  proof (cases "(of_char c :: nat) < 32 \<or> c = CHR ''<'' \<or> c = CHR ''>'' \<or> c = CHR ''&''")
    case True
    then have "(of_char c :: nat) < 128" by auto
    from u [OF this] True show ?thesis by (simp add: json_escape_def)
  next
    case False
    then show ?thesis by (simp add: json_escape_def)
  qed
qed

lemma read_string_quote [simp]: "read_string (json_quote s @ r) = Some (s, r)"
proof -
  have "read_chars (concat (map json_escape s) @ CHR 0x22 # r) = Some (s, r)"
    by (induction s) (simp_all add: read_chars_escape)
  then show ?thesis by (simp add: read_string_def json_quote_def)
qed

section \<open>Compacting what was marshalled changes nothing\<close>

text \<open>Values built without raw messages.\<close>

primrec json_plain :: "json \<Rightarrow> bool" where
  "json_plain JNull = True"
| "json_plain (JBool b) = True"
| "json_plain (JInt i) = True"
| "json_plain (JStr s) = True"
| "json_plain (JArr xs) = list_all (\<lambda>b. b) (map json_plain xs)"
| "json_plain (JObj kvs) = list_all snd (map (map_prod id json_plain) kvs)"
| "json_plain (JRaw s) = False"
| "json_plain (JUnsupported e) = True"

definition compact_fixed :: "string \<Rightarrow> bool" where
  "compact_fixed w \<longleftrightarrow> (\<forall>r. json_compact False (w @ r) = w @ json_compact False r)"

definition inert :: "char \<Rightarrow> bool" where
  [go_eval]: "inert c \<longleftrightarrow> c \<notin> {CHR '' '', CHR 0x09, CHR 0x0A, CHR 0x0D, CHR 0x22, CHR ''<'', CHR ''>'', CHR ''&''}"

lemma compact_fixed_inert: "list_all inert w \<Longrightarrow> compact_fixed w"
  by (induction w) (auto simp: compact_fixed_def inert_def html_escape_def)

lemma compact_fixed_append: "compact_fixed v \<Longrightarrow> compact_fixed w \<Longrightarrow> compact_fixed (v @ w)"
  by (simp add: compact_fixed_def)

lemma inert_digit: "is_digit c \<Longrightarrow> inert c"
proof -
  assume d: "is_digit c"
  have "\<not> is_digit x" if "x \<in> {CHR '' '', CHR 0x09, CHR 0x0A, CHR 0x0D, CHR 0x22, CHR ''<'', CHR ''>'', CHR ''&''}" for x
    using that by (auto simp: is_digit_def)
  with d show ?thesis by (auto simp: inert_def)
qed

lemma compact_fixed_itoa: "compact_fixed (itoa i)"
proof (rule compact_fixed_inert)
  have "inert CHR ''-''" by code_simp
  then show "list_all inert (itoa i)"
    using nat_digits_digits by (auto simp: itoa_def list_all_iff intro: inert_digit)
qed

lemma hex_digit_plain:
  assumes "d < 16"
  shows "hex_digit d \<noteq> CHR 0x5C" "hex_digit d \<noteq> CHR 0x22" "html_escape (hex_digit d) = [hex_digit d]"
proof -
  have v: "hex_val (hex_digit d) = Some d" by (rule hex_val_hex_digit [OF assms])
  have "hex_val x = None" if "x \<in> {CHR 0x5C, CHR 0x22, CHR ''<'', CHR ''>'', CHR ''&''}" for x
    using that by (auto simp: hex_val_def)
  with v have "hex_digit d \<notin> {CHR 0x5C, CHR 0x22, CHR ''<'', CHR ''>'', CHR ''&''}" by force
  then show "hex_digit d \<noteq> CHR 0x5C" "hex_digit d \<noteq> CHR 0x22" "html_escape (hex_digit d) = [hex_digit d]"
    by (simp_all add: html_escape_def)
qed

lemma compact_hex: "d < 16 \<Longrightarrow> json_compact True (hex_digit d # r) = hex_digit d # json_compact True r"
  using hex_digit_plain [of d] by simp

lemma compact_escape: "json_compact True (json_escape c @ r) = json_escape c @ json_compact True r"
proof -
  have u: "json_compact True (CHR 0x5C # CHR ''u'' # CHR ''0'' # CHR ''0'' # hex_byte c @ r) =
      CHR 0x5C # CHR ''u'' # CHR ''0'' # CHR ''0'' # hex_byte c @ json_compact True r"
  proof -
    have "(of_char c :: nat) div 16 < 16" "(of_char c :: nat) mod 16 < 16" using of_char_less_256 [of c] by linarith+
    then have "json_compact True (hex_byte c @ r) = hex_byte c @ json_compact True r"
      by (simp only: hex_byte_def Let_def append_Cons append_Nil compact_hex)
    then show ?thesis by (simp add: html_escape_def)
  qed
  show ?thesis using u by (auto simp: json_escape_def html_escape_def)
qed

lemma compact_fixed_quote: "compact_fixed (json_quote s)"
proof -
  have "json_compact True (concat (map json_escape s) @ CHR 0x22 # r) =
      concat (map json_escape s) @ CHR 0x22 # json_compact False r" for r
    by (induction s) (simp_all add: compact_escape)
  then show ?thesis by (simp add: compact_fixed_def json_quote_def)
qed

lemma compact_fixed_char: "inert c \<Longrightarrow> compact_fixed [c]"
  by (rule compact_fixed_inert) simp

lemma compact_fixed_join: "(\<forall>w \<in> set ws. compact_fixed w) \<Longrightarrow> compact_fixed (join '','' ws)"
proof (induction "'',''" ws rule: join.induct)
  case 1
  then show ?case by (simp add: compact_fixed_def)
next
  case (3 w v ws)
  moreover have "compact_fixed '',''" by (rule compact_fixed_char) code_simp
  ultimately show ?case by (auto intro!: compact_fixed_append simp del: append_Cons append_Nil)
qed simp

lemma all_ok_set: "all_ok rs = Inr ws \<Longrightarrow> v \<in> set ws \<Longrightarrow> Inr v \<in> set rs"
  by (induction rs arbitrary: ws rule: all_ok.induct) (auto split: sum.splits)

lemma compact_fixed_brackets: "inert c \<Longrightarrow> inert d \<Longrightarrow> compact_fixed w \<Longrightarrow> compact_fixed (c # w @ [d])"
  using compact_fixed_append [of "[c]" "w @ [d]"] compact_fixed_append [of w "[d]"] compact_fixed_char by simp

lemma marshal_compact_fixed: "json_plain j \<Longrightarrow> json_marshal j = Inr w \<Longrightarrow> compact_fixed w"
proof (induction j arbitrary: w)
  case (JArr xs)
  then obtain ws where ws: "all_ok (map json_marshal xs) = Inr ws" "w = ''['' @ join '','' ws @ '']''"
    by (auto split: sum.splits)
  have "compact_fixed v" if "v \<in> set ws" for v
  proof -
    from all_ok_set [OF ws(1) that] obtain x where "x \<in> set xs" "json_marshal x = Inr v" by force
    with JArr show ?thesis by (auto simp: list_all_iff)
  qed
  then have "compact_fixed (join '','' ws)" by (simp add: compact_fixed_join)
  moreover have "inert CHR ''[''" "inert CHR '']''" by code_simp+
  ultimately show ?case using ws(2) by (simp add: compact_fixed_brackets)
next
  case (JObj kvs)
  then obtain ws where ws: "all_ok (map json_member (map (map_prod id json_marshal) kvs)) = Inr ws"
      "w = ''{'' @ join '','' ws @ ''}''"
    by (auto split: sum.splits)
  have "compact_fixed v" if "v \<in> set ws" for v
  proof -
    from all_ok_set [OF ws(1) that] obtain k x
      where kx: "(k, x) \<in> set kvs" "json_member (k, json_marshal x) = Inr v" by force
    then obtain t where t: "json_marshal x = Inr t" "v = json_quote k @ '':'' @ t"
      by (auto simp: json_member_def split: sum.splits)
    from kx(1) JObj.prems(1) have "json_plain x" by (auto simp: list_all_iff)
    with JObj.IH [of "(k, x)" x] kx(1) t have "compact_fixed t" by (auto simp: snds.simps)
    moreover have "compact_fixed '':''" by (rule compact_fixed_char) code_simp
    ultimately show ?thesis
      unfolding t(2) by (intro compact_fixed_append compact_fixed_quote)
  qed
  then have "compact_fixed (join '','' ws)" by (simp add: compact_fixed_join)
  moreover have "inert CHR ''{''" "inert CHR ''}''" by code_simp+
  ultimately show ?case using ws(2) by (simp add: compact_fixed_brackets)
next
  case JNull
  then show ?case by (auto intro!: compact_fixed_inert simp: inert_def)
next
  case (JBool b)
  then show ?case by (auto intro!: compact_fixed_inert simp: inert_def split: if_splits)
qed (auto intro: compact_fixed_itoa compact_fixed_quote)

lemma compact_marshal: "json_plain j \<Longrightarrow> json_marshal j = Inr w \<Longrightarrow> json_compact False w = w"
  using marshal_compact_fixed [of j w] by (auto simp: compact_fixed_def dest: spec [of _ "[]"])

lemma json_marshal_nonempty: "json_marshal j = Inr w \<Longrightarrow> json_plain j \<Longrightarrow> w \<noteq> []"
  by (cases j) (auto simp: itoa_def json_quote_def split: sum.splits if_splits)

end
