(* ===== verification/Policy.thy ===== *)
theory Policy imports Go_Url Go_Json begin

text \<open>
  \<open>api-server/policy.go\<close>: the egress policy. A session asks for a \<^typ>\<open>string\<close> rule set,
  \<open>Compose\<close> intersects it with the attested host ceiling, and \<open>Decide\<close> (a full URL) and
  \<open>AdmitHost\<close> (a CONNECT, host only) evaluate it, deny before allow, default deny. The hash
  function (SHA-256 in hexadecimal) is an argument: nothing here depends on which one it is.
  The locale is the shape the two evaluators share; its lemmas are proved once and used for both.
\<close>

section \<open>Data\<close>

record policy =
  pol_allow :: "string slice"
  pol_deny :: "string slice"
  pol_tunnel_only :: "string slice"
  pol_max_response_bytes :: int

record effective_policy =
  ep_ceiling :: "string slice"
  ep_requested :: policy
  ep_effective :: policy
  ep_rejected :: "string slice"
  ep_ceiling_sha :: string
  ep_req_sha :: string
  ep_eff_sha :: string

definition slice_json :: "string slice \<Rightarrow> json" where
  [go_eval]: "slice_json s = (case s of None \<Rightarrow> JNull | Some xs \<Rightarrow> JArr (map JStr xs))"

definition policy_json :: "policy \<Rightarrow> json" where
  [go_eval]: "policy_json p = JObj
     [(''allow'', slice_json (pol_allow p)),
      (''deny'', slice_json (pol_deny p)),
      (''tunnel_only'', slice_json (pol_tunnel_only p)),
      (''max_response_bytes'', JInt (pol_max_response_bytes p))]"

definition effective_policy_json :: "effective_policy \<Rightarrow> json" where
  [go_eval]: "effective_policy_json e = JObj
     [(''ceiling'', slice_json (ep_ceiling e)),
      (''requested'', policy_json (ep_requested e)),
      (''effective'', policy_json (ep_effective e)),
      (''rejected'', slice_json (ep_rejected e)),
      (''ceiling_sha256'', JStr (ep_ceiling_sha e)),
      (''requested_sha256'', JStr (ep_req_sha e)),
      (''effective_sha256'', JStr (ep_eff_sha e))]"

definition hash_json :: "(string \<Rightarrow> string) \<Rightarrow> json \<Rightarrow> string + string" where
  [go_eval]: "hash_json H v =
     (case json_marshal v of Inl e \<Rightarrow> Inl (''hashing policy: '' @ e) | Inr b \<Rightarrow> Inr (H b))"

section \<open>The ceiling and the rules\<close>

text \<open>\<open>raw\<close> is the value of the environment variable \<open>EGRESS_CEILING\<close>, empty when unset.\<close>

definition load_ceiling :: "string \<Rightarrow> string slice" where
  [go_eval]: "load_ceiling raw =
     fold (\<lambda>h out. let h' = to_lower (trim_space h) in if h' \<noteq> [] then snoc_slice out h' else out)
       (split_byte CHR '','' raw) None"

definition rule_host :: "string \<Rightarrow> string option" where
  [go_eval]: "rule_host rule0 =
     (let rule = trim_space rule0 in
      if rule = [] then None
      else if rule = ''**'' \<or> rule = ''*'' then Some rule
      else if \<not> str_contains rule ''://'' then
        (case str_index rule ''/'' of
           Some i \<Rightarrow> Some (to_lower (take i rule))
         | None \<Rightarrow> Some (to_lower rule))
      else
        (case url_parse rule of
           None \<Rightarrow> None
         | Some u \<Rightarrow> if url_host u = [] then None else Some (to_lower (url_hostname u))))"

definition within_ceiling :: "string slice \<Rightarrow> string \<Rightarrow> bool" where
  [go_eval]: "within_ceiling ceiling host =
     (if host = ''**'' \<or> host = ''*'' \<or> prefix ''*.'' host then False
      else list_ex (\<lambda>c. c = host) (elems ceiling))"

definition split_rule :: "string \<Rightarrow> string \<times> string \<times> string" where
  [go_eval]: "split_rule rule0 =
     (let rule = trim_space rule0;
          (scheme, rest) =
            (case str_index rule ''://'' of
               Some i \<Rightarrow> (to_lower (take i rule), drop (i + 3) rule)
             | None \<Rightarrow> ([], rule));
          (host, path) =
            (case str_index rest ''/'' of
               Some i \<Rightarrow> (take i rest, drop i rest)
             | None \<Rightarrow> (rest, []))
      in (scheme, to_lower host, path))"

definition host_matches :: "string \<Rightarrow> string \<Rightarrow> bool" where
  [go_eval]: "host_matches rh host =
     (if rh = [] \<or> rh = ''*'' \<or> rh = ''**'' then True
      else if prefix ''*.'' rh then suffix (drop 1 rh) host
      else rh = host)"

text \<open>
  The two loops of \<open>globMatch\<close> over the split points of the subject: the first tries every
  suffix, the second stops once it would have to consume a slash.
\<close>

fun any_suffix :: "(string \<Rightarrow> bool) \<Rightarrow> string \<Rightarrow> bool" where
  "any_suffix f s = (f s \<or> (case s of [] \<Rightarrow> False | c # r \<Rightarrow> any_suffix f r))"

fun segment_suffix :: "(string \<Rightarrow> bool) \<Rightarrow> string \<Rightarrow> bool" where
  "segment_suffix f s =
     (f s \<or> (case s of [] \<Rightarrow> False | c # r \<Rightarrow> c \<noteq> CHR ''/'' \<and> segment_suffix f r))"

declare any_suffix.simps [simp del] segment_suffix.simps [simp del]

fun glob_match :: "string \<Rightarrow> string \<Rightarrow> bool" where
  "glob_match [] s \<longleftrightarrow> s = []"
| "glob_match (p # ps) s \<longleftrightarrow>
     (if prefix ''**'' (p # ps) then any_suffix (glob_match (tl ps)) s
      else if p = CHR ''*'' then segment_suffix (glob_match ps) s
      else s \<noteq> [] \<and> p = hd s \<and> glob_match ps (tl s))"

definition match_rule :: "string \<Rightarrow> string \<Rightarrow> string \<Rightarrow> string \<Rightarrow> bool" where
  [go_eval]: "match_rule rule scheme host path =
     (let (rs, rh, rp) = split_rule rule in
      if rs \<noteq> [] \<and> rs \<noteq> to_lower scheme then False
      else if \<not> host_matches rh host then False
      else if rp = [] \<or> rp = ''/**'' then True
      else glob_match rp (if path = [] then ''/'' else path))"

definition rule_host_matches :: "string \<Rightarrow> string \<Rightarrow> string \<Rightarrow> bool" where
  [go_eval]: "rule_host_matches rule scheme host =
     (let (rs, rh, _) = split_rule rule in
      if rs \<noteq> [] \<and> rs \<noteq> to_lower scheme then False else host_matches rh host)"

definition host_wide_rule :: "string \<Rightarrow> string \<Rightarrow> string \<Rightarrow> bool" where
  [go_eval]: "host_wide_rule rule scheme host =
     (let (rs, rh, rp) = split_rule rule in
      if rs \<noteq> [] \<and> rs \<noteq> to_lower scheme then False
      else if \<not> host_matches rh host then False
      else rp = [] \<or> rp = ''/**'')"

section \<open>Compose and the two evaluators\<close>

fun compose_rules :: "string slice \<Rightarrow> string list \<Rightarrow> string slice \<times> string slice \<Rightarrow> string slice \<times> string slice" where
  "compose_rules ceiling [] (allow, rejected) = (allow, rejected)"
| "compose_rules ceiling (rule # rules) (allow, rejected) =
     (case rule_host rule of
        None \<Rightarrow> compose_rules ceiling rules (allow, snoc_slice rejected rule)
      | Some host \<Rightarrow>
          if \<not> within_ceiling ceiling host
          then compose_rules ceiling rules (allow, snoc_slice rejected rule)
          else compose_rules ceiling rules (snoc_slice allow rule, rejected))"

definition compose :: "(string \<Rightarrow> string) \<Rightarrow> string slice \<Rightarrow> policy option \<Rightarrow> string + effective_policy" where
  [go_eval]: "compose H ceiling requested0 =
     (let requested =
            (case requested0 of
               None \<Rightarrow> \<lparr>pol_allow = None, pol_deny = Some [''**''], pol_tunnel_only = None,
                        pol_max_response_bytes = 0\<rparr>
             | Some p \<Rightarrow> p);
          (allow, rejected) = compose_rules ceiling (elems (pol_allow requested)) (None, None);
          eff = \<lparr>pol_allow = allow, pol_deny = copy_slice (pol_deny requested),
                 pol_tunnel_only = copy_slice (pol_tunnel_only requested),
                 pol_max_response_bytes = pol_max_response_bytes requested\<rparr>
      in (case hash_json H (slice_json ceiling) of
            Inl e \<Rightarrow> Inl e
          | Inr ceil_sha \<Rightarrow>
              (case hash_json H (policy_json requested) of
                 Inl e \<Rightarrow> Inl e
               | Inr req_sha \<Rightarrow>
                   (case hash_json H (policy_json eff) of
                      Inl e \<Rightarrow> Inl e
                    | Inr eff_sha \<Rightarrow>
                        Inr \<lparr>ep_ceiling = ceiling, ep_requested = requested, ep_effective = eff,
                             ep_rejected = rejected, ep_ceiling_sha = ceil_sha,
                             ep_req_sha = req_sha, ep_eff_sha = eff_sha\<rparr>))))"

definition is_tunnel_only :: "effective_policy \<Rightarrow> string \<Rightarrow> bool" where
  [go_eval]: "is_tunnel_only e host =
     list_ex (\<lambda>h. host_matches (to_lower h) host) (elems (pol_tunnel_only (ep_effective e)))"

text \<open>The part of \<open>Decide\<close> after the URL is parsed, and the whole of it.\<close>

definition decide_url :: "effective_policy \<Rightarrow> url \<Rightarrow> bool \<times> bool \<times> string" where
  [go_eval]: "decide_url e u =
     (let host = to_lower (url_hostname u) in
      case find (\<lambda>r. match_rule r (url_scheme u) host (url_path u)) (elems (pol_deny (ep_effective e))) of
        Some r \<Rightarrow> (False, False, ''deny:'' @ r)
      | None \<Rightarrow>
          (case find (\<lambda>r. match_rule r (url_scheme u) host (url_path u)) (elems (pol_allow (ep_effective e))) of
             Some r \<Rightarrow> (True, is_tunnel_only e host, ''allow:'' @ r)
           | None \<Rightarrow> (False, False, ''default-deny'')))"

definition decide :: "effective_policy \<Rightarrow> string \<Rightarrow> bool \<times> bool \<times> string" where
  [go_eval]: "decide e rawurl =
     (case url_parse rawurl of
        None \<Rightarrow> (False, False, ''invalid-url'')
      | Some u \<Rightarrow> decide_url e u)"

definition admit_host :: "effective_policy \<Rightarrow> string \<Rightarrow> bool \<times> bool \<times> string" where
  [go_eval]: "admit_host e host0 =
     (let host = to_lower host0 in
      case find (\<lambda>r. host_wide_rule r ''https'' host) (elems (pol_deny (ep_effective e))) of
        Some r \<Rightarrow> (False, False, ''deny:'' @ r)
      | None \<Rightarrow>
          (case find (\<lambda>r. rule_host_matches r ''https'' host) (elems (pol_allow (ep_effective e))) of
             Some r \<Rightarrow> (True, is_tunnel_only e host, ''allow:'' @ r)
           | None \<Rightarrow> (False, False, ''default-deny'')))"

section \<open>Globs\<close>

text \<open>
  What a path pattern means, read left to right: two stars stand for any run of bytes, one star
  (not followed by another) for a run without a slash, any other byte for itself.
\<close>

inductive glob :: "string \<Rightarrow> string \<Rightarrow> bool" where
  glob_Nil: "glob [] []"
| glob_deep: "glob ps t \<Longrightarrow> glob (''**'' @ ps) (u @ t)"
| glob_star: "\<not> prefix ''*'' ps \<Longrightarrow> CHR ''/'' \<notin> set u \<Longrightarrow> glob ps t \<Longrightarrow> glob (CHR ''*'' # ps) (u @ t)"
| glob_char: "c \<noteq> CHR ''*'' \<Longrightarrow> glob ps t \<Longrightarrow> glob (c # ps) (c # t)"

inductive_cases glob_NilE [elim!]: "glob [] s"
inductive_cases glob_ConsE: "glob (p # ps) s"

lemma any_suffix_iff: "any_suffix f s \<longleftrightarrow> (\<exists>u t. s = u @ t \<and> f t)"
proof (induction s)
  case Nil
  then show ?case by (simp add: any_suffix.simps [of f "[]"])
next
  case (Cons c s)
  then show ?case by (auto simp: any_suffix.simps [of f "c # s"] Cons_eq_append_conv)
qed

lemma segment_suffix_iff: "segment_suffix f s \<longleftrightarrow> (\<exists>u t. s = u @ t \<and> CHR ''/'' \<notin> set u \<and> f t)"
proof (induction s)
  case Nil
  then show ?case by (simp add: segment_suffix.simps [of f "[]"])
next
  case (Cons c s)
  have "(\<exists>u t. c # s = u @ t \<and> CHR ''/'' \<notin> set u \<and> f t) \<longleftrightarrow>
      f (c # s) \<or> c \<noteq> CHR ''/'' \<and> (\<exists>u t. s = u @ t \<and> CHR ''/'' \<notin> set u \<and> f t)" (is "?l \<longleftrightarrow> ?r")
  proof
    assume ?l
    then obtain u t where ut: "c # s = u @ t" "CHR ''/'' \<notin> set u" "f t" by blast
    then show ?r by (cases u) auto
  next
    show "?r \<Longrightarrow> ?l"
    proof (elim disjE conjE exE)
      assume "f (c # s)"
      then show ?l by (intro exI [of _ "[]"] exI [of _ "c # s"]) simp
    next
      fix u t
      assume "c \<noteq> CHR ''/''" "s = u @ t" "CHR ''/'' \<notin> set u" "f t"
      then show ?l by (intro exI [of _ "c # u"] exI [of _ t]) simp
    qed
  qed
  with Cons show ?case by (simp add: segment_suffix.simps [of f "c # s"])
qed

lemma glob_match_iff_glob: "glob_match p s \<longleftrightarrow> glob p s"
proof
  show "glob_match p s \<Longrightarrow> glob p s"
  proof (induction p s rule: glob_match.induct)
    case (1 s)
    then show ?case by (simp add: glob_Nil)
  next
    case (2 p ps s)
    show ?case
    proof (cases "prefix ''**'' (p # ps)")
      case True
      then obtain qs where p: "p = CHR ''*''" "ps = CHR ''*'' # qs" by (auto simp: prefix_def)
      with 2 True obtain u t where "s = u @ t" "glob qs t" by (auto simp: any_suffix_iff)
      with p show ?thesis using glob_deep [of qs t u] by simp
    next
      case False
      show ?thesis
      proof (cases "p = CHR ''*''")
        case True
        with 2 False obtain u t where "s = u @ t" "CHR ''/'' \<notin> set u" "glob ps t"
          by (auto simp: segment_suffix_iff)
        moreover from True False have "\<not> prefix ''*'' ps" by (auto simp: prefix_def)
        ultimately show ?thesis using True glob_star by blast
      next
        case F2: False
        with 2 False obtain t where "s = p # t" "glob ps t" by (cases s) auto
        with F2 show ?thesis by (simp add: glob_char)
      qed
    qed
  qed
next
  show "glob p s \<Longrightarrow> glob_match p s"
  proof (induction rule: glob.induct)
    case (glob_deep ps t u)
    then show ?case by (auto simp: any_suffix_iff)
  next
    case (glob_star ps u t)
    then show ?case by (auto simp: segment_suffix_iff prefix_def)
  qed (auto simp: prefix_def)
qed

section \<open>Compose splits the request at the ceiling\<close>

definition admissible :: "string slice \<Rightarrow> string \<Rightarrow> bool" where
  [go_eval]: "admissible ceiling rule \<longleftrightarrow>
     (case rule_host rule of None \<Rightarrow> False | Some h \<Rightarrow> within_ceiling ceiling h)"

lemma compose_rules_filter:
  "compose_rules ceiling rules (a, r) = (a', r') \<Longrightarrow>
     elems a' = elems a @ filter (admissible ceiling) rules \<and>
     elems r' = elems r @ filter (\<lambda>x. \<not> admissible ceiling x) rules"
proof (induction ceiling rules "(a, r)" arbitrary: a r rule: compose_rules.induct)
  case (2 ceiling rule rules allow rejected)
  then show ?case by (auto simp: admissible_def split: option.splits if_splits)
qed simp

lemma json_ok_slice [simp]: "json_ok (slice_json s)"
  by (auto simp: slice_json_def list_all_iff split: option.splits)

lemma json_ok_policy [simp]: "json_ok (policy_json p)"
  by (simp add: policy_json_def)

lemma hash_json_ok: "json_ok v \<Longrightarrow> \<exists>h. hash_json H v = Inr h"
  by (auto simp: hash_json_def json_marshal_ok)

lemma compose_total:
  obtains e where "compose H ceiling req = Inr e"
    "ep_ceiling e = ceiling"
    "req = Some p \<Longrightarrow> ep_requested e = p"
    "elems (pol_allow (ep_effective e)) = filter (admissible ceiling) (elems (pol_allow (ep_requested e)))"
    "elems (ep_rejected e) = filter (\<lambda>r. \<not> admissible ceiling r) (elems (pol_allow (ep_requested e)))"
    "elems (pol_deny (ep_effective e)) = elems (pol_deny (ep_requested e))"
    "elems (pol_tunnel_only (ep_effective e)) = elems (pol_tunnel_only (ep_requested e))"
    "pol_max_response_bytes (ep_effective e) = pol_max_response_bytes (ep_requested e)"
proof -
  define q where "q = (case req of
       None \<Rightarrow> \<lparr>pol_allow = None, pol_deny = Some [''**''], pol_tunnel_only = None, pol_max_response_bytes = 0\<rparr>
     | Some p \<Rightarrow> p)"
  obtain a r where ar: "compose_rules ceiling (elems (pol_allow q)) (None, None) = (a, r)" by fastforce
  define eff where "eff = \<lparr>pol_allow = a, pol_deny = copy_slice (pol_deny q),
                 pol_tunnel_only = copy_slice (pol_tunnel_only q),
                 pol_max_response_bytes = pol_max_response_bytes q\<rparr>"
  obtain h1 h2 h3 where h: "hash_json H (slice_json ceiling) = Inr h1"
      "hash_json H (policy_json q) = Inr h2" "hash_json H (policy_json eff) = Inr h3"
    using hash_json_ok json_ok_slice json_ok_policy by metis
  have c: "compose H ceiling req = Inr \<lparr>ep_ceiling = ceiling, ep_requested = q, ep_effective = eff,
      ep_rejected = r, ep_ceiling_sha = h1, ep_req_sha = h2, ep_eff_sha = h3\<rparr>"
    by (simp add: compose_def Let_def q_def [symmetric] ar eff_def [symmetric] h)
  from compose_rules_filter [OF ar] show thesis
    by (intro that [OF c]) (auto simp: eff_def q_def)
qed

lemma compose_effective:
  assumes "compose H ceiling req = Inr e"
  shows "elems (pol_allow (ep_effective e)) = filter (admissible ceiling) (elems (pol_allow (ep_requested e)))"
    "elems (pol_deny (ep_effective e)) = elems (pol_deny (ep_requested e))"
  using compose_total [of H ceiling req] assms by (metis sum.inject(2))+

section \<open>Deny first, then allow, then refuse\<close>

text \<open>
  Both evaluators walk the deny rules, then the allow rules, and report the rule that decided.
  The interface: how a question matches a deny and an allow rule, the two rule lists and the
  tunnel flag; its law is the evaluation order.
\<close>

locale first_match =
  fixes deny_hit allow_hit :: "string \<Rightarrow> 'q \<Rightarrow> bool"
    and denies allows :: "string list"
    and tunnel :: "'q \<Rightarrow> bool"
    and verdict :: "'q \<Rightarrow> bool \<times> bool \<times> string"
  assumes verdict_eq: "verdict q =
     (case find (\<lambda>r. deny_hit r q) denies of
        Some r \<Rightarrow> (False, False, ''deny:'' @ r)
      | None \<Rightarrow>
          (case find (\<lambda>r. allow_hit r q) allows of
             Some r \<Rightarrow> (True, tunnel q, ''allow:'' @ r)
           | None \<Rightarrow> (False, False, ''default-deny'')))"
begin

lemma verdict_allowed:
  "fst (verdict q) \<longleftrightarrow> (\<forall>r \<in> set denies. \<not> deny_hit r q) \<and> (\<exists>r \<in> set allows. allow_hit r q)"
  by (auto simp: verdict_eq find_eq_None split: option.splits dest: find_SomeD)

lemma verdict_reason:
  obtains (Denied) r where "verdict q = (False, False, ''deny:'' @ r)" "r \<in> set denies" "deny_hit r q"
    | (Allowed) r where "verdict q = (True, tunnel q, ''allow:'' @ r)" "r \<in> set allows" "allow_hit r q"
        "\<forall>d \<in> set denies. \<not> deny_hit d q"
    | (Default) "verdict q = (False, False, ''default-deny'')" "\<forall>d \<in> set denies. \<not> deny_hit d q"
        "\<forall>a \<in> set allows. \<not> allow_hit a q"
proof (cases "find (\<lambda>r. deny_hit r q) denies")
  case (Some r)
  then show ?thesis using find_SomeD [OF Some] by (intro Denied [of r]) (auto simp: verdict_eq)
next
  case None
  then have nd: "\<forall>d \<in> set denies. \<not> deny_hit d q" by (simp add: find_eq_None)
  show ?thesis
  proof (cases "find (\<lambda>r. allow_hit r q) allows")
    case (Some r)
    then show ?thesis using find_SomeD [OF Some] None nd by (intro Allowed [of r]) (auto simp: verdict_eq)
  next
    case N2: None
    then show ?thesis using None nd by (intro Default) (simp_all add: verdict_eq, simp add: find_eq_None)
  qed
qed

end

interpretation dec: first_match
  "\<lambda>r u. match_rule r (url_scheme u) (to_lower (url_hostname u)) (url_path u)"
  "\<lambda>r u. match_rule r (url_scheme u) (to_lower (url_hostname u)) (url_path u)"
  "elems (pol_deny (ep_effective e))" "elems (pol_allow (ep_effective e))"
  "\<lambda>u. is_tunnel_only e (to_lower (url_hostname u))" "decide_url e"
  for e
  by unfold_locales (simp add: decide_url_def Let_def)

interpretation adm: first_match
  "\<lambda>r h. host_wide_rule r ''https'' (to_lower h)"
  "\<lambda>r h. rule_host_matches r ''https'' (to_lower h)"
  "elems (pol_deny (ep_effective e))" "elems (pol_allow (ep_effective e))"
  "\<lambda>h. is_tunnel_only e (to_lower h)" "admit_host e"
  for e
  by unfold_locales (simp add: admit_host_def Let_def)

section \<open>An accepted rule reaches no host but its own\<close>

lemma takeWhile_nested:
  assumes "CHR ''?'' \<notin> set (takeWhile (\<lambda>x. x \<noteq> c) X)" and "CHR ''#'' \<notin> set (takeWhile (\<lambda>x. x \<noteq> c) X)"
  shows "takeWhile (\<lambda>x. x \<noteq> c) (takeWhile (\<lambda>x. x \<noteq> CHR ''?'') (takeWhile (\<lambda>x. x \<noteq> CHR ''#'') X)) =
    takeWhile (\<lambda>x. x \<noteq> c) X"
  using assms by (induction X) (auto split: if_splits)

lemma takeWhile_nested_prefix:
  "prefix (takeWhile P (takeWhile Q (takeWhile R X))) (takeWhile P X)"
  by (induction X) auto

text \<open>A host as \<open>Decide\<close> and \<open>AdmitHost\<close> are asked about it: no delimiter of a URL in it.\<close>

definition request_host :: "string \<Rightarrow> bool" where
  [go_eval]: "request_host h \<longleftrightarrow> CHR ''@'' \<notin> set h \<and> CHR ''?'' \<notin> set h \<and> CHR ''#'' \<notin> set h \<and> count_list h CHR '':'' \<noteq> 1"

lemma host_matches_plain:
  assumes "host_matches (c # rh) h" and "c \<noteq> CHR ''*''"
  shows "h = c # rh"
  using assms by (auto simp: host_matches_def split: if_splits)

lemma host_matches_at:
  assumes "host_matches rh h" and "CHR ''@'' \<in> set rh"
  shows "CHR ''@'' \<in> set h"
proof (cases "prefix ''*.'' rh")
  case True
  with assms obtain t where "rh = CHR ''*'' # t" "suffix t h"
    by (cases rh) (auto simp: host_matches_def prefix_def split: if_splits)
  with assms(2) show ?thesis by (auto simp: suffix_def)
next
  case False
  with assms show ?thesis by (auto simp: host_matches_def split: if_splits)
qed

lemma dns_hd: "dns_name (to_lower s) \<Longrightarrow> \<exists>c t. s = c # t \<and> to_lower_char c \<noteq> CHR ''*''"
  using dns_char_delims(3) by (cases s) (auto simp: dns_name_def)

text \<open>The authority of a rule with a scheme, where the rule's host is an ordinary name.\<close>

lemma authority_host:
  assumes pa: "parse_authority (takeWhile (\<lambda>x. x \<noteq> CHR ''/'') (takeWhile (\<lambda>x. x \<noteq> CHR ''?'')
         (takeWhile (\<lambda>x. x \<noteq> CHR ''#'') X))) = Some (url_host u)" (is "parse_authority ?auth = _")
    and dns: "dns_name (to_lower (url_hostname u))"
    and hm: "host_matches (to_lower (takeWhile (\<lambda>x. x \<noteq> CHR ''/'') X)) h"
    and rq: "request_host h"
  shows "h = to_lower (url_hostname u)"
proof -
  let ?Y = "takeWhile (\<lambda>x. x \<noteq> CHR ''/'') X"
  have pre: "prefix ?auth ?Y" by (rule takeWhile_nested_prefix)
  have "CHR ''@'' \<notin> set ?auth"
  proof
    assume "CHR ''@'' \<in> set ?auth"
    with pre have "CHR ''@'' \<in> set (to_lower ?Y)"
      by (auto simp: caseless_in_to_lower caseless_delims prefix_def)
    with host_matches_at [OF hm] rq show False by (simp add: request_host_def)
  qed
  then have ph: "parse_host ?auth = Some (url_host u)" by (rule parse_authorityD [OF pa])
  note ph = parse_host_dns [OF ph dns]
  from dns_hd [OF dns] obtain c t where ct: "url_hostname u = c # t" "to_lower_char c \<noteq> CHR ''*''" by blast
  with ph(2) pre obtain t' where "?Y = c # t'"
    by (cases ?auth) (auto simp: prefix_def split: if_splits)
  with hm ct(2) have h: "h = to_lower ?Y" using host_matches_plain by simp
  with rq have "CHR ''?'' \<notin> set ?Y" "CHR ''#'' \<notin> set ?Y"
    by (auto simp: request_host_def caseless_in_to_lower caseless_delims)
  then have Y: "?auth = ?Y" by (rule takeWhile_nested)
  define port where "port = dropWhile (\<lambda>x. x \<noteq> CHR '':'') ?auth"
  have split: "?auth = url_hostname u @ port" using ph(2) by (metis port_def takeWhile_dropWhile_id)
  have "port = []"
  proof (rule ccontr)
    assume "port \<noteq> []"
    with ph(3) obtain ds where p: "port = CHR '':'' # ds" "list_all is_digit ds"
      by (cases port) (auto simp: port_def valid_optional_port_def)
    have "CHR '':'' \<notin> set ds" using p(2) is_digit_delims by (auto simp: list_all_iff)
    moreover have "CHR '':'' \<notin> set (url_hostname u)"
      by (rule dns_name_lower_notin [OF dns dns_char_delims(1) caseless_delims(1)])
    moreover have "h = to_lower (url_hostname u) @ to_lower_char CHR '':'' # to_lower ds"
      unfolding h Y [symmetric] split p(1) by simp
    moreover have "to_lower_char CHR '':'' = CHR '':''" by code_simp
    ultimately have "count_list h CHR '':'' = 1"
      by (simp add: count_list_append count_list_0_iff caseless_in_to_lower caseless_delims)
    with rq show False by (simp add: request_host_def)
  qed
  with h Y split show ?thesis by simp
qed

lemma rule_reaches_own_host:
  assumes rh: "rule_host rule = Some c" and dns: "dns_name c"
    and sp: "split_rule rule = (rs, sh, rp)"
    and sc: "rs = [] \<or> rs = to_lower scheme" "CHR ''/'' \<notin> set scheme"
    and hm: "host_matches sh h" and rq: "request_host h"
  shows "h = c"
proof -
  define r where "r = trim_space rule"
  show ?thesis
  proof (cases "str_index r ''://''")
    case None
    with sp have sh: "sh = to_lower (case str_index r ''/'' of Some i \<Rightarrow> take i r | None \<Rightarrow> r)"
      by (auto simp: split_rule_def Let_def r_def split: option.splits)
    with rh None dns have "c = sh"
      by (auto simp: rule_host_def Let_def r_def str_contains_def dns_name_def dns_char_delims split: if_splits option.splits)
    moreover from dns dns_char_delims(3) obtain x t where "c = x # t" "x \<noteq> CHR ''*''"
      by (cases c) (auto simp: dns_name_def)
    ultimately show ?thesis using hm host_matches_plain [of x t h] by auto
  next
    case (Some i)
    with rh dns dns_char_delims obtain u where u: "url_parse r = Some u" "url_host u \<noteq> []"
        and c: "c = to_lower (url_hostname u)"
      by (auto simp: rule_host_def Let_def r_def str_contains_def dns_name_def split: if_splits option.splits)
    have sh: "rs = to_lower (take i r)" "sh = to_lower (takeWhile (\<lambda>x. x \<noteq> CHR ''/'') (drop (i + 3) r))"
      using sp Some by (auto simp: split_rule_def Let_def r_def str_index_byte takeWhile_notin
          takeWhile_eq_take [symmetric] split: if_splits)
    from u show ?thesis
    proof (cases rule: url_parse_authority)
      case (Scheme sch X)
      from Some Scheme(1,2) have "i = length sch"
        by (rule str_index_after)
      with Scheme(1) sh have "sh = to_lower (takeWhile (\<lambda>x. x \<noteq> CHR ''/'') X)" by simp
      with authority_host [OF Scheme(3)] dns c hm rq show ?thesis by simp
    next
      case Relative
      with Some have "i \<noteq> 0" by (cases r) (auto simp: prefix_def split: if_splits)
      with Relative have "CHR ''/'' \<in> set (take i r)" by (cases r; cases i) (auto simp: prefix_def)
      then have "CHR ''/'' \<in> set rs" using sh by (simp add: caseless_in_to_lower caseless_delims)
      with sc show ?thesis by (auto simp: caseless_in_to_lower caseless_delims)
    qed
  qed
qed

lemma request_host_parsed: "url_parse raw = Some u \<Longrightarrow> request_host (to_lower (url_hostname u))"
proof -
  assume u: "url_parse raw = Some u"
  have "count_list (to_lower s) CHR '':'' = count_list s CHR '':''" for s
    by (induction s) (auto simp: to_lower_char_caseless caseless_delims)
  with url_hostname_shape [OF u] host_char_delims show ?thesis
    by (auto simp: request_host_def caseless_in_to_lower caseless_delims list_all_iff)
qed

lemma match_rule_host:
  assumes "match_rule rule scheme host path"
  obtains rs sh rp where "split_rule rule = (rs, sh, rp)" "rs = [] \<or> rs = to_lower scheme" "host_matches sh host"
  using assms by (cases "split_rule rule") (auto simp: match_rule_def split: if_splits)

lemma rule_host_matches_host:
  assumes "rule_host_matches rule scheme host"
  obtains rs sh rp where "split_rule rule = (rs, sh, rp)" "rs = [] \<or> rs = to_lower scheme" "host_matches sh host"
  using assms by (cases "split_rule rule") (auto simp: rule_host_matches_def split: if_splits)

lemma admissible_host:
  assumes "admissible ceiling r" and "\<forall>c \<in> set (elems ceiling). dns_name c"
  obtains c where "rule_host r = Some c" "c \<in> set (elems ceiling)" "dns_name c"
  using assms by (auto simp: admissible_def within_ceiling_def list_ex_iff split: option.splits if_splits)

lemma accepted_rule_host:
  assumes "compose H ceiling req = Inr e" and dns: "\<forall>c \<in> set (elems ceiling). dns_name c"
    and "r \<in> set (elems (pol_allow (ep_effective e)))"
    and "split_rule r = (rs, sh, rp)" "rs = [] \<or> rs = to_lower scheme" "CHR ''/'' \<notin> set scheme"
    and "host_matches sh h" "request_host h"
  shows "h \<in> set (elems ceiling)"
proof -
  from assms(1,3) have "admissible ceiling r" by (simp add: compose_effective(1))
  then obtain c where "rule_host r = Some c" "c \<in> set (elems ceiling)" "dns_name c"
    by (rule admissible_host [OF _ dns])
  with rule_reaches_own_host [OF _ _ assms(4-8)] show ?thesis by metis
qed

lemma host_wide_matches: "host_wide_rule r s h \<Longrightarrow> match_rule r s h p"
  by (auto simp: host_wide_rule_def match_rule_def split: prod.splits if_splits)

lemma match_rule_admits: "match_rule r s h p \<Longrightarrow> rule_host_matches r s h"
  by (auto simp: rule_host_matches_def match_rule_def split: prod.splits if_splits)

lemma deny_all_matches: "match_rule ''**'' s h p" "host_wide_rule ''**'' s h"
proof -
  have "split_rule ''**'' = ([], ''**'', [])" by code_simp
  then show "match_rule ''**'' s h p" "host_wide_rule ''**'' s h"
    by (simp_all add: match_rule_def host_wide_rule_def host_matches_def)
qed

lemma load_ceiling_elems:
  "elems (load_ceiling raw) = filter (\<lambda>h. h \<noteq> []) (map (\<lambda>h. to_lower (trim_space h)) (split_byte CHR '','' raw))"
proof -
  have "elems (fold (\<lambda>h out. let h' = to_lower (trim_space h) in if h' \<noteq> [] then snoc_slice out h' else out) ws out) =
      elems out @ filter (\<lambda>h. h \<noteq> []) (map (\<lambda>h. to_lower (trim_space h)) ws)" for ws out
    by (induction ws arbitrary: out) (auto simp: Let_def)
  then show ?thesis by (simp add: load_ceiling_def)
qed

lemma decide_ceiling:
  assumes "compose H ceiling req = Inr e" and "\<forall>c \<in> set (elems ceiling). dns_name c"
    and "fst (decide e raw)"
  shows "\<exists>u. url_parse raw = Some u \<and> to_lower (url_hostname u) \<in> set (elems ceiling)"
proof -
  from assms(3) obtain u where u: "url_parse raw = Some u" "fst (decide_url e u)"
    by (auto simp: decide_def split: option.splits)
  from u(2) obtain r where r: "r \<in> set (elems (pol_allow (ep_effective e)))"
      "match_rule r (url_scheme u) (to_lower (url_hostname u)) (url_path u)"
    by (auto simp: dec.verdict_allowed)
  from r(2) obtain rs sh rp where "split_rule r = (rs, sh, rp)" "rs = [] \<or> rs = to_lower (url_scheme u)"
      "host_matches sh (to_lower (url_hostname u))" by (rule match_rule_host)
  then have "to_lower (url_hostname u) \<in> set (elems ceiling)"
    using accepted_rule_host [OF assms(1,2) r(1)] url_parse_cases(2) [OF u(1)] request_host_parsed [OF u(1)] by blast
  with u(1) show ?thesis by blast
qed

lemma admit_host_ceiling:
  assumes "compose H ceiling req = Inr e" and "\<forall>c \<in> set (elems ceiling). dns_name c"
    and "request_host (to_lower h)" and "fst (admit_host e h)"
  shows "to_lower h \<in> set (elems ceiling)"
proof -
  from assms(4) obtain r where r: "r \<in> set (elems (pol_allow (ep_effective e)))"
      "rule_host_matches r ''https'' (to_lower h)"
    by (auto simp: adm.verdict_allowed)
  from r(2) obtain rs sh rp where "split_rule r = (rs, sh, rp)" "rs = [] \<or> rs = to_lower ''https''"
      "host_matches sh (to_lower h)" by (rule rule_host_matches_host)
  then show ?thesis using accepted_rule_host [OF assms(1,2) r(1), of rs sh rp "''https''"] assms(3) by auto
qed

section \<open>Properties\<close>

text \<open>
  C1. A session cannot widen egress past the attested ceiling. When the ceiling is a list of plain
  host names, every URL that \<open>Decide\<close> allows under a policy \<open>Compose\<close> returned, whatever the
  session asked for, parses to a host of that list: no wildcard, port, user info, bracket or escape
  in a rule makes it reach another host.
\<close>

theorem decide_within_ceiling:
  assumes "compose H ceiling req = Inr e" and "\<forall>c \<in> set (elems ceiling). dns_name c"
    and "fst (decide e raw)"
  shows "\<exists>u. url_parse raw = Some u \<and> to_lower (url_hostname u) \<in> set (elems ceiling)"
  using assms by (rule decide_ceiling)

definition sample_policy :: policy where
  [go_eval]: "sample_policy = \<lparr>pol_allow = Some [''https://api.example.com/v1/**'', ''*.example.com''],
     pol_deny = Some [''**/secret/**''], pol_tunnel_only = Some [''api.example.com''], pol_max_response_bytes = 0\<rparr>"

definition sample_effective :: effective_policy where
  [go_eval]: "sample_effective = \<lparr>ep_ceiling = Some [''api.example.com''], ep_requested = sample_policy,
     ep_effective = \<lparr>pol_allow = Some [''https://api.example.com/v1/**''], pol_deny = Some [''**/secret/**''],
       pol_tunnel_only = Some [''api.example.com''], pol_max_response_bytes = 0\<rparr>,
     ep_rejected = Some [''*.example.com''], ep_ceiling_sha = ''h'', ep_req_sha = ''h'', ep_eff_sha = ''h''\<rparr>"

lemma sample_compose:
  "compose (\<lambda>s. ''h'') (Some [''api.example.com'']) (Some sample_policy) = Inr sample_effective"
  by code_simp

lemma sample_dns: "\<forall>c \<in> set (elems (Some [''api.example.com''])). dns_name c"
  by code_simp

theorem decide_within_ceiling_witness:
  "\<exists>u. url_parse ''https://API.example.com:443/v1/x'' = Some u \<and>
     to_lower (url_hostname u) \<in> set (elems (Some [''api.example.com'']))"
  by (rule decide_within_ceiling [OF sample_compose sample_dns]) code_simp

text \<open>
  The same for CONNECT: every host \<open>AdmitHost\<close> admits, in any case of its letters, is a host of
  the ceiling, when the host is one a CONNECT carries (no \<open>@\<close>, \<open>?\<close>, \<open>#\<close>, not exactly one colon).
\<close>

theorem admit_host_within_ceiling:
  assumes "compose H ceiling req = Inr e" and "\<forall>c \<in> set (elems ceiling). dns_name c"
    and "request_host (to_lower h)" and "fst (admit_host e h)"
  shows "to_lower h \<in> set (elems ceiling)"
  using assms by (rule admit_host_ceiling)

theorem admit_host_within_ceiling_witness:
  "to_lower ''Api.Example.com'' \<in> set (elems (Some [''api.example.com'']))"
proof (rule admit_host_within_ceiling [OF sample_compose sample_dns])
  show "request_host (to_lower ''Api.Example.com'')" by code_simp
  show "fst (admit_host sample_effective ''Api.Example.com'')" by code_simp
qed

text \<open>
  \<open>Compose\<close> never fails, and it splits the requested allow rules at the ceiling: the accepted
  ones, in their order, are those whose host the ceiling lists, the others are reported in
  \<open>Rejected\<close>, in their order, and none is lost or duplicated. Deny rules, tunnel hosts and the
  response bound are taken over unchanged, so the intersection only ever narrows.
\<close>

theorem compose_splits_request:
  "\<exists>e. compose H ceiling (Some p) = Inr e \<and> ep_requested e = p \<and> ep_ceiling e = ceiling \<and>
     elems (pol_allow (ep_effective e)) = filter (admissible ceiling) (elems (pol_allow p)) \<and>
     elems (ep_rejected e) = filter (\<lambda>r. \<not> admissible ceiling r) (elems (pol_allow p)) \<and>
     elems (pol_deny (ep_effective e)) = elems (pol_deny p) \<and>
     elems (pol_tunnel_only (ep_effective e)) = elems (pol_tunnel_only p) \<and>
     pol_max_response_bytes (ep_effective e) = pol_max_response_bytes p"
  by (rule compose_total [of H ceiling "Some p" p]) metis

text \<open>
  Fail closed: with no session policy \<open>Compose\<close> still returns a policy, and under it no URL
  and no CONNECT host is allowed, whatever the ceiling.
\<close>

theorem no_policy_no_egress:
  "\<exists>e. compose H ceiling None = Inr e \<and> \<not> fst (decide e raw) \<and> admit_host e h = (False, False, ''deny:**'')"
proof -
  have "elems (pol_deny (ep_effective e)) = [''**'']" if "compose H ceiling None = Inr e" for e
    using that by (auto simp: compose_def Let_def split: sum.splits prod.splits)
  moreover obtain e where e: "compose H ceiling None = Inr e"
    by (rule compose_total [of H ceiling None])
  ultimately have d: "elems (pol_deny (ep_effective e)) = [''**'']" by blast
  then have "admit_host e h = (False, False, ''deny:**'')"
    by (simp add: admit_host_def deny_all_matches)
  moreover from d have "\<not> fst (decide e raw)"
    by (auto simp: decide_def decide_url_def deny_all_matches split: option.splits)
  ultimately show ?thesis using e by blast
qed

text \<open>
  The verdict of \<open>Decide\<close> and the rule it hands to the audit log agree: an unparsable URL is
  refused as such, a URL that a deny rule matches is refused naming a deny rule that matches, one
  that only an allow rule matches is allowed naming such a rule, and every other is refused by default.
\<close>

theorem decide_reason_is_cause:
  assumes "url_parse raw = Some u"
  shows "(\<exists>r \<in> set (elems (pol_deny (ep_effective e))).
            match_rule r (url_scheme u) (to_lower (url_hostname u)) (url_path u) \<and>
            decide e raw = (False, False, ''deny:'' @ r)) \<or>
         (\<exists>r \<in> set (elems (pol_allow (ep_effective e))).
            match_rule r (url_scheme u) (to_lower (url_hostname u)) (url_path u) \<and>
            (\<forall>d \<in> set (elems (pol_deny (ep_effective e))).
               \<not> match_rule d (url_scheme u) (to_lower (url_hostname u)) (url_path u)) \<and>
            decide e raw = (True, is_tunnel_only e (to_lower (url_hostname u)), ''allow:'' @ r)) \<or>
         decide e raw = (False, False, ''default-deny'') \<and>
         (\<forall>r \<in> set (elems (pol_deny (ep_effective e))) \<union> set (elems (pol_allow (ep_effective e))).
               \<not> match_rule r (url_scheme u) (to_lower (url_hostname u)) (url_path u))"
proof -
  from assms have "decide e raw = decide_url e u" by (simp add: decide_def)
  then show ?thesis by (cases rule: dec.verdict_reason [of e u]) auto
qed

theorem decide_reason_is_cause_witness:
  "decide sample_effective ''https://api.example.com/v1/x'' = (True, True, ''allow:https://api.example.com/v1/**'')"
proof -
  have u: "url_parse ''https://api.example.com/v1/x'' =
      Some \<lparr>url_scheme = ''https'', url_host = ''api.example.com'', url_path = ''/v1/x''\<rparr>" by code_simp
  have "fst (decide sample_effective ''https://api.example.com/v1/x'')" by code_simp
  moreover have "is_tunnel_only sample_effective (to_lower (url_hostname
      \<lparr>url_scheme = ''https'', url_host = ''api.example.com'', url_path = ''/v1/x''\<rparr>))" by code_simp
  ultimately show ?thesis using decide_reason_is_cause [OF u, of sample_effective]
    by (auto simp: sample_effective_def)
qed

text \<open>
  The two decision points agree: an https URL that \<open>Decide\<close> allows has a host that
  \<open>AdmitHost\<close> admits, with the same tunnel flag, so no allowed request dies at its CONNECT.
\<close>

theorem decide_allowed_host_admitted:
  assumes "url_parse raw = Some u" and "url_scheme u = ''https''" and "fst (decide e raw)"
  shows "\<exists>r. admit_host e (url_hostname u) = (True, fst (snd (decide e raw)), ''allow:'' @ r)"
proof -
  from assms have d: "decide e raw = decide_url e u" "fst (decide_url e u)" by (simp_all add: decide_def)
  then obtain "\<forall>r \<in> set (elems (pol_deny (ep_effective e))). \<not> host_wide_rule r ''https'' (to_lower (url_hostname u))"
      "\<exists>r \<in> set (elems (pol_allow (ep_effective e))). rule_host_matches r ''https'' (to_lower (url_hostname u))"
    using assms(2) by (auto simp: dec.verdict_allowed dest: host_wide_matches match_rule_admits)
  then have "fst (admit_host e (url_hostname u))" by (simp add: adm.verdict_allowed)
  then obtain r where "admit_host e (url_hostname u) = (True, is_tunnel_only e (to_lower (url_hostname u)), ''allow:'' @ r)"
    by (cases rule: adm.verdict_reason [of e "url_hostname u"]) auto
  moreover from d(2) have "fst (snd (decide_url e u)) = is_tunnel_only e (to_lower (url_hostname u))"
    by (cases rule: dec.verdict_reason [of e u]) auto
  ultimately show ?thesis by (simp add: d(1))
qed

theorem decide_allowed_host_admitted_witness:
  "\<exists>r. admit_host sample_effective (url_hostname
        \<lparr>url_scheme = ''https'', url_host = ''api.example.com'', url_path = ''/v1/x''\<rparr>) =
      (True, fst (snd (decide sample_effective ''https://api.example.com/v1/x'')), ''allow:'' @ r)"
proof (rule decide_allowed_host_admitted)
  show "url_parse ''https://api.example.com/v1/x'' =
      Some \<lparr>url_scheme = ''https'', url_host = ''api.example.com'', url_path = ''/v1/x''\<rparr>" by code_simp
  show "fst (decide sample_effective ''https://api.example.com/v1/x'')" by code_simp
qed simp

text \<open>
  C35. \<open>globMatch\<close>, with its two backtracking loops, decides exactly the pattern language its
  comment states: two stars match any run of bytes, one star a run without a slash.
\<close>

theorem glob_match_correct: "glob_match p s \<longleftrightarrow> glob p s"
  by (rule glob_match_iff_glob)

text \<open>
  \<open>LoadCeiling\<close> fails closed and normalises: the ceiling is the list of the non-empty comma
  fields, trimmed and lower-cased, and a variable that is unset or empty gives the nil ceiling, under
  which no URL is allowed.
\<close>

theorem load_ceiling_normal:
  "elems (load_ceiling raw) =
      filter (\<lambda>h. h \<noteq> []) (map (\<lambda>h. to_lower (trim_space h)) (split_byte CHR '','' raw)) \<and>
   load_ceiling [] = None \<and>
   (\<exists>e. compose H (load_ceiling []) req = Inr e \<and> \<not> fst (decide e url))"
proof -
  have n: "load_ceiling [] = None" by code_simp
  obtain e where e: "compose H None req = Inr e" by (rule compose_total)
  have "\<not> fst (decide e url)"
  proof
    assume "fst (decide e url)"
    then have "\<exists>u. url_parse url = Some u \<and> to_lower (url_hostname u) \<in> set (elems (None :: string slice))"
      using compose_effective(1) [OF e]
      by (auto simp: decide_def dec.verdict_allowed admissible_def within_ceiling_def split: option.splits if_splits)
    then show False by simp
  qed
  with n e load_ceiling_elems [of raw] show ?thesis by simp
qed

end
