(* ===== verification/Leaf_Cache.thy ===== *)
theory Leaf_Cache imports Go_Url begin

text \<open>
  The interception CA of \<open>api-server/mitm.go\<close>: minting a leaf for a host, and the bounded cache in
  front of it. Keys, serial numbers and signatures come from Go's crypto packages: whether each step
  succeeds, and the bytes it gives, are arguments. Times are in seconds. The cache relies on a store
  of named values; the locale says what it relies on, and the association list of the model is it.
\<close>

section \<open>Stores\<close>

locale keyed_store =
  fixes lookup :: "'s \<Rightarrow> 'k \<Rightarrow> 'v option"
    and insert_kv :: "'k \<Rightarrow> 'v \<Rightarrow> 's \<Rightarrow> 's"
    and empty_store :: 's
    and size_store :: "'s \<Rightarrow> nat"
  assumes lookup_empty: "lookup empty_store k = None"
    and lookup_insert: "lookup (insert_kv k v s) k' = (if k' = k then Some v else lookup s k')"
    and size_empty: "size_store empty_store = 0"
    and size_insert: "size_store (insert_kv k v s) \<le> Suc (size_store s)"
begin

definition holds_all :: "('k \<Rightarrow> 'v \<Rightarrow> bool) \<Rightarrow> 's \<Rightarrow> bool" where
  "holds_all P s \<longleftrightarrow> (\<forall>k v. lookup s k = Some v \<longrightarrow> P k v)"

text \<open>Inserting with a reset at the bound keeps what holds of all entries, and the bound.\<close>

definition insert_bounded :: "nat \<Rightarrow> 'k \<Rightarrow> 'v \<Rightarrow> 's \<Rightarrow> 's" where
  "insert_bounded n k v s = insert_kv k v (if size_store s \<ge> n then empty_store else s)"

lemma holds_all_empty: "holds_all P empty_store"
  by (simp add: holds_all_def lookup_empty)

lemma insert_bounded_holds: "holds_all P s \<Longrightarrow> P k v \<Longrightarrow> holds_all P (insert_bounded n k v s)"
  by (auto simp: insert_bounded_def holds_all_def lookup_insert lookup_empty)

lemma insert_bounded_size: "0 < n \<Longrightarrow> size_store s \<le> n \<Longrightarrow> size_store (insert_bounded n k v s) \<le> n"
  using size_insert [of k v s] size_insert [of k v empty_store]
  by (auto simp: insert_bounded_def size_empty)

lemma lookup_insert_bounded: "lookup (insert_bounded n k v s) k = Some v"
  by (simp add: insert_bounded_def lookup_insert)

end

section \<open>The CA\<close>

record leaf =
  lf_common_name :: string
  lf_dns_names :: "string list"
  lf_ip :: "string option"
  lf_not_before :: int
  lf_not_after :: int
  lf_der :: string
  lf_issuer :: string

record ca =
  ca_der :: string
  ca_fp :: string
  ca_leafs :: "(string \<times> leaf) list"

definition leaf_ttl :: int where
  [go_eval]: "leaf_ttl = 86400"

definition max_leaf_cache :: nat where
  [go_eval]: "max_leaf_cache = 512"

text \<open>What the crypto packages return on the way: an error of each step, or the certificate.\<close>

record mint_env =
  me_key_err :: "string option"
  me_serial_err :: "string option"
  me_now :: int
  me_create :: "string + string"
  me_parse_err :: "string option"

definition rand_serial :: "mint_env \<Rightarrow> string option" where
  [go_eval]: "rand_serial env = map_option (\<lambda>e. ''generating serial: '' @ e) (me_serial_err env)"

definition new_ca :: "(string \<Rightarrow> string) \<Rightarrow> mint_env \<Rightarrow> string + ca" where
  [go_eval]: "new_ca H env =
     (case me_key_err env of
        Some e \<Rightarrow> Inl (''generating CA key: '' @ e)
      | None \<Rightarrow>
          (case rand_serial env of
             Some e \<Rightarrow> Inl e
           | None \<Rightarrow>
               (case me_create env of
                  Inl e \<Rightarrow> Inl (''self-signing CA: '' @ e)
                | Inr der \<Rightarrow>
                    (case me_parse_err env of
                       Some e \<Rightarrow> Inl (''parsing CA: '' @ e)
                     | None \<Rightarrow> Inr \<lparr>ca_der = der, ca_fp = H der, ca_leafs = []\<rparr>))))"

definition fingerprint :: "ca \<Rightarrow> string" where
  [go_eval]: "fingerprint c = ca_fp c"

text \<open>\<open>net.ParseIP\<close>: a dotted quad, or IPv6 without a zone.\<close>

definition parses_as_ip :: "string \<Rightarrow> bool" where
  [go_eval]: "parses_as_ip s \<longleftrightarrow>
     (case find (\<lambda>c. c = CHR ''.'' \<or> c = CHR '':'' \<or> c = CHR ''%'') s of
        None \<Rightarrow> False
      | Some c \<Rightarrow>
          if c = CHR ''.'' then ip4_fields_ok s
          else if c = CHR '':'' then CHR ''%'' \<notin> set s \<and> ip6_ok s else False)"

definition mint :: "mint_env \<Rightarrow> string \<Rightarrow> ca \<Rightarrow> string + leaf" where
  [go_eval]: "mint env host c =
     (case me_key_err env of
        Some e \<Rightarrow> Inl (''generating leaf key for '' @ host @ '': '' @ e)
      | None \<Rightarrow>
          (case rand_serial env of
             Some e \<Rightarrow> Inl e
           | None \<Rightarrow>
               (case me_create env of
                  Inl e \<Rightarrow> Inl (''signing leaf for '' @ host @ '': '' @ e)
                | Inr der \<Rightarrow>
                    Inr \<lparr>lf_common_name = host,
                         lf_dns_names = (if parses_as_ip host then [] else [host]),
                         lf_ip = (if parses_as_ip host then Some host else None),
                         lf_not_before = me_now env - 300, lf_not_after = me_now env + leaf_ttl,
                         lf_der = der, lf_issuer = ca_der c\<rparr>)))"

definition put_leaf :: "string \<Rightarrow> leaf \<Rightarrow> (string \<times> leaf) list \<Rightarrow> (string \<times> leaf) list" where
  [go_eval]: "put_leaf k v m = (k, v) # filter (\<lambda>p. fst p \<noteq> k) m"

text \<open>
  \<open>LeafFor\<close> holds the mutex twice, around the lookup and around the insertion; other callers run
  while it mints.
\<close>

definition leaf_lookup :: "string \<Rightarrow> ca \<Rightarrow> leaf option" where
  [go_eval]: "leaf_lookup host c = map_of (ca_leafs c) host"

definition leaf_insert :: "string \<Rightarrow> leaf \<Rightarrow> ca \<Rightarrow> ca" where
  [go_eval]: "leaf_insert host leaf c =
     c\<lparr>ca_leafs := put_leaf host leaf (if length (ca_leafs c) \<ge> max_leaf_cache then [] else ca_leafs c)\<rparr>"

definition leaf_for :: "mint_env \<Rightarrow> string \<Rightarrow> ca \<Rightarrow> ca \<times> (string + leaf)" where
  [go_eval]: "leaf_for env host c =
     (case leaf_lookup host c of
        Some leaf \<Rightarrow> (c, Inr leaf)
      | None \<Rightarrow>
          (case mint env host c of
             Inl e \<Rightarrow> (c, Inl e)
           | Inr leaf \<Rightarrow> (leaf_insert host leaf c, Inr leaf)))"

lemma map_of_put_leaf: "map_of (put_leaf k v m) k' = (if k' = k then Some v else map_of m k')"
proof -
  have "map_of (filter (\<lambda>p. fst p \<noteq> k) m) k' = (if k' = k then None else map_of m k')"
    by (induction m) auto
  then show ?thesis by (simp add: put_leaf_def)
qed

interpretation leafs: keyed_store map_of put_leaf "[]" length
  by unfold_locales (simp, rule map_of_put_leaf, simp, simp add: put_leaf_def)

section \<open>Many callers\<close>

definition leaf_is_for :: "ca \<Rightarrow> string \<Rightarrow> leaf \<Rightarrow> bool" where
  "leaf_is_for c host leaf \<longleftrightarrow> lf_common_name leaf = host \<and>
     (if parses_as_ip host then lf_ip leaf = Some host \<and> lf_dns_names leaf = []
      else lf_ip leaf = None \<and> lf_dns_names leaf = [host]) \<and>
     lf_not_after leaf - lf_not_before leaf = leaf_ttl + 300 \<and> lf_issuer leaf = ca_der c"

definition ca_ok :: "ca \<Rightarrow> bool" where
  "ca_ok c \<longleftrightarrow> leafs.holds_all (leaf_is_for c) (ca_leafs c) \<and> length (ca_leafs c) \<le> max_leaf_cache"

lemma mint_is_for: "mint env host c = Inr leaf \<Longrightarrow> leaf_is_for c host leaf"
  by (auto simp: mint_def leaf_is_for_def split: option.splits sum.splits)

lemma leaf_insert_bounded:
  "leaf_insert host leaf c = c\<lparr>ca_leafs := leafs.insert_bounded max_leaf_cache host leaf (ca_leafs c)\<rparr>"
  by (simp add: leaf_insert_def leafs.insert_bounded_def)

lemma leaf_insert_ok: "ca_ok c \<Longrightarrow> leaf_is_for c host leaf \<Longrightarrow> ca_ok (leaf_insert host leaf c)"
  using leafs.insert_bounded_holds [of "leaf_is_for c" "ca_leafs c" host leaf max_leaf_cache]
    leafs.insert_bounded_size [of max_leaf_cache "ca_leafs c" host leaf]
  by (simp add: ca_ok_def leaf_insert_bounded leaf_is_for_def [abs_def] max_leaf_cache_def)

text \<open>A state is the CA and the leaves minted and not yet inserted, each with its host.\<close>

inductive ca_step :: "ca \<times> (string \<times> leaf) list \<Rightarrow> ca \<times> (string \<times> leaf) list \<Rightarrow> bool" where
  ca_mint: "leaf_lookup host c = None \<Longrightarrow> mint env host c = Inr leaf \<Longrightarrow> ca_step (c, ms) (c, ms @ [(host, leaf)])"
| ca_insert: "ca_step (c, ms1 @ (host, leaf) # ms2) (leaf_insert host leaf c, ms1 @ ms2)"

definition ca_sys_ok :: "ca \<times> (string \<times> leaf) list \<Rightarrow> bool" where
  "ca_sys_ok s \<longleftrightarrow> ca_ok (fst s) \<and> (\<forall>(h, leaf) \<in> set (snd s). leaf_is_for (fst s) h leaf)"

lemma ca_step_ok: "ca_step s t \<Longrightarrow> ca_sys_ok s \<Longrightarrow> ca_sys_ok t"
proof (induction rule: ca_step.induct)
  case (ca_mint host c env leaf ms)
  then show ?case using mint_is_for by (auto simp: ca_sys_ok_def)
next
  case (ca_insert c ms1 host leaf ms2)
  then show ?case
    using leaf_insert_ok [of c host leaf] by (auto simp: ca_sys_ok_def leaf_insert_def leaf_is_for_def)
qed

interpretation ca_callers: step_system ca_step ca_sys_ok "\<lambda>s t. ca_der (fst s) = ca_der (fst t)"
  by unfold_locales (auto simp: ca_step_ok leaf_insert_def elim!: ca_step.cases)

text \<open>The cache does not look at the validity of what it holds.\<close>

lemma expired_leaf_served:
  "leaf_lookup host c = Some leaf \<Longrightarrow> lf_not_after leaf < me_now env \<Longrightarrow> leaf_for env host c = (c, Inr leaf)"
  by (simp add: leaf_for_def)

definition sample_mint :: mint_env where
  [go_eval]: "sample_mint = \<lparr>me_key_err = None, me_serial_err = None, me_now = 1000, me_create = Inr ''der'', me_parse_err = None\<rparr>"

section \<open>Properties\<close>

text \<open>
  C36. An intercepted client is only ever shown a leaf for the host it asked for: whatever other
  callers mint and insert meanwhile, and through every reset of the cache, \<open>LeafFor\<close> returns a leaf
  whose common name and only subject name is that host, issued by this CA, valid for a day; and the
  cache, whose keys the sandbox chooses, never holds more than 512 entries.
\<close>

theorem leaf_for_right_host:
  assumes "new_ca H env0 = Inr c0" and "reaches ca_step (c0, []) (c, ms)"
    and "leaf_for env host c = (c', res)"
  shows "length (ca_leafs c') \<le> 512 \<and>
    (case res of
       Inl _ \<Rightarrow> c' = c
     | Inr leaf \<Rightarrow> lf_common_name leaf = host \<and> lf_dns_names leaf = (if parses_as_ip host then [] else [host]) \<and>
         lf_ip leaf = (if parses_as_ip host then Some host else None) \<and> lf_issuer leaf = ca_der c0 \<and>
         lf_not_after leaf = lf_not_before leaf + 86700)"
proof -
  have "ca_leafs c0 = []" using assms(1) by (auto simp: new_ca_def split: option.splits sum.splits)
  then have start: "ca_sys_ok (c0, [])" by (simp add: ca_sys_ok_def ca_ok_def leafs.holds_all_empty)
  have ok: "ca_ok c" "ca_der c = ca_der c0"
    using ca_callers.reaches_inv [OF assms(2) start] ca_callers.reaches_le [OF assms(2) start]
    by (simp_all add: ca_sys_ok_def)
  have hit: "leaf_is_for c host leaf" if "leaf_lookup host c = Some leaf" for leaf
    using ok(1) that by (simp add: ca_ok_def leafs.holds_all_def leaf_lookup_def)
  have ins: "length (ca_leafs (leaf_insert host leaf c)) \<le> 512" if "mint env host c = Inr leaf" for leaf
    using leaf_insert_ok [OF ok(1) mint_is_for [OF that]] by (simp add: ca_ok_def max_leaf_cache_def)
  have size: "length (ca_leafs c) \<le> 512" using ok(1) by (simp add: ca_ok_def max_leaf_cache_def)
  have right: "lf_common_name leaf = host \<and> lf_dns_names leaf = (if parses_as_ip host then [] else [host]) \<and>
      lf_ip leaf = (if parses_as_ip host then Some host else None) \<and> lf_issuer leaf = ca_der c0 \<and>
      lf_not_after leaf = lf_not_before leaf + 86700" if "leaf_is_for c host leaf" for leaf
    using that ok(2) by (auto simp: leaf_is_for_def leaf_ttl_def split: if_splits)
  show ?thesis
  proof (cases "leaf_lookup host c")
    case (Some leaf)
    with assms(3) have "c' = c" "res = Inr leaf" by (simp_all add: leaf_for_def)
    with right [OF hit [OF Some]] size show ?thesis by simp
  next
    case None
    show ?thesis
    proof (cases "mint env host c")
      case (Inl e)
      with None assms(3) have "c' = c" "res = Inl e" by (simp_all add: leaf_for_def)
      with size show ?thesis by simp
    next
      case (Inr leaf)
      with None assms(3) have "c' = leaf_insert host leaf c" "res = Inr leaf" by (simp_all add: leaf_for_def)
      with right [OF mint_is_for [OF Inr]] ins [OF Inr] show ?thesis by simp
    qed
  qed
qed

theorem leaf_for_right_host_witness:
  "\<exists>c leaf. leaf_for sample_mint ''a.example.com'' c = (leaf_insert ''a.example.com'' leaf c, Inr leaf) \<and>
     lf_dns_names leaf = [''a.example.com'']"
proof -
  define c where "c = \<lparr>ca_der = ''der'', ca_fp = ''h'', ca_leafs = []\<rparr>"
  have n: "new_ca (\<lambda>x. ''h'') sample_mint = Inr c" unfolding c_def by code_simp
  obtain leaf where m: "mint sample_mint ''a.example.com'' c = Inr leaf"
    by (simp add: mint_def sample_mint_def rand_serial_def)
  have f: "leaf_for sample_mint ''a.example.com'' c = (leaf_insert ''a.example.com'' leaf c, Inr leaf)"
    using m by (simp add: leaf_for_def leaf_lookup_def c_def)
  have "\<not> parses_as_ip ''a.example.com''" by code_simp
  with leaf_for_right_host [OF n reaches_refl f] f show ?thesis by auto
qed

end
