(* ===== verification/Config_Check.thy ===== *)
theory Config_Check imports Policy begin

text \<open>
  \<open>hack/configcheck/main.go\<close>: what \<open>tinfoil-config.yml\<close> has to say for the audit log to mean anything. The
  YAML decoder is a library; a network comes out of it as a null body, a scalar, or a mapping with the two
  fields, an item of \<open>env\<close> as a mapping or something else.
\<close>

section \<open>The configuration\<close>

record network_spec =
  ns_egress :: string
  ns_allow :: "string list"

datatype yaml_network = Yaml_Null | Yaml_Scalar | Yaml_Mapping string "string list" | Yaml_Error string

datatype env_value = Env_String string | Env_Value

datatype env_item = Env_Map "(string \<times> env_value) list" | Env_Other

record container =
  cc_name :: string
  cc_user :: string
  cc_networks :: "string list"
  cc_volumes :: "string list"
  cc_env :: "env_item list"

record config =
  cf_networks :: "(string \<times> network_spec option) list"
  cf_containers :: "container list"
  cf_upstream :: string
  cf_paths :: "string list"

definition sandbox_container :: string where
  [go_eval]: "sandbox_container = ''executor''"

definition recorder_container :: string where
  [go_eval]: "recorder_container = ''api-server''"

definition recorder_user :: string where
  [go_eval]: "recorder_user = ''0:1000''"

definition closed_spec :: network_spec where
  [go_eval]: "closed_spec = \<lparr>ns_egress = ''closed'', ns_allow = []\<rparr>"

text \<open>A null body leaves a nil pointer; \<open>UnmarshalYAML\<close> is called for the others.\<close>

definition unmarshal_network :: "yaml_network \<Rightarrow> string + network_spec option" where
  [go_eval]: "unmarshal_network y =
     (case y of
        Yaml_Null \<Rightarrow> Inr None
      | Yaml_Scalar \<Rightarrow> Inr (Some closed_spec)
      | Yaml_Error e \<Rightarrow> Inl e
      | Yaml_Mapping egress allow \<Rightarrow>
          Inr (Some \<lparr>ns_egress = (if egress = [] then ''closed'' else egress), ns_allow = allow\<rparr>))"

section \<open>Helpers\<close>

definition shares_network :: "string list \<Rightarrow> string list \<Rightarrow> bool" where
  [go_eval]: "shares_network as bs \<longleftrightarrow> list_ex (\<lambda>x. x \<in> set bs) as"

definition egress_network :: "(string \<times> network_spec) list \<Rightarrow> string \<Rightarrow> bool" where
  [go_eval]: "egress_network nets n \<longleftrightarrow>
     (case map_of nets n of None \<Rightarrow> False | Some spec \<Rightarrow> ns_egress spec \<noteq> ''closed'')"

definition first_egress_network :: "(string \<times> network_spec) list \<Rightarrow> string list \<Rightarrow> string" where
  [go_eval]: "first_egress_network nets networks =
     (case find (egress_network nets) networks of None \<Rightarrow> [] | Some n \<Rightarrow> n)"

definition has_tls_mount :: "string list \<Rightarrow> bool" where
  [go_eval]: "has_tls_mount volumes \<longleftrightarrow> list_ex (prefix ''/mnt/ramdisk/private/tls'') volumes"

text \<open>The first \<open>EGRESS_CEILING\<close> that is a string, and its hosts.\<close>

fun ceiling_text :: "env_item list \<Rightarrow> string option" where
  "ceiling_text [] = None"
| "ceiling_text (Env_Map m # es) =
     (case map_of m ''EGRESS_CEILING'' of
        Some (Env_String s) \<Rightarrow> Some s
      | _ \<Rightarrow> ceiling_text es)"
| "ceiling_text (Env_Other # es) = ceiling_text es"

definition ceiling_env :: "env_item list \<Rightarrow> string list" where
  [go_eval]: "ceiling_env es =
     (case ceiling_text es of
        None \<Rightarrow> []
      | Some s \<Rightarrow> filter (\<lambda>h. h \<noteq> []) (map trim_space (split_byte CHR '','' s)))"

text \<open>Containers by name: a later one replaces an earlier one of its name.\<close>

definition container_named :: "config \<Rightarrow> string \<Rightarrow> container option" where
  [go_eval]: "container_named cfg name = map_of (rev (map (\<lambda>c. (cc_name c, c)) (cf_containers cfg))) name"

definition network_specs :: "config \<Rightarrow> (string \<times> network_spec) list" where
  [go_eval]: "network_specs cfg =
     map (\<lambda>(n, s). (n, case s of None \<Rightarrow> closed_spec | Some spec \<Rightarrow> spec)) (cf_networks cfg)"

section \<open>The check\<close>

text \<open>\<open>%v\<close> of a list of strings; the dash of the messages.\<close>

definition list_text :: "string list \<Rightarrow> string" where
  [go_eval]: "list_text xs = ''['' @ join '' '' xs @ '']''"

definition em_dash :: string where
  [go_eval]: "em_dash = [CHR 0xE2, CHR 0x80, CHR 0x94]"

definition sandbox_network_problem :: "(string \<times> network_spec) list \<Rightarrow> string \<Rightarrow> string list" where
  [go_eval]: "sandbox_network_problem nets n =
     (case map_of nets n of
        None \<Rightarrow> [sandbox_container @ '' is on undeclared network '' @ go_quote n]
      | Some spec \<Rightarrow>
          if ns_egress spec \<noteq> ''closed'' then
            [sandbox_container @ '' is attached to '' @ go_quote n @ '' which has egress: '' @ ns_egress spec @ '' '' @ em_dash @
             '' the sandbox must have no route of its own, '' @
             ''or the audit log records only the traffic that chose to be recorded'']
          else [])"

definition problem_if :: "bool \<Rightarrow> string \<Rightarrow> string list" where
  [go_eval]: "problem_if b s = (if b then [s] else [])"

definition ceiling_problem :: "(string \<times> network_spec) list \<Rightarrow> container \<Rightarrow> string list" where
  [go_eval]: "ceiling_problem nets recorder =
     (let net = first_egress_network nets (cc_networks recorder) in
      if net = [] then []
      else
        let want = (case map_of nets net of None \<Rightarrow> [] | Some spec \<Rightarrow> ns_allow spec);
            got = ceiling_env (cc_env recorder)
        in problem_if (want \<noteq> got)
             (''EGRESS_CEILING='' @ list_text got @ '' does not match networks.'' @ net @ ''.allow='' @ list_text want @
              ''; the L7 and L3 ceilings must agree''))"

definition check_config :: "config \<Rightarrow> string list" where
  [go_eval]: "check_config cfg =
     (let nets = network_specs cfg in
      case container_named cfg sandbox_container of
        None \<Rightarrow> [''no container named '' @ go_quote sandbox_container]
      | Some sandbox \<Rightarrow>
          (case container_named cfg recorder_container of
             None \<Rightarrow> [''no container named '' @ go_quote recorder_container]
           | Some recorder \<Rightarrow>
               concat (map (sandbox_network_problem nets) (cc_networks sandbox)) @
               problem_if (\<not> shares_network (cc_networks sandbox) (cc_networks recorder))
                 (sandbox_container @ '' and '' @ recorder_container @ '' share no network; the sandbox cannot reach the proxy'') @
               problem_if (length (filter (egress_network nets) (cc_networks recorder)) = 0)
                 (recorder_container @ '' has no egress-capable network; nothing can reach the internet'') @
               problem_if (cc_user recorder \<noteq> recorder_user)
                 (recorder_container @ '' sets user: '' @ go_quote (cc_user recorder) @ '', want '' @ go_quote recorder_user @ '' '' @
                  em_dash @ '' uid 0 to read the bind-mounted TLS key, '' @ ''gid 1000 to connect to the executor's 0660 socket'') @
               problem_if (\<not> has_tls_mount (cc_volumes recorder))
                 (recorder_container @ '' does not mount /mnt/ramdisk/private/tls; audit checkpoints cannot be signed '' @
                  ''and transcripts would not be attributable to this CVM'') @
               problem_if (has_tls_mount (cc_volumes sandbox))
                 (sandbox_container @ '' mounts the enclave TLS key; it is untrusted and must never see it'') @
               ceiling_problem nets recorder @
               problem_if (''/audit/*'' \<notin> set (cf_paths cfg))
                 ''shim.paths does not expose /audit/*; the transcript is unreachable'' @
               problem_if (cf_upstream cfg \<noteq> [] \<and> cf_upstream cfg \<noteq> recorder_container)
                 (''shim.upstream-container is '' @ go_quote (cf_upstream cfg) @ '', want '' @ go_quote recorder_container)))"

text \<open>The exit code and the lines of \<open>main\<close> for a configuration that was read.\<close>

definition run_check :: "config \<Rightarrow> nat \<times> string list" where
  [go_eval]: "run_check cfg =
     (let problems = check_config cfg in
      if length problems > 0 then (1, map (\<lambda>p. ''FAIL: '' @ p) problems)
      else (0, [''configcheck: all invariants hold'']))"

text \<open>
  \<open>main\<close> over its arguments, the name of the program first; how a file is read and what the YAML decoder
  makes of it are given.
\<close>

definition config_main :: "(string \<Rightarrow> string + string) \<Rightarrow> (string \<Rightarrow> string + config) \<Rightarrow> string list \<Rightarrow> nat \<times> string list" where
  [go_eval]: "config_main read_file decode args =
     (if length args \<noteq> 2 then (2, [''usage: configcheck <tinfoil-config.yml>''])
      else
        (case read_file (args ! 1) of
           Inl e \<Rightarrow> (2, [e])
         | Inr data \<Rightarrow>
             (case decode data of
                Inl e \<Rightarrow> (2, [''parsing config: '' @ e])
              | Inr cfg \<Rightarrow> run_check cfg)))"

section \<open>What it amounts to\<close>

text \<open>The configuration that the design asks for, said without the code's loops.\<close>

definition closed_network :: "config \<Rightarrow> string \<Rightarrow> bool" where
  "closed_network cfg n \<longleftrightarrow> (\<exists>spec. map_of (network_specs cfg) n = Some spec \<and> ns_egress spec = ''closed'')"

definition tls_mount :: "string \<Rightarrow> bool" where
  "tls_mount v \<longleftrightarrow> (\<exists>rest. v = ''/mnt/ramdisk/private/tls'' @ rest)"

definition ceilings_agree :: "config \<Rightarrow> container \<Rightarrow> bool" where
  "ceilings_agree cfg recorder \<longleftrightarrow> (\<forall>before n after spec. cc_networks recorder = before @ n # after \<and>
     (\<forall>m \<in> set before. \<not> egress_network (network_specs cfg) m) \<and> map_of (network_specs cfg) n = Some spec \<and>
     ns_egress spec \<noteq> ''closed'' \<and> n \<noteq> [] \<longrightarrow> ns_allow spec = ceiling_env (cc_env recorder))"

definition audited_config :: "config \<Rightarrow> bool" where
  "audited_config cfg \<longleftrightarrow>
     (\<exists>sandbox recorder. container_named cfg ''executor'' = Some sandbox \<and> container_named cfg ''api-server'' = Some recorder \<and>
        (\<forall>n \<in> set (cc_networks sandbox). closed_network cfg n) \<and>
        (\<exists>n \<in> set (cc_networks sandbox). n \<in> set (cc_networks recorder)) \<and>
        (\<exists>n \<in> set (cc_networks recorder). egress_network (network_specs cfg) n) \<and>
        cc_user recorder = ''0:1000'' \<and>
        (\<exists>v \<in> set (cc_volumes recorder). tls_mount v) \<and> (\<forall>v \<in> set (cc_volumes sandbox). \<not> tls_mount v) \<and>
        ceilings_agree cfg recorder \<and> ''/audit/*'' \<in> set (cf_paths cfg) \<and>
        (cf_upstream cfg = [] \<or> cf_upstream cfg = ''api-server''))"

lemma problem_if_Nil [simp]: "problem_if b s = [] \<longleftrightarrow> \<not> b"
  by (simp add: problem_if_def)

lemma sandbox_network_problem_Nil: "sandbox_network_problem (network_specs cfg) n = [] \<longleftrightarrow> closed_network cfg n"
  by (auto simp: sandbox_network_problem_def closed_network_def split: option.splits)

lemma has_tls_mount_iff: "has_tls_mount vs \<longleftrightarrow> (\<exists>v \<in> set vs. tls_mount v)"
  by (auto simp: has_tls_mount_def list_ex_iff tls_mount_def prefix_def)

lemma find_split: "find P xs = Some x \<longleftrightarrow> (\<exists>as bs. xs = as @ x # bs \<and> (\<forall>y \<in> set as. \<not> P y) \<and> P x)"
proof
  show "find P xs = Some x \<Longrightarrow> \<exists>as bs. xs = as @ x # bs \<and> (\<forall>y \<in> set as. \<not> P y) \<and> P x"
  proof (induction xs)
    case (Cons a xs)
    show ?case
    proof (cases "P a")
      case True
      with Cons.prems show ?thesis by (intro exI [of _ "[]"] exI [of _ xs]) simp
    next
      case False
      with Cons obtain as bs where "xs = as @ x # bs" "\<forall>y \<in> set as. \<not> P y" "P x" by auto
      with False show ?thesis by (intro exI [of _ "a # as"] exI [of _ bs]) simp
    qed
  qed simp
  have "find P (as @ x # bs) = Some x" if "\<forall>y \<in> set as. \<not> P y" "P x" for as bs
    using that by (induction as) simp_all
  then show "\<exists>as bs. xs = as @ x # bs \<and> (\<forall>y \<in> set as. \<not> P y) \<and> P x \<Longrightarrow> find P xs = Some x" by blast
qed

lemma ceiling_problem_Nil: "ceiling_problem (network_specs cfg) recorder = [] \<longleftrightarrow> ceilings_agree cfg recorder"
proof -
  let ?nets = "network_specs cfg"
  have "ceilings_agree cfg recorder \<longleftrightarrow> (\<forall>n spec. find (egress_network ?nets) (cc_networks recorder) = Some n \<and>
      map_of ?nets n = Some spec \<and> n \<noteq> [] \<longrightarrow> ns_allow spec = ceiling_env (cc_env recorder))"
  proof -
    have "map_of ?nets n = Some spec \<Longrightarrow> egress_network ?nets n \<longleftrightarrow> ns_egress spec \<noteq> ''closed''" for n spec
      by (simp add: egress_network_def)
    then show ?thesis unfolding ceilings_agree_def find_split by blast
  qed
  also have "\<dots> \<longleftrightarrow> ceiling_problem ?nets recorder = []"
  proof (cases "find (egress_network ?nets) (cc_networks recorder)")
    case (Some n)
    then have "egress_network ?nets n" by (simp add: find_SomeD)
    then obtain spec where "map_of ?nets n = Some spec" by (auto simp: egress_network_def split: option.splits)
    with Some show ?thesis by (simp add: ceiling_problem_def first_egress_network_def Let_def)
  qed (simp add: ceiling_problem_def first_egress_network_def)
  finally show ?thesis by simp
qed

lemma check_config_Nil: "check_config cfg = [] \<longleftrightarrow> audited_config cfg"
proof (cases "container_named cfg ''executor''")
  case (Some sandbox)
  show ?thesis
  proof (cases "container_named cfg ''api-server''")
    case None
    then show ?thesis using Some by (simp add: check_config_def audited_config_def sandbox_container_def recorder_container_def)
  next
    case rec: (Some recorder)
    have "shares_network (cc_networks sandbox) (cc_networks recorder) \<longleftrightarrow> (\<exists>n \<in> set (cc_networks sandbox). n \<in> set (cc_networks recorder))"
      by (simp add: shares_network_def list_ex_iff)
    moreover have "filter (egress_network (network_specs cfg)) (cc_networks recorder) = [] \<longleftrightarrow>
        \<not> (\<exists>n \<in> set (cc_networks recorder). egress_network (network_specs cfg) n)"
      by (simp add: filter_empty_conv)
    ultimately show ?thesis using Some rec
      by (simp add: check_config_def audited_config_def sandbox_container_def recorder_container_def recorder_user_def Let_def
          sandbox_network_problem_Nil ceiling_problem_Nil has_tls_mount_iff)
  qed
qed (simp add: check_config_def audited_config_def sandbox_container_def)

lemma load_ceiling_lowers:
  "elems (load_ceiling (case ceiling_text es of None \<Rightarrow> [] | Some s \<Rightarrow> s)) = map to_lower (ceiling_env es)"
proof (cases "ceiling_text es")
  case (Some s)
  have "filter (\<lambda>h. h \<noteq> []) (map (\<lambda>h. to_lower (trim_space h)) ws) = map to_lower (filter (\<lambda>h. h \<noteq> []) (map trim_space ws))" for ws
    by (induction ws) simp_all
  with Some show ?thesis by (simp add: load_ceiling_elems ceiling_env_def)
next
  case None
  have "load_ceiling [] = None" by code_simp
  with None show ?thesis by (simp add: ceiling_env_def)
qed

section \<open>Properties\<close>

text \<open>The command succeeds on nothing but a file it could read whose configuration passes the check.\<close>

lemma config_main_success:
  "fst (config_main read_file decode args) = 0 \<longleftrightarrow>
     (\<exists>prog path data cfg. args = [prog, path] \<and> read_file path = Inr data \<and> decode data = Inr cfg \<and> check_config cfg = [])"
proof (cases "length args = 2")
  case True
  then obtain prog path where "args = [prog, path]" by (auto simp: numeral_2_eq_2 length_Suc_conv)
  then show ?thesis by (auto simp: config_main_def run_check_def Let_def split: sum.split)
qed (auto simp: config_main_def)


text \<open>
  C16. The checked ceiling is the enforced one. For a configuration that passes, whose recorder is on no
  network with an empty name, the api-server started with that \<open>EGRESS_CEILING\<close> lets a URL through only if
  its host is, up to case, in the \<open>allow\<close> list of the first network that leads the recorder out; and no
  network of the sandbox leads out.
\<close>

theorem checked_ceiling_enforced:
  assumes "check_config cfg = []" and "container_named cfg ''api-server'' = Some recorder" and "[] \<notin> set (cc_networks recorder)"
    and "compose H (load_ceiling (case ceiling_text (cc_env recorder) of None \<Rightarrow> [] | Some s \<Rightarrow> s)) req = Inr eff"
    and "\<forall>h \<in> set (ceiling_env (cc_env recorder)). dns_name (to_lower h)" and "fst (decide eff url)"
  shows "(\<exists>n spec u. n \<in> set (cc_networks recorder) \<and> map_of (network_specs cfg) n = Some spec \<and> ns_egress spec \<noteq> ''closed'' \<and>
      url_parse url = Some u \<and> to_lower (url_hostname u) \<in> to_lower ` set (ns_allow spec)) \<and>
    (\<exists>sandbox. container_named cfg ''executor'' = Some sandbox \<and> (\<forall>n \<in> set (cc_networks sandbox). closed_network cfg n))"
proof -
  from assms(1) have a: "audited_config cfg" by (simp add: check_config_Nil)
  have "\<forall>h \<in> set (elems (load_ceiling (case ceiling_text (cc_env recorder) of None \<Rightarrow> [] | Some s \<Rightarrow> s))). dns_name h"
    using assms(5) by (simp add: load_ceiling_lowers)
  from decide_ceiling [OF assms(4) this assms(6)] obtain u where
    u: "url_parse url = Some u" "to_lower (url_hostname u) \<in> to_lower ` set (ceiling_env (cc_env recorder))"
    by (auto simp: load_ceiling_lowers)
  from a assms(2) have "\<exists>n \<in> set (cc_networks recorder). egress_network (network_specs cfg) n" and agree: "ceilings_agree cfg recorder"
    by (auto simp: audited_config_def)
  then obtain before n after where n: "cc_networks recorder = before @ n # after" "egress_network (network_specs cfg) n"
      "\<forall>m \<in> set before. \<not> egress_network (network_specs cfg) m"
    by (metis split_list_first_prop)
  then obtain spec where spec: "map_of (network_specs cfg) n = Some spec" "ns_egress spec \<noteq> ''closed''"
    by (auto simp: egress_network_def split: option.splits)
  have "ns_allow spec = ceiling_env (cc_env recorder)"
    using agree n spec assms(3) unfolding ceilings_agree_def by (metis in_set_conv_decomp)
  with u spec n have "\<exists>n spec u. n \<in> set (cc_networks recorder) \<and> map_of (network_specs cfg) n = Some spec \<and> ns_egress spec \<noteq> ''closed'' \<and>
      url_parse url = Some u \<and> to_lower (url_hostname u) \<in> to_lower ` set (ns_allow spec)"
    by (metis in_set_conv_decomp)
  moreover have "\<exists>sandbox. container_named cfg ''executor'' = Some sandbox \<and> (\<forall>n \<in> set (cc_networks sandbox). closed_network cfg n)"
    using a unfolding audited_config_def by blast
  ultimately show ?thesis by blast
qed

text \<open>The shipped configuration in small.\<close>

definition sample_recorder :: container where
  [go_eval]: "sample_recorder = \<lparr>cc_name = ''api-server'', cc_user = ''0:1000'', cc_networks = [''sandbox-net'', ''egress-net''],
     cc_volumes = [''execsock:/run/execsock'', ''/mnt/ramdisk/private/tls:/run/tinfoil/tls:ro''],
     cc_env = [Env_Map [(''EGRESS_CEILING'', Env_String ''api.example.com'')]]\<rparr>"

definition sample_sandbox :: container where
  [go_eval]: "sample_sandbox = \<lparr>cc_name = ''executor'', cc_user = ''1000:1000'', cc_networks = [''sandbox-net''],
     cc_volumes = [''execsock:/run/execsock''], cc_env = []\<rparr>"

definition sample_config :: config where
  [go_eval]: "sample_config = \<lparr>cf_networks = [(''sandbox-net'', None), (''egress-net'', Some \<lparr>ns_egress = ''allowlist'', ns_allow = [''api.example.com'']\<rparr>)],
     cf_containers = [sample_recorder, sample_sandbox], cf_upstream = ''api-server'', cf_paths = [''/audit/*'']\<rparr>"

lemma sample_config_passes: "check_config sample_config = []"
  by code_simp

theorem checked_ceiling_enforced_witness:
  "\<exists>n spec u. map_of (network_specs sample_config) n = Some spec \<and> ns_egress spec \<noteq> ''closed'' \<and>
     url_parse ''https://api.example.com/v1/x'' = Some u \<and> to_lower (url_hostname u) \<in> to_lower ` set (ns_allow spec)"
proof -
  have c: "container_named sample_config ''api-server'' = Some sample_recorder" by code_simp
  have e: "[] \<notin> set (cc_networks sample_recorder)" by (simp add: sample_recorder_def)
  have l: "load_ceiling (case ceiling_text (cc_env sample_recorder) of None \<Rightarrow> [] | Some s \<Rightarrow> s) = Some [''api.example.com'']" by code_simp
  have "\<forall>h \<in> set (ceiling_env (cc_env sample_recorder)). dns_name (to_lower h)"
  proof -
    have "ceiling_env (cc_env sample_recorder) = [''api.example.com'']" by code_simp
    moreover have "to_lower ''api.example.com'' = ''api.example.com''" by code_simp
    ultimately show ?thesis using sample_dns by simp
  qed
  moreover have "fst (decide sample_effective ''https://api.example.com/v1/x'')" by code_simp
  ultimately show ?thesis
    using checked_ceiling_enforced [OF sample_config_passes c e] sample_compose unfolding l by blast
qed

section \<open>What passes all the same\<close>

text \<open>A directory above the key, a second way out with another ceiling, a network with an empty name.\<close>

lemma parent_mount_accepted:
  "check_config (sample_config\<lparr>cf_containers := [sample_recorder,
     sample_sandbox\<lparr>cc_volumes := [''/mnt/ramdisk/private:/keys'']\<rparr>]\<rparr>) = []"
  by code_simp

lemma two_egress_networks_accepted:
  "check_config (sample_config\<lparr>cf_networks := (''other-net'', Some \<lparr>ns_egress = ''open'', ns_allow = []\<rparr>) # cf_networks sample_config,
     cf_containers := [sample_recorder\<lparr>cc_networks := [''sandbox-net'', ''egress-net'', ''other-net'']\<rparr>, sample_sandbox]\<rparr>) = []"
  by code_simp

lemma empty_network_name_skips_ceiling:
  "check_config (sample_config\<lparr>cf_networks := ([], Some \<lparr>ns_egress = ''open'', ns_allow = [''evil.example.com'']\<rparr>) # cf_networks sample_config,
     cf_containers := [sample_recorder\<lparr>cc_networks := [''sandbox-net'', []]\<rparr>, sample_sandbox]\<rparr>) = []"
  by code_simp

end
