(* ===== verification/Go_Decode.thy ===== *)
theory Go_Decode imports Go_Json begin

text \<open>
  \<open>encoding/json\<close> in the other direction: the parser behind \<open>json.Unmarshal\<close>, which accepts one
  JSON text and nothing after it, and \<open>json.NewDecoder(r).Decode\<close>, which reads the first value and
  leaves the rest; and how the program's structs take their fields from an object: names match
  without regard to case, a later member overrides, \<open>null\<close> leaves the field, another type is an
  error. An object keeps each member's exact text for \<open>json.RawMessage\<close> fields. Strings are
  taken as valid UTF-8; the nesting limit of 10000 is not modelled.
\<close>

section \<open>Parsing\<close>

datatype jval =
    VNull
  | VBool bool
  | VNum string
  | VStr string
  | VArr "jval list"
  | VObj "(string \<times> jval \<times> string) list"

definition json_space :: "char \<Rightarrow> bool" where
  [go_eval]: "json_space c \<longleftrightarrow> c \<in> {CHR '' '', CHR 0x09, CHR 0x0A, CHR 0x0D}"

definition skip_ws :: "string \<Rightarrow> string" where
  [go_eval]: "skip_ws s = dropWhile json_space s"

text \<open>The fraction and the exponent of a number, both optional.\<close>

definition frac_part :: "string \<Rightarrow> string option" where
  [go_eval]: "frac_part s =
     (case s of
        [] \<Rightarrow> Some []
      | c # r \<Rightarrow>
          if c \<noteq> CHR ''.'' then Some s
          else if takeWhile is_digit r = [] then None else Some (dropWhile is_digit r))"

definition exp_part :: "string \<Rightarrow> string option" where
  [go_eval]: "exp_part s =
     (case s of
        [] \<Rightarrow> Some []
      | c # r \<Rightarrow>
          if c \<noteq> CHR ''e'' \<and> c \<noteq> CHR ''E'' then Some s
          else
            let d = (case r of [] \<Rightarrow> [] | x # t \<Rightarrow> if x = CHR ''+'' \<or> x = CHR ''-'' then t else r) in
            if takeWhile is_digit d = [] then None else Some (dropWhile is_digit d))"

definition int_part :: "string \<Rightarrow> string option" where
  [go_eval]: "int_part s =
     (let d = (case s of [] \<Rightarrow> [] | x # t \<Rightarrow> if x = CHR ''-'' then t else s) in
      case d of
        [] \<Rightarrow> None
      | c # t \<Rightarrow> if c = CHR ''0'' then Some t else if is_digit c then Some (dropWhile is_digit t) else None)"

definition parse_number :: "string \<Rightarrow> (string \<times> string) option" where
  [go_eval]: "parse_number s =
     map_option (\<lambda>r. (take (length s - length r) s, r))
       (Option.bind (Option.bind (int_part s) frac_part) exp_part)"

definition parse_word :: "string \<Rightarrow> jval \<Rightarrow> string \<Rightarrow> (jval \<times> string) option" where
  [go_eval]: "parse_word w v s = (if prefix w s then Some (v, drop (length w) s) else None)"

text \<open>
  The grammar, with one unit of fuel per call; each call that returns has consumed a byte, and twice
  the length of the text is enough (\<open>parse_fuel\<close> below).
\<close>

fun parse_value :: "nat \<Rightarrow> string \<Rightarrow> (jval \<times> string) option"
  and parse_elems :: "nat \<Rightarrow> string \<Rightarrow> (jval list \<times> string) option"
  and parse_members :: "nat \<Rightarrow> string \<Rightarrow> ((string \<times> jval \<times> string) list \<times> string) option" where
  "parse_value 0 s = None"
| "parse_value (Suc n) s =
     (case skip_ws s of
        [] \<Rightarrow> None
      | c # r \<Rightarrow>
          if c = CHR 0x22 then map_option (apfst VStr) (read_chars r)
          else if c = CHR ''['' then
            (if prefix '']'' (skip_ws r) then Some (VArr [], tl (skip_ws r))
             else map_option (apfst VArr) (parse_elems n r))
          else if c = CHR ''{'' then
            (if prefix ''}'' (skip_ws r) then Some (VObj [], tl (skip_ws r))
             else map_option (apfst VObj) (parse_members n r))
          else if c = CHR ''n'' then parse_word ''null'' VNull (c # r)
          else if c = CHR ''t'' then parse_word ''true'' (VBool True) (c # r)
          else if c = CHR ''f'' then parse_word ''false'' (VBool False) (c # r)
          else map_option (apfst VNum) (parse_number (c # r)))"
| "parse_elems 0 s = None"
| "parse_elems (Suc n) s =
     (case parse_value n s of
        None \<Rightarrow> None
      | Some (v, r) \<Rightarrow>
          if prefix '','' (skip_ws r) then map_option (apfst ((#) v)) (parse_elems n (tl (skip_ws r)))
          else if prefix '']'' (skip_ws r) then Some ([v], tl (skip_ws r))
          else None)"
| "parse_members 0 s = None"
| "parse_members (Suc n) s =
     (case read_string (skip_ws s) of
        None \<Rightarrow> None
      | Some (k, r1) \<Rightarrow>
          if \<not> prefix '':'' (skip_ws r1) then None
          else
            let t = skip_ws (tl (skip_ws r1)) in
            (case parse_value n t of
               None \<Rightarrow> None
             | Some (v, r) \<Rightarrow>
                 let m = (k, v, take (length t - length r) t) in
                 if prefix '','' (skip_ws r) then map_option (apfst ((#) m)) (parse_members n (tl (skip_ws r)))
                 else if prefix ''}'' (skip_ws r) then Some ([m], tl (skip_ws r))
                 else None))"

definition json_first :: "string \<Rightarrow> (jval \<times> string) option" where
  [go_eval]: "json_first s = parse_value (2 * length s) s"

definition json_unmarshal :: "string \<Rightarrow> jval option" where
  [go_eval]: "json_unmarshal s =
     (case json_first s of None \<Rightarrow> None | Some (v, r) \<Rightarrow> if skip_ws r = [] then Some v else None)"

definition json_decode :: "string \<Rightarrow> jval option" where
  [go_eval]: "json_decode s = map_option fst (json_first s)"

section \<open>Filling a struct\<close>

text \<open>The members a struct is filled from; \<open>null\<close> fills nothing, any other non-object is a type error.\<close>

definition struct_members :: "jval \<Rightarrow> (string \<times> jval \<times> string) list option" where
  [go_eval]: "struct_members v = (case v of VObj ms \<Rightarrow> Some ms | VNull \<Rightarrow> Some [] | _ \<Rightarrow> None)"

definition field_values :: "string \<Rightarrow> (string \<times> jval \<times> string) list \<Rightarrow> (jval \<times> string) list" where
  [go_eval]: "field_values f ms = map snd (filter (\<lambda>m. to_lower (fst m) = f) ms)"

definition string_field :: "string \<Rightarrow> (string \<times> jval \<times> string) list \<Rightarrow> string" where
  [go_eval]: "string_field f ms =
     fold (\<lambda>v a. case fst v of VStr s \<Rightarrow> s | _ \<Rightarrow> a) (field_values f ms) []"

definition string_field_ok :: "string \<Rightarrow> (string \<times> jval \<times> string) list \<Rightarrow> bool" where
  [go_eval]: "string_field_ok f ms =
     list_all (\<lambda>v. case fst v of VStr _ \<Rightarrow> True | VNull \<Rightarrow> True | _ \<Rightarrow> False) (field_values f ms)"

definition number_int :: "string \<Rightarrow> int option" where
  [go_eval]: "number_int s =
     (let neg = prefix ''-'' s; d = (if neg then tl s else s); n = int (digits_val d); i = (if neg then - n else n) in
      if d \<noteq> [] \<and> list_all is_digit d \<and> - (2 ^ 63) \<le> i \<and> i < 2 ^ 63 then Some i else None)"

definition int_field :: "string \<Rightarrow> (string \<times> jval \<times> string) list \<Rightarrow> int" where
  [go_eval]: "int_field f ms =
     fold (\<lambda>v a. case fst v of VNum s \<Rightarrow> (case number_int s of Some i \<Rightarrow> i | None \<Rightarrow> a) | _ \<Rightarrow> a) (field_values f ms) 0"

definition int_field_ok :: "string \<Rightarrow> (string \<times> jval \<times> string) list \<Rightarrow> bool" where
  [go_eval]: "int_field_ok f ms =
     list_all (\<lambda>v. case fst v of VNum s \<Rightarrow> number_int s \<noteq> None | VNull \<Rightarrow> True | _ \<Rightarrow> False) (field_values f ms)"

definition strings_field :: "string \<Rightarrow> (string \<times> jval \<times> string) list \<Rightarrow> string slice" where
  [go_eval]: "strings_field f ms =
     fold (\<lambda>v a. case fst v of
         VArr vs \<Rightarrow> Some (map (\<lambda>x. case x of VStr s \<Rightarrow> s | _ \<Rightarrow> []) vs)
       | VNull \<Rightarrow> None
       | _ \<Rightarrow> a) (field_values f ms) None"

definition strings_field_ok :: "string \<Rightarrow> (string \<times> jval \<times> string) list \<Rightarrow> bool" where
  [go_eval]: "strings_field_ok f ms =
     list_all (\<lambda>v. case fst v of
         VArr vs \<Rightarrow> list_all (\<lambda>x. case x of VStr _ \<Rightarrow> True | VNull \<Rightarrow> True | _ \<Rightarrow> False) vs
       | VNull \<Rightarrow> True
       | _ \<Rightarrow> False) (field_values f ms)"

text \<open>A \<open>json.RawMessage\<close> field takes the member's text as it stands.\<close>

definition raw_field :: "string \<Rightarrow> (string \<times> jval \<times> string) list \<Rightarrow> string" where
  [go_eval]: "raw_field f ms = fold (\<lambda>v _. snd v) (field_values f ms) []"

section \<open>The fuel is enough\<close>

lemma length_skip_ws: "length (skip_ws s) \<le> length s"
  by (simp add: skip_ws_def length_dropWhile_le)

lemma read_chars_length: "read_chars s = Some (t, r) \<Longrightarrow> length r < length s"
proof (induction s arbitrary: t rule: read_chars.induct)
  case (2 c s)
  then show ?case
    by (fastforce split: if_splits list.splits option.splits simp del: map_of.simps)
qed simp

lemma read_string_length: "read_string s = Some (t, r) \<Longrightarrow> length r < length s"
  by (auto simp: read_string_def split: list.splits if_splits dest!: read_chars_length)

lemma int_part_length: "int_part s = Some r \<Longrightarrow> length r < length s"
  using length_dropWhile_le [of is_digit]
  by (auto simp: int_part_def Let_def less_Suc_eq_le split: list.splits if_splits intro: le_SucI)

lemma frac_part_length: "frac_part s = Some r \<Longrightarrow> length r \<le> length s"
  using length_dropWhile_le [of is_digit]
  by (auto simp: frac_part_def split: list.splits if_splits intro: le_SucI)

lemma exp_part_length: "exp_part s = Some r \<Longrightarrow> length r \<le> length s"
  using length_dropWhile_le [of is_digit]
  by (auto simp: exp_part_def Let_def split: list.splits if_splits intro: le_SucI)

lemma parse_number_length: "parse_number s = Some (t, r) \<Longrightarrow> length r < length s"
  by (auto simp: parse_number_def bind_eq_Some_conv dest!: int_part_length frac_part_length exp_part_length)

lemma parse_word_length: "w \<noteq> [] \<Longrightarrow> parse_word w v s = Some (u, r) \<Longrightarrow> length r < length s"
  by (auto simp: parse_word_def prefix_def split: if_splits)

lemma skip_ws_Cons: "skip_ws s = c # r \<Longrightarrow> Suc (length r) \<le> length s"
  using length_skip_ws [of s] by simp

lemma tl_skip: "prefix [c] (skip_ws s) \<Longrightarrow> Suc (length (tl (skip_ws s))) \<le> length s"
  using length_skip_ws [of s] by (cases "skip_ws s") auto

text \<open>A parser settles on a text: it consumes, and any fuel from twice what it consumes on gives the result.\<close>

definition settles :: "nat \<Rightarrow> (nat \<Rightarrow> string \<Rightarrow> ('a \<times> string) option) \<Rightarrow> string \<Rightarrow> 'a \<Rightarrow> string \<Rightarrow> bool" where
  "settles k p s v r \<longleftrightarrow> length r < length s \<and>
     (\<forall>n. 2 * (length s - length r) + k \<le> n \<longrightarrow> p n s = Some (v, r))"

lemma settlesI:
  assumes "length r < length s" and "\<And>n. 2 * (length s - length r) + k \<le> Suc n \<Longrightarrow> p (Suc n) s = Some (v, r)"
  shows "settles k p s v r"
  unfolding settles_def
proof (intro conjI allI impI)
  fix n
  assume "2 * (length s - length r) + k \<le> n"
  with assms show "p n s = Some (v, r)" by (cases n) auto
qed (rule assms(1))

lemma settlesD:
  assumes "settles k p s v r"
  shows "length r < length s" "2 * (length s - length r) + k \<le> n \<Longrightarrow> p n s = Some (v, r)"
  using assms by (auto simp: settles_def)

lemma settles_value:
  assumes "\<And>t vs q. parse_elems m t = Some (vs, q) \<Longrightarrow> settles 1 parse_elems t vs q"
    and "\<And>t ms q. parse_members m t = Some (ms, q) \<Longrightarrow> settles 1 parse_members t ms q"
    and p: "parse_value (Suc m) s = Some (v, r)"
  shows "settles 0 parse_value s v r"
proof -
  from p obtain c t where ct: "skip_ws s = c # t" by (cases "skip_ws s") auto
  note len = skip_ws_Cons [OF ct]
  consider (arr) vs where "c = CHR ''[''" "\<not> prefix '']'' (skip_ws t)" "parse_elems m t = Some (vs, r)" "v = VArr vs"
    | (obj) ms where "c = CHR ''{''" "\<not> prefix ''}'' (skip_ws t)" "parse_members m t = Some (ms, r)" "v = VObj ms"
    | (flat) "\<forall>n. parse_value (Suc n) s = Some (v, r)"
    using p ct by (cases "c = CHR ''[''"; cases "c = CHR ''{''") (auto split: if_splits)
  then show ?thesis
  proof cases
    case arr
    note IH = settlesD [OF assms(1) [OF arr(3)]]
    show ?thesis by (rule settlesI) (use arr ct len IH in auto)
  next
    case obj
    note IH = settlesD [OF assms(2) [OF obj(3)]]
    show ?thesis by (rule settlesI) (use obj ct len IH in auto)
  next
    case flat
    from flat have "parse_value (Suc 0) s = Some (v, r)" by blast
    then have "length r < length s"
      using ct len tl_skip [of "CHR '']''" t] tl_skip [of "CHR ''}''" t]
      by (auto split: if_splits dest!: read_chars_length parse_number_length parse_word_length [rotated])
    with flat show ?thesis by (intro settlesI) simp_all
  qed
qed

lemma settles_elems:
  assumes "\<And>t w q. parse_value m t = Some (w, q) \<Longrightarrow> settles 0 parse_value t w q"
    and "\<And>t vs q. parse_elems m t = Some (vs, q) \<Longrightarrow> settles 1 parse_elems t vs q"
    and p: "parse_elems (Suc m) s = Some (vs, r)"
  shows "settles 1 parse_elems s vs r"
proof -
  from p obtain w t where w: "parse_value m s = Some (w, t)" by (auto split: option.splits)
  note V = settlesD [OF assms(1) [OF w]]
  show ?thesis
  proof (cases "prefix '','' (skip_ws t)")
    case True
    with p w obtain us where u: "parse_elems m (tl (skip_ws t)) = Some (us, r)" "vs = w # us" by auto
    note E = settlesD [OF assms(2) [OF u(1)]] and l = tl_skip [OF True]
    show ?thesis
    proof (rule settlesI)
      show "length r < length s" using V(1) E(1) l by linarith
      show "parse_elems (Suc n) s = Some (vs, r)" if "2 * (length s - length r) + 1 \<le> Suc n" for n
      proof -
        from that have "2 * (length s - length t) + 0 \<le> n" "2 * (length (tl (skip_ws t)) - length r) + 1 \<le> n"
          using V(1) E(1) l by linarith+
        from V(2) [OF this(1)] E(2) [OF this(2)] True u(2) show ?thesis by simp
      qed
    qed
  next
    case False
    with p w have f: "prefix '']'' (skip_ws t)" "vs = [w]" "r = tl (skip_ws t)" by (auto split: if_splits)
    note l = tl_skip [OF f(1), folded f(3)]
    show ?thesis
    proof (rule settlesI)
      show "length r < length s" using V(1) l by linarith
      show "parse_elems (Suc n) s = Some (vs, r)" if "2 * (length s - length r) + 1 \<le> Suc n" for n
        using that V(2) [of n] l False f by simp
    qed
  qed
qed

lemma settles_members:
  assumes "\<And>t w q. parse_value m t = Some (w, q) \<Longrightarrow> settles 0 parse_value t w q"
    and "\<And>t ms q. parse_members m t = Some (ms, q) \<Longrightarrow> settles 1 parse_members t ms q"
    and p: "parse_members (Suc m) s = Some (ms, r)"
  shows "settles 1 parse_members s ms r"
proof -
  from p obtain k r1 where k: "read_string (skip_ws s) = Some (k, r1)" and c: "prefix '':'' (skip_ws r1)"
    by (auto split: option.splits if_splits)
  define t where "t = skip_ws (tl (skip_ws r1))"
  from p k c obtain w q where w: "parse_value m t = Some (w, q)" by (auto simp: t_def Let_def split: option.splits)
  have lt: "length t + 2 \<le> length s"
    using read_string_length [OF k] length_skip_ws [of s] tl_skip [OF c] length_skip_ws [of "tl (skip_ws r1)"]
    by (simp add: t_def)
  note V = settlesD [OF assms(1) [OF w]]
  note simps = k c t_def [symmetric] Let_def
  show ?thesis
  proof (cases "prefix '','' (skip_ws q)")
    case True
    with p w obtain us where u: "parse_members m (tl (skip_ws q)) = Some (us, r)"
        "ms = (k, w, take (length t - length q) t) # us" by (auto simp: simps)
    note M = settlesD [OF assms(2) [OF u(1)]] and l = tl_skip [OF True]
    show ?thesis
    proof (rule settlesI)
      show "length r < length s" using V(1) M(1) l lt by linarith
      show "parse_members (Suc n) s = Some (ms, r)" if "2 * (length s - length r) + 1 \<le> Suc n" for n
      proof -
        from that have "2 * (length t - length q) + 0 \<le> n" "2 * (length (tl (skip_ws q)) - length r) + 1 \<le> n"
          using V(1) M(1) l lt by linarith+
        from V(2) [OF this(1)] M(2) [OF this(2)] True u(2) show ?thesis by (simp add: simps)
      qed
    qed
  next
    case False
    with p w have f: "prefix ''}'' (skip_ws q)" "ms = [(k, w, take (length t - length q) t)]" "r = tl (skip_ws q)"
      by (auto simp: simps split: if_splits)
    note l = tl_skip [OF f(1), folded f(3)]
    show ?thesis
    proof (rule settlesI)
      show "length r < length s" using V(1) l lt by linarith
      show "parse_members (Suc n) s = Some (ms, r)" if "2 * (length s - length r) + 1 \<le> Suc n" for n
        using that V(2) [of n] l lt False f by (simp add: simps)
    qed
  qed
qed

lemma parse_settles:
  "\<forall>s v r. parse_value m s = Some (v, r) \<longrightarrow> settles 0 parse_value s v r"
  "\<forall>s vs r. parse_elems m s = Some (vs, r) \<longrightarrow> settles 1 parse_elems s vs r"
  "\<forall>s ms r. parse_members m s = Some (ms, r) \<longrightarrow> settles 1 parse_members s ms r"
proof (induction m)
  case (Suc m)
  { case 1 show ?case using settles_value Suc.IH(2,3) by blast }
  { case 2 show ?case using settles_elems Suc.IH(1,2) by blast }
  { case 3 show ?case using settles_members Suc.IH(1,3) by blast }
qed simp_all

lemma parse_fuel: "parse_value m s = Some (v, r) \<Longrightarrow> json_first s = Some (v, r)"
proof -
  assume "parse_value m s = Some (v, r)"
  then have "settles 0 parse_value s v r" using parse_settles(1) by blast
  from settlesD(2) [OF this, of "2 * length s"] show ?thesis by (simp add: json_first_def)
qed

lemma unmarshal_decode: "json_unmarshal s = Some v \<Longrightarrow> json_decode s = Some v"
  by (auto simp: json_unmarshal_def json_decode_def split: option.splits if_splits)

end
