(* ===== verification/Gate.thy ===== *)
theory Gate imports Go_Decode begin

text \<open>
  The access gate of \<open>api-server/main.go\<close>: the auth-token lock, taken by the first caller's
  non-empty token, and the session lifecycle warm, active, killed. Each method holds the gate's mutex,
  so it is one atomic function on the state. With it the two ways the api-server answers: the HTTP
  response as a value, and \<open>writeJSONError\<close>.
\<close>

section \<open>Responses\<close>

record http_response =
  hr_status :: int
  hr_headers :: "(string \<times> string) list"
  hr_body :: string

definition error_body :: "string \<Rightarrow> string" where
  [go_eval]: "error_body msg = ''{'' @ json_quote ''error'' @ '':'' @ go_quote msg @ ''}''"

definition json_error :: "int \<Rightarrow> string \<Rightarrow> http_response" where
  [go_eval]: "json_error status msg =
     \<lparr>hr_status = status, hr_headers = [(''Content-Type'', ''application/json'')], hr_body = error_body msg\<rparr>"

text \<open>What a mux answers on a path without a route.\<close>

definition mux_not_found :: http_response where
  [go_eval]: "mux_not_found = \<lparr>hr_status = 404,
     hr_headers = [(''Content-Type'', ''text/plain; charset=utf-8''), (''X-Content-Type-Options'', ''nosniff'')],
     hr_body = ''404 page not found'' @ [CHR 0x0A]\<rparr>"

section \<open>The gate\<close>

datatype lifecycle = Warm | Active | Killed

definition lifecycle_string :: "lifecycle \<Rightarrow> string" where
  [go_eval]: "lifecycle_string s = (case s of Warm \<Rightarrow> ''warm'' | Active \<Rightarrow> ''active'' | Killed \<Rightarrow> ''killed'')"

record gate =
  gt_token :: string
  gt_state :: lifecycle

definition new_gate :: gate where
  [go_eval]: "new_gate = \<lparr>gt_token = [], gt_state = Warm\<rparr>"

text \<open>The new state, and the status, message and verdict of the call.\<close>

definition check_auth :: "string \<Rightarrow> gate \<Rightarrow> gate \<times> int \<times> string \<times> bool" where
  [go_eval]: "check_auth tok g =
     (if tok = [] then (g, 401, ''missing container auth token'', False)
      else if gt_token g = [] then (g\<lparr>gt_token := tok\<rparr>, 0, [], True)
      else if gt_token g \<noteq> tok then (g, 403, ''container auth token mismatch'', False)
      else (g, 0, [], True))"

definition check_lifecycle :: "string \<Rightarrow> gate \<Rightarrow> gate \<times> int \<times> string \<times> bool" where
  [go_eval]: "check_lifecycle path g =
     (case gt_state g of
        Killed \<Rightarrow> (g, 410, ''container session ended'', False)
      | Active \<Rightarrow>
          if path = ''/restore'' then (g, 410, ''restore window closed'', False) else (g, 0, [], True)
      | Warm \<Rightarrow>
          if path = ''/restore'' then (g, 0, [], True)
          else if path = ''/snapshot'' then (g, 410, ''cannot snapshot a warm container'', False)
          else (g\<lparr>gt_state := Active\<rparr>, 0, [], True))"

definition check :: "string \<Rightarrow> string \<Rightarrow> gate \<Rightarrow> gate \<times> int \<times> string \<times> bool" where
  [go_eval]: "check path tok g =
     (let (g1, status, msg, ok) = check_auth tok g in
      if \<not> ok then (g1, status, msg, False) else check_lifecycle path g1)"

definition mark_killed :: "gate \<Rightarrow> gate" where
  [go_eval]: "mark_killed g = g\<lparr>gt_state := Killed\<rparr>"

definition require_auth :: "string \<Rightarrow> gate \<Rightarrow> gate \<times> http_response option" where
  [go_eval]: "require_auth tok g =
     (let (g1, status, msg, ok) = check_auth tok g in
      if \<not> ok then (g1, Some (json_error status msg)) else (g1, None))"

section \<open>Every caller of the gate\<close>

text \<open>One call: which method, with which path and token; \<open>Kill\<close> is \<open>markKilled\<close>.\<close>

datatype gate_call = Check string string | Auth string | Kill

fun gate_do :: "gate_call \<Rightarrow> gate \<Rightarrow> gate \<times> bool" where
  "gate_do (Check path tok) g = (let (g1, _, _, ok) = check path tok g in (g1, ok))"
| "gate_do (Auth tok) g = (let (g1, r) = require_auth tok g in (g1, r = None))"
| "gate_do Kill g = (mark_killed g, True)"

inductive gate_step :: "gate \<Rightarrow> gate \<Rightarrow> bool" where
  gate_call: "gate_step g (fst (gate_do c g))"

fun lifecycle_rank :: "lifecycle \<Rightarrow> nat" where
  "lifecycle_rank Warm = 0" | "lifecycle_rank Active = 1" | "lifecycle_rank Killed = 2"

instantiation lifecycle :: linorder
begin
definition less_eq_lifecycle :: "lifecycle \<Rightarrow> lifecycle \<Rightarrow> bool" where
  "less_eq_lifecycle a b \<longleftrightarrow> lifecycle_rank a \<le> lifecycle_rank b"
definition less_lifecycle :: "lifecycle \<Rightarrow> lifecycle \<Rightarrow> bool" where
  "less_lifecycle a b \<longleftrightarrow> lifecycle_rank a < lifecycle_rank b"
instance
proof
  fix a b :: lifecycle
  show "a \<le> b \<Longrightarrow> b \<le> a \<Longrightarrow> a = b"
    by (cases a; cases b) (simp_all add: less_eq_lifecycle_def)
qed (auto simp: less_eq_lifecycle_def less_lifecycle_def)
end

lemma lifecycle_le [simp]: "Warm \<le> s" "s \<le> Killed" "Killed \<le> s \<longleftrightarrow> s = Killed" "s \<le> Warm \<longleftrightarrow> s = Warm"
  by (cases s; simp add: less_eq_lifecycle_def)+

definition gate_le :: "gate \<Rightarrow> gate \<Rightarrow> bool" where
  "gate_le g g' \<longleftrightarrow> gt_state g \<le> gt_state g' \<and> (gt_token g \<noteq> [] \<longrightarrow> gt_token g' = gt_token g)"

lemma check_auth_le: "gate_le g (fst (check_auth tok g))"
  by (simp add: check_auth_def gate_le_def)

lemma check_lifecycle_le: "gate_le g (fst (check_lifecycle path g))"
  by (cases "gt_state g") (simp_all add: check_lifecycle_def gate_le_def)

lemma gate_le_trans: "gate_le a b \<Longrightarrow> gate_le b c \<Longrightarrow> gate_le a c"
  by (auto simp: gate_le_def)

lemma check_le: "gate_le g (fst (check path tok g))"
  using check_auth_le [of g tok] check_lifecycle_le [of "fst (check_auth tok g)" path]
  by (auto simp: check_def split: prod.splits dest: gate_le_trans)

lemma gate_do_le: "gate_le g (fst (gate_do c g))"
proof (cases c)
  case (Check path tok)
  then show ?thesis using check_le [of g path tok] by (auto split: prod.splits)
next
  case (Auth tok)
  then show ?thesis using check_auth_le [of g tok] by (auto simp: require_auth_def split: prod.splits)
next
  case Kill
  then show ?thesis by (simp add: mark_killed_def gate_le_def)
qed

interpretation gate_calls: step_system gate_step "\<lambda>_. True" gate_le
  by unfold_locales (auto elim!: gate_step.cases intro: gate_do_le gate_le_trans simp: gate_le_def [of g g for g])

lemma check_cases:
  "snd (snd (snd (check path tok g))) \<longleftrightarrow>
     tok \<noteq> [] \<and> (gt_token g = [] \<or> gt_token g = tok) \<and>
     (case gt_state g of Killed \<Rightarrow> False | Active \<Rightarrow> path \<noteq> ''/restore'' | Warm \<Rightarrow> path \<noteq> ''/snapshot'')"
  by (cases "gt_state g") (auto simp: check_def check_auth_def check_lifecycle_def)

lemma check_pass_token:
  "snd (gate_do (Check path tok) g) \<Longrightarrow> tok \<noteq> [] \<and> gt_token (fst (gate_do (Check path tok) g)) = tok"
  by (auto simp: check_def check_auth_def check_lifecycle_def split: if_splits lifecycle.splits prod.splits)

section \<open>Properties\<close>

text \<open>
  The verdict of the gate, exactly: a call passes when its token is not empty and is the
  locked one (or takes the lock), and the lifecycle allows its path: nothing once killed, no restore
  once active, no snapshot while warm. A refusal says which: 401 or 403 for the token, else 410, and
  never moves the lifecycle.
\<close>

theorem gate_verdict:
  "case check path tok g of (g', status, msg, ok) \<Rightarrow>
     (ok \<longleftrightarrow> tok \<noteq> [] \<and> (gt_token g = [] \<or> gt_token g = tok) \<and>
        (case gt_state g of Killed \<Rightarrow> False | Active \<Rightarrow> path \<noteq> ''/restore'' | Warm \<Rightarrow> path \<noteq> ''/snapshot'')) \<and>
     gt_state g' = (if ok \<and> gt_state g = Warm \<and> path \<noteq> ''/restore'' then Active else gt_state g) \<and>
     gt_token g' = (if tok \<noteq> [] \<and> gt_token g = [] then tok else gt_token g) \<and>
     status = (if ok then 0 else if tok = [] then 401 else if gt_token g \<notin> {[], tok} then 403 else 410)"
  by (cases "gt_state g") (auto simp: check_def check_auth_def check_lifecycle_def)



end
