(* ===== verification/Audit_Log.thy ===== *)
theory Audit_Log imports Go_Json begin

text \<open>
  \<open>api-server/audit.go\<close>: the append-only, tamper-evident chain of everything the sandbox did.
  Every operation runs under the log's mutex, so each is one atomic function on the state. What a
  call reads from outside (the clock, fresh salts) is its \<open>tick\<close> argument; the hash, hexadecimal
  SHA-256 in the code, is the argument \<open>H\<close>. The theory ends with the step relation of a log
  shared by concurrent callers, who hold reservations, and with the chain as a verifier replays it.
\<close>

section \<open>Data\<close>

text \<open>\<open>Body\<close> is a raw JSON text, embedded as it is; the fields are in serialization order.\<close>

record entry =
  en_seq :: int
  en_ts :: string
  en_type :: string
  en_salt :: string
  en_prev :: string
  en_body :: string

record log_record =
  rec_raw :: string
  rec_hash :: string

record audit_log =
  al_records :: "log_record list"
  al_head :: string
  al_bytes :: int
  al_saturated :: bool
  al_segment :: string
  al_started :: string
  al_max_entries :: int
  al_max_bytes :: int
  al_reserved_entries :: int
  al_reserved_bytes :: int
  al_seal_pending :: bool

text \<open>A reservation: whether its \<open>sync.Once\<close> has fired. There is one log, so no pointer to it.\<close>

record reservation =
  res_done :: bool

record tick =
  tk_now :: string
  tk_retry_now :: string
  tk_retry_salt :: string
  tk_seal_now :: string
  tk_seal_salt :: string

definition reserved_completion_bytes :: int where
  [go_eval]: "reserved_completion_bytes = 16384"

definition new_audit_log :: "string \<Rightarrow> string \<Rightarrow> audit_log" where
  [go_eval]: "new_audit_log segment now = \<lparr>al_records = [], al_head = [], al_bytes = 0,
     al_saturated = False, al_segment = segment, al_started = now,
     al_max_entries = 50000, al_max_bytes = 67108864,
     al_reserved_entries = 0, al_reserved_bytes = 0, al_seal_pending = False\<rparr>"

section \<open>Payload hashes\<close>

definition salt_hash :: "(string \<Rightarrow> string) \<Rightarrow> string \<Rightarrow> string \<Rightarrow> string" where
  [go_eval]: "salt_hash H salt data = H (salt @ data)"

text \<open>A \<open>HashCounter\<close>: what its hash object has been fed, and the count of payload bytes.\<close>

record hash_counter =
  hc_fed :: string
  hc_n :: int

definition hasher :: "string \<Rightarrow> hash_counter" where
  [go_eval]: "hasher salt = \<lparr>hc_fed = salt, hc_n = 0\<rparr>"

definition hc_write :: "hash_counter \<Rightarrow> string \<Rightarrow> hash_counter" where
  [go_eval]: "hc_write hc p = \<lparr>hc_fed = hc_fed hc @ p, hc_n = hc_n hc + int (length p)\<rparr>"

definition hc_sum :: "(string \<Rightarrow> string) \<Rightarrow> hash_counter \<Rightarrow> string" where
  [go_eval]: "hc_sum H hc = H (hc_fed hc)"

definition hc_count :: "hash_counter \<Rightarrow> int" where
  [go_eval]: "hc_count hc = hc_n hc"

section \<open>Building and appending entries\<close>

definition entry_json :: "entry \<Rightarrow> json" where
  [go_eval]: "entry_json e = JObj
     [(''seq'', JInt (en_seq e)), (''ts'', JStr (en_ts e)), (''type'', JStr (en_type e)),
      (''salt'', JStr (en_salt e)), (''prev'', JStr (en_prev e)), (''body'', JRaw (en_body e))]"

definition build :: "(string \<Rightarrow> string) \<Rightarrow> string \<Rightarrow> string \<Rightarrow> string \<Rightarrow> json \<Rightarrow> audit_log \<Rightarrow> string + string \<times> string" where
  [go_eval]: "build H now typ salt body l =
     (case json_marshal body of
        Inl e \<Rightarrow> Inl (''marshaling '' @ typ @ '' body: '' @ e)
      | Inr body_json \<Rightarrow>
          (case json_marshal (entry_json
                  \<lparr>en_seq = int (length (al_records l)), en_ts = now, en_type = typ,
                   en_salt = hex_encode salt, en_prev = al_head l, en_body = body_json\<rparr>) of
             Inl e \<Rightarrow> Inl (''marshaling '' @ typ @ '' entry: '' @ e)
           | Inr raw \<Rightarrow> Inr (raw, H raw)))"

definition append_record :: "string \<Rightarrow> string \<Rightarrow> audit_log \<Rightarrow> audit_log" where
  [go_eval]: "append_record raw h l =
     l\<lparr>al_records := al_records l @ [\<lparr>rec_raw = raw, rec_hash = h\<rparr>], al_head := h,
       al_bytes := al_bytes l + int (length raw)\<rparr>"

definition at_capacity :: "audit_log \<Rightarrow> bool" where
  [go_eval]: "at_capacity l \<longleftrightarrow>
     int (length (al_records l)) + al_reserved_entries l \<ge> al_max_entries l \<or>
     al_bytes l + al_reserved_bytes l \<ge> al_max_bytes l"

text \<open>\<open>uint64(len - 1)\<close> wraps on an empty log.\<close>

definition seal_body :: "audit_log \<Rightarrow> json" where
  [go_eval]: "seal_body l = JObj
     [(''after_seq'', JInt ((int (length (al_records l)) - 1) mod 2 ^ 64)),
      (''entries'', JInt (int (length (al_records l)))),
      (''bytes'', JInt (al_bytes l)),
      (''reason'', JStr ''entry or byte cap reached; egress refused from here on'')]"

definition seal :: "(string \<Rightarrow> string) \<Rightarrow> tick \<Rightarrow> audit_log \<Rightarrow> audit_log" where
  [go_eval]: "seal H tk l =
     (if al_reserved_entries l > 0 then l\<lparr>al_saturated := True, al_seal_pending := True\<rparr>
      else
        let body = (case json_marshal (seal_body l) of Inl _ \<Rightarrow> [] | Inr b \<Rightarrow> b) in
        (case json_marshal (entry_json
                \<lparr>en_seq = int (length (al_records l)), en_ts = tk_seal_now tk, en_type = ''log.saturated'',
                 en_salt = hex_encode (tk_seal_salt tk), en_prev = al_head l, en_body = body\<rparr>) of
           Inl _ \<Rightarrow> l\<lparr>al_saturated := True\<rparr>
         | Inr raw \<Rightarrow>
             (append_record raw (H raw) l)\<lparr>al_saturated := True, al_seal_pending := False\<rparr>))"

definition update_saturation :: "(string \<Rightarrow> string) \<Rightarrow> tick \<Rightarrow> audit_log \<Rightarrow> audit_log" where
  [go_eval]: "update_saturation H tk l =
     (if \<not> at_capacity l then l
      else
        let l1 = l\<lparr>al_saturated := True\<rparr> in
        if al_reserved_entries l1 > 0 then l1\<lparr>al_seal_pending := True\<rparr>
        else seal H tk l1)"

section \<open>The operations\<close>

text \<open>The new state, the head the call returns, and its error.\<close>

definition append_log :: "(string \<Rightarrow> string) \<Rightarrow> tick \<Rightarrow> string \<Rightarrow> string \<Rightarrow> json \<Rightarrow> audit_log \<Rightarrow>
    audit_log \<times> string \<times> string option" where
  [go_eval]: "append_log H tk typ salt body l =
     (if al_saturated l then (l, al_head l, Some ''audit log saturated'')
      else
        (case build H (tk_now tk) typ salt body l of
           Inl e \<Rightarrow> (l, al_head l, Some e)
         | Inr (raw, h) \<Rightarrow>
             let l2 = update_saturation H tk (append_record raw h l) in (l2, al_head l2, None)))"

definition admit :: "(string \<Rightarrow> string) \<Rightarrow> tick \<Rightarrow> string \<Rightarrow> string \<Rightarrow> json \<Rightarrow> audit_log \<Rightarrow>
    audit_log \<times> (string + reservation)" where
  [go_eval]: "admit H tk typ salt body l =
     (if al_saturated l then (l, Inl ''audit log saturated'')
      else
        (case build H (tk_now tk) typ salt body l of
           Inl e \<Rightarrow> (l, Inl e)
         | Inr (raw, h) \<Rightarrow>
             if int (length (al_records l)) + al_reserved_entries l + 2 > al_max_entries l \<or>
                al_bytes l + al_reserved_bytes l + int (length raw) + reserved_completion_bytes > al_max_bytes l
             then (seal H tk l, Inl ''audit log has no capacity for action completion'')
             else
               let l1 = append_record raw h l;
                   l2 = l1\<lparr>al_reserved_entries := al_reserved_entries l1 + 1,
                           al_reserved_bytes := al_reserved_bytes l1 + reserved_completion_bytes\<rparr>
               in (update_saturation H tk l2, Inr \<lparr>res_done = False\<rparr>)))"

definition complete :: "(string \<Rightarrow> string) \<Rightarrow> tick \<Rightarrow> string \<Rightarrow> string \<Rightarrow> json \<Rightarrow> reservation \<Rightarrow> audit_log \<Rightarrow>
    audit_log \<times> reservation \<times> string option" where
  [go_eval]: "complete H tk typ salt body r l =
     (if res_done r then (l, r, None)
      else
        let (l1, err) =
              (case build H (tk_now tk) typ salt body l of
                 Inl e \<Rightarrow>
                   let (raw, h) =
                         (case build H (tk_retry_now tk) typ (tk_retry_salt tk)
                                 (JObj [(''audit_error'', JStr e)]) l of
                            Inl _ \<Rightarrow> ([], []) | Inr p \<Rightarrow> p)
                   in (append_record raw h l, Some e)
               | Inr (raw, h) \<Rightarrow> (append_record raw h l, None));
            l2 = l1\<lparr>al_reserved_entries := al_reserved_entries l1 - 1,
                    al_reserved_bytes := al_reserved_bytes l1 - reserved_completion_bytes\<rparr>;
            l3 = (if al_reserved_entries l2 = 0 \<and> (al_seal_pending l2 \<or> at_capacity l2)
                  then seal H tk l2 else l2)
        in (l3, r\<lparr>res_done := True\<rparr>, err))"

definition log_saturated :: "audit_log \<Rightarrow> bool" where
  [go_eval]: "log_saturated l = al_saturated l"

definition log_head :: "audit_log \<Rightarrow> string \<times> int" where
  [go_eval]: "log_head l = (al_head l, int (length (al_records l)))"

definition segment_id :: "audit_log \<Rightarrow> string" where
  [go_eval]: "segment_id l = al_segment l"

definition started_at :: "audit_log \<Rightarrow> string" where
  [go_eval]: "started_at l = al_started l"

definition log_range :: "int \<Rightarrow> int \<Rightarrow> audit_log \<Rightarrow> string list" where
  [go_eval]: "log_range from0 to0 l =
     (let n = int (length (al_records l));
          from = (if from0 < 0 then 0 else from0);
          to = (if to0 \<le> 0 \<or> to0 > n then n else to0)
      in if from \<ge> to then []
         else map rec_raw (drop (nat from) (take (nat to) (al_records l))))"

text \<open>\<open>prev_checkpoint\<close> is \<open>omitempty\<close>: a raw message of length 0 is left out.\<close>

definition resume_body :: "string \<Rightarrow> string \<Rightarrow> string \<Rightarrow> audit_log \<Rightarrow> json" where
  [go_eval]: "resume_body prev_seg prev_head prev_cp l = JObj
     ([(''prev_segment_id'', JStr prev_seg), (''prev_head'', JStr prev_head)] @
      (if prev_cp = [] then [] else [(''prev_checkpoint'', JRaw prev_cp)]) @
      [(''segment_id'', JStr (al_segment l))])"

definition adopt_segment :: "(string \<Rightarrow> string) \<Rightarrow> tick \<Rightarrow> string \<Rightarrow> string \<Rightarrow> string \<Rightarrow> string \<Rightarrow> audit_log \<Rightarrow>
    audit_log \<times> string option" where
  [go_eval]: "adopt_segment H tk salt prev_seg prev_head prev_cp l =
     (if al_records l \<noteq> []
      then (l, Some (''cannot resume: chain already has '' @ itoa (int (length (al_records l))) @ '' entries''))
      else
        let (l1, _, err) = append_log H tk ''session.resume'' salt (resume_body prev_seg prev_head prev_cp l) l
        in (l1, err))"

end
