(* ===== verification/Transcript.thy ===== *)
theory Transcript imports Audit_Log begin

text \<open>
  The chain as a reader of \<open>/audit/log\<close> sees it: one line per entry, read back to the entry it was
  printed from, and replayed as a verifier does (the \<open>replay\<close> of \<open>api-server/audit_test.go\<close> and
  the header of \<open>audit.go\<close>): every \<open>prev\<close> must be the hash of the line before. The locale is
  what a chain of hashes promises; it is interpreted on this one.
\<close>

section \<open>Reading an entry\<close>

definition strip :: "string \<Rightarrow> string \<Rightarrow> string option" where
  [go_eval]: "strip p s = (if prefix p s then Some (drop (length p) s) else None)"

definition json_key :: "string \<Rightarrow> string" where
  [go_eval]: "json_key k = json_quote k @ '':''"

definition read_entry :: "string \<Rightarrow> entry option" where
  [go_eval]: "read_entry s =
     Option.bind (strip (''{'' @ json_key ''seq'') s) (\<lambda>s.
       let ds = takeWhile is_digit s in
       Option.bind (strip ('','' @ json_key ''ts'') (dropWhile is_digit s)) (\<lambda>s.
       Option.bind (read_string s) (\<lambda>(ts, s).
       Option.bind (strip ('','' @ json_key ''type'') s) (\<lambda>s.
       Option.bind (read_string s) (\<lambda>(typ, s).
       Option.bind (strip ('','' @ json_key ''salt'') s) (\<lambda>s.
       Option.bind (read_string s) (\<lambda>(salt, s).
       Option.bind (strip ('','' @ json_key ''prev'') s) (\<lambda>s.
       Option.bind (read_string s) (\<lambda>(prev, s).
       Option.bind (strip ('','' @ json_key ''body'') s) (\<lambda>s.
         if ds = [] \<or> s = [] \<or> last s \<noteq> CHR ''}'' then None
         else Some \<lparr>en_seq = int (digits_val ds), en_ts = ts, en_type = typ, en_salt = salt,
                    en_prev = prev, en_body = butlast s\<rparr>))))))))))"

definition entry_text :: "entry \<Rightarrow> string" where
  "entry_text e =
     ''{'' @ json_key ''seq'' @ itoa (en_seq e) @ '','' @ json_key ''ts'' @ json_quote (en_ts e) @
     '','' @ json_key ''type'' @ json_quote (en_type e) @ '','' @ json_key ''salt'' @ json_quote (en_salt e) @
     '','' @ json_key ''prev'' @ json_quote (en_prev e) @
     '','' @ json_key ''body'' @ (if en_body e = [] then ''null'' else json_compact False (en_body e)) @ ''}''"

lemma marshal_entry: "json_marshal (entry_json e) = Inr (entry_text e)"
  by (simp add: entry_json_def entry_text_def json_member_def json_key_def)

lemma strip_append [simp]: "strip p (p @ s) = Some s"
  by (simp add: strip_def)

lemma strip_Cons_append [simp]: "strip (c # p) (c # p @ s) = Some s"
  by (simp add: strip_def)

lemma takeWhile_itoa:
  "takeWhile is_digit (nat_digits n @ CHR '','' # s) = nat_digits n"
  "dropWhile is_digit (nat_digits n @ CHR '','' # s) = CHR '','' # s"
proof -
  have "\<not> is_digit CHR '',''" by code_simp
  then show "takeWhile is_digit (nat_digits n @ CHR '','' # s) = nat_digits n"
    "dropWhile is_digit (nat_digits n @ CHR '','' # s) = CHR '','' # s"
    using nat_digits_digits by (simp_all add: takeWhile_append2 dropWhile_append2)
qed

lemma read_entry_text:
  assumes "0 \<le> en_seq e"
  shows "read_entry (entry_text e) =
    Some (e\<lparr>en_body := if en_body e = [] then ''null'' else json_compact False (en_body e)\<rparr>)"
proof -
  define n where "n = nat (en_seq e)"
  have n: "itoa (en_seq e) = nat_digits n" "int n = en_seq e" using assms by (simp_all add: itoa_def n_def)
  show ?thesis
    by (cases e) (use n in \<open>simp add: read_entry_def entry_text_def takeWhile_itoa butlast_append Let_def\<close>)
qed

section \<open>Replaying a chain\<close>

text \<open>
  A verifier absorbs the lines in order, from the empty head. What the chain promises: from the
  final head there is only one way back, unless the hash itself is broken on lines in hand.
\<close>

locale hash_chain =
  fixes absorb :: "'h \<Rightarrow> 'line \<Rightarrow> 'h option"
    and genesis :: 'h
    and broken :: "'line \<Rightarrow> 'line \<Rightarrow> bool"
  assumes absorb_inj: "absorb p x = Some h \<Longrightarrow> absorb q y = Some h \<Longrightarrow> \<not> broken x y \<Longrightarrow> p = q \<and> x = y"
    and absorb_genesis: "absorb p x = Some genesis \<Longrightarrow> broken x x"
begin

definition absorbs :: "'line list \<Rightarrow> 'h option" where
  "absorbs ls = foldl (\<lambda>acc x. Option.bind acc (\<lambda>p. absorb p x)) (Some genesis) ls"

lemma absorbs_snoc: "absorbs (ls @ [x]) = Option.bind (absorbs ls) (\<lambda>p. absorb p x)"
  by (simp add: absorbs_def)

lemma absorbs_Nil: "absorbs [] = Some genesis"
  by (simp add: absorbs_def)

lemma absorbs_nonempty: "absorbs (ls @ [x]) = Some genesis \<Longrightarrow> broken x x"
  by (auto simp: absorbs_snoc bind_eq_Some_conv dest: absorb_genesis)

lemma one_history:
  assumes "absorbs ls = Some h" and "absorbs ms = Some h"
    and "\<forall>x \<in> set (ls @ ms). \<forall>y \<in> set (ls @ ms). \<not> broken x y"
  shows "ls = ms"
  using assms
proof (induction ls arbitrary: ms h rule: rev_induct)
  case Nil
  then show ?case using absorbs_nonempty by (cases ms rule: rev_cases) (auto simp: absorbs_Nil)
next
  case (snoc x ls)
  show ?case
  proof (cases ms rule: rev_cases)
    case Nil
    with snoc show ?thesis using absorbs_nonempty [of ls x] by (auto simp: absorbs_Nil)
  next
    case (snoc ms' y)
    with snoc.prems obtain p q where p: "absorbs ls = Some p" "absorb p x = Some h"
        and q: "absorbs ms' = Some q" "absorb q y = Some h"
      by (auto simp: absorbs_snoc bind_eq_Some_conv)
    have "p = q \<and> x = y" using absorb_inj [OF p(2) q(2)] snoc.prems(3) snoc by simp
    with snoc.IH [OF p(1), of ms'] q(1) snoc.prems(3) snoc show ?thesis by simp
  qed
qed

end

definition read_prev :: "string \<Rightarrow> string option" where
  [go_eval]: "read_prev line = map_option en_prev (read_entry line)"

definition absorb_line :: "(string \<Rightarrow> string) \<Rightarrow> string \<Rightarrow> string \<Rightarrow> string option" where
  [go_eval]: "absorb_line H p line = (if read_prev line = Some p then Some (H line) else None)"

definition replay :: "(string \<Rightarrow> string) \<Rightarrow> string list \<Rightarrow> string option" where
  [go_eval]: "replay H ls = foldl (\<lambda>acc x. Option.bind acc (\<lambda>p. absorb_line H p x)) (Some []) ls"

text \<open>The two ways a hash can fail on two lines: it is empty, or it does not tell them apart.\<close>

definition hash_broken :: "(string \<Rightarrow> string) \<Rightarrow> string \<Rightarrow> string \<Rightarrow> bool" where
  [go_eval]: "hash_broken H x y \<longleftrightarrow> H x = [] \<or> x \<noteq> y \<and> H x = H y"

interpretation chain: hash_chain "absorb_line H" "[]" "hash_broken H"
  rewrites "hash_chain.absorbs (absorb_line H) [] = replay H" for H
proof -
  show c: "hash_chain (absorb_line H) [] (hash_broken H)"
    by unfold_locales (auto simp: absorb_line_def hash_broken_def split: if_splits)
  show "hash_chain.absorbs (absorb_line H) [] = replay H"
    by (rule ext) (simp add: hash_chain.absorbs_def [OF c] replay_def)
qed

lemmas replay_snoc = chain.absorbs_snoc and replay_Nil = chain.absorbs_Nil

section \<open>What every operation does to the chain\<close>

definition next_entry :: "audit_log \<Rightarrow> entry \<Rightarrow> bool" where
  "next_entry l e \<longleftrightarrow> en_seq e = int (length (al_records l)) \<and> en_prev e = al_head l"

definition extend_log :: "(string \<Rightarrow> string) \<Rightarrow> entry \<Rightarrow> audit_log \<Rightarrow> audit_log" where
  "extend_log H e l = append_record (entry_text e) (H (entry_text e)) l"

text \<open>The chain part of the state: it replays to its head, and its book-keeping is right.\<close>

definition chain_ok :: "(string \<Rightarrow> string) \<Rightarrow> audit_log \<Rightarrow> bool" where
  "chain_ok H l \<longleftrightarrow>
     replay H (map rec_raw (al_records l)) = Some (al_head l) \<and>
     (\<forall>r \<in> set (al_records l). rec_hash r = H (rec_raw r)) \<and>
     al_bytes l = int (sum_list (map (\<lambda>r. length (rec_raw r)) (al_records l))) \<and>
     map (\<lambda>r. map_option en_seq (read_entry (rec_raw r))) (al_records l) =
       map (\<lambda>i. Some (int i)) [0..<length (al_records l)]"

lemma chain_ok_flags [simp]:
  "chain_ok H (al_saturated_update f l) = chain_ok H l"
  "chain_ok H (al_seal_pending_update f l) = chain_ok H l"
  "chain_ok H (al_reserved_entries_update g l) = chain_ok H l"
  "chain_ok H (al_reserved_bytes_update g l) = chain_ok H l"
  by (simp_all add: chain_ok_def)

lemma extend_log_fields [simp]:
  "al_records (extend_log H e l) = al_records l @ [\<lparr>rec_raw = entry_text e, rec_hash = H (entry_text e)\<rparr>]"
  "al_head (extend_log H e l) = H (entry_text e)"
  "al_bytes (extend_log H e l) = al_bytes l + int (length (entry_text e))"
  "al_saturated (extend_log H e l) = al_saturated l"
  "al_segment (extend_log H e l) = al_segment l"
  "al_max_entries (extend_log H e l) = al_max_entries l"
  "al_max_bytes (extend_log H e l) = al_max_bytes l"
  "al_reserved_entries (extend_log H e l) = al_reserved_entries l"
  "al_reserved_bytes (extend_log H e l) = al_reserved_bytes l"
  "al_seal_pending (extend_log H e l) = al_seal_pending l"
  by (simp_all add: extend_log_def append_record_def)

lemma chain_ok_extend:
  assumes "chain_ok H l" and "next_entry l e"
  shows "chain_ok H (extend_log H e l)"
proof -
  have r: "read_entry (entry_text e) =
      Some (e\<lparr>en_body := if en_body e = [] then ''null'' else json_compact False (en_body e)\<rparr>)"
    using assms(2) by (intro read_entry_text) (simp add: next_entry_def)
  then have "read_prev (entry_text e) = Some (al_head l)" using assms(2) by (simp add: read_prev_def next_entry_def)
  with r assms show ?thesis by (auto simp: chain_ok_def replay_snoc absorb_line_def next_entry_def)
qed

lemma build_Inr:
  assumes "build H now typ salt body l = Inr (raw, h)"
  obtains e where "raw = entry_text e" "h = H raw" "next_entry l e" "en_type e = typ" "en_ts e = now"
    "en_salt e = hex_encode salt" "json_marshal body = Inr (en_body e)"
proof -
  from assms obtain b where b: "json_marshal body = Inr b" by (auto simp: build_def split: sum.splits)
  with assms show thesis
    by (intro that [of "\<lparr>en_seq = int (length (al_records l)), en_ts = now, en_type = typ,
          en_salt = hex_encode salt, en_prev = al_head l, en_body = b\<rparr>"])
      (auto simp: build_def marshal_entry next_entry_def)
qed

lemma build_Inl: "(\<exists>e. build H now typ salt body l = Inl e) \<longleftrightarrow> \<not> json_ok body"
  by (auto simp: build_def marshal_entry json_marshal_ok split: sum.splits)

end
