(* ===== verification/Audit_Chain.thy ===== *)
theory Audit_Chain imports Transcript begin

text \<open>
  The audit log as a shared object: its step relation, the invariant every operation keeps, and the
  properties of \<open>audit.go\<close>. A state is the log and the reservations handed out so far; a step
  is one call of one of the concurrent callers, atomic under the mutex, with any arguments.
\<close>

section \<open>The invariant\<close>

definition sealed :: "audit_log \<Rightarrow> bool" where
  [go_eval]: "sealed l \<longleftrightarrow> al_saturated l \<and> \<not> al_seal_pending l"

definition last_type :: "audit_log \<Rightarrow> string option" where
  [go_eval]: "last_type l =
     (if al_records l = [] then None else map_option en_type (read_entry (rec_raw (last (al_records l)))))"

definition log_ok :: "(string \<Rightarrow> string) \<Rightarrow> audit_log \<Rightarrow> bool" where
  "log_ok H l \<longleftrightarrow> chain_ok H l \<and>
     0 \<le> al_reserved_entries l \<and>
     al_reserved_bytes l = al_reserved_entries l * reserved_completion_bytes \<and>
     (al_seal_pending l \<longleftrightarrow> al_saturated l \<and> 0 < al_reserved_entries l) \<and>
     int (length (al_records l)) + al_reserved_entries l \<le>
       al_max_entries l + (if sealed l then 1 else if al_saturated l then 0 else - 1) \<and>
     (sealed l \<longrightarrow> last_type l = Some ''log.saturated'')"

lemma last_type_extend [simp]:
  assumes "next_entry l e"
  shows "last_type (extend_log H e l) = Some (en_type e)"
    "last_type (extend_log H e l\<lparr>al_saturated := b, al_seal_pending := c\<rparr>) = Some (en_type e)"
  using assms read_entry_text [of e] by (simp_all add: last_type_def next_entry_def)

lemma new_log_ok: "log_ok H (new_audit_log seg now)"
  by (simp add: log_ok_def chain_ok_def new_audit_log_def replay_Nil sealed_def)

text \<open>Sealing appends the terminal entry when no completion is outstanding, and only marks the log otherwise.\<close>

lemma seal_cases:
  obtains (Pending) "0 < al_reserved_entries l" "seal H tk l = l\<lparr>al_saturated := True, al_seal_pending := True\<rparr>"
    | (Sealed) e where "al_reserved_entries l \<le> 0" "next_entry l e" "en_type e = ''log.saturated''"
        "seal H tk l = (extend_log H e l)\<lparr>al_saturated := True, al_seal_pending := False\<rparr>"
proof (cases "0 < al_reserved_entries l")
  case True
  then show ?thesis by (intro Pending) (simp_all add: seal_def)
next
  case False
  define b where "b = (case json_marshal (seal_body l) of Inl _ \<Rightarrow> [] | Inr b \<Rightarrow> b)"
  from False show ?thesis
    by (intro Sealed [of "\<lparr>en_seq = int (length (al_records l)), en_ts = tk_seal_now tk,
          en_type = ''log.saturated'', en_salt = hex_encode (tk_seal_salt tk), en_prev = al_head l, en_body = b\<rparr>"])
      (simp_all add: seal_def Let_def marshal_entry extend_log_def next_entry_def b_def [symmetric])
qed

text \<open>A log about to be sealed: within its entry cap, every reservation counted.\<close>

lemma seal_ok:
  assumes "chain_ok H l" and "0 \<le> al_reserved_entries l"
    and "al_reserved_bytes l = al_reserved_entries l * reserved_completion_bytes"
    and "int (length (al_records l)) + al_reserved_entries l \<le> al_max_entries l"
  shows "log_ok H (seal H tk l)"
proof (cases rule: seal_cases [of l H tk])
  case Pending
  with assms show ?thesis by (simp add: log_ok_def sealed_def)
next
  case (Sealed e)
  with assms chain_ok_extend [OF assms(1) Sealed(2), of] show ?thesis by (simp add: log_ok_def sealed_def)
qed

lemma update_saturation_seal:
  "update_saturation H tk l = (if at_capacity l then seal H tk (l\<lparr>al_saturated := True\<rparr>) else l)"
  by (auto simp: update_saturation_def seal_def Let_def)

lemma update_saturation_ok:
  assumes "chain_ok H l" and "0 \<le> al_reserved_entries l" and "\<not> al_saturated l" "\<not> al_seal_pending l"
    and "al_reserved_bytes l = al_reserved_entries l * reserved_completion_bytes"
    and "int (length (al_records l)) + al_reserved_entries l \<le> al_max_entries l"
  shows "log_ok H (update_saturation H tk l)"
proof (cases "at_capacity l")
  case True
  have s: "log_ok H (seal H tk (l\<lparr>al_saturated := True\<rparr>))" using assms by (intro seal_ok) simp_all
  with True show ?thesis by (simp add: update_saturation_seal)
next
  case False
  with assms show ?thesis
    by (simp add: update_saturation_seal log_ok_def sealed_def at_capacity_def)
qed

lemma log_okD:
  assumes "log_ok H l"
  shows "chain_ok H l" "0 \<le> al_reserved_entries l"
    "al_reserved_bytes l = al_reserved_entries l * reserved_completion_bytes"
    "al_seal_pending l \<longleftrightarrow> al_saturated l \<and> 0 < al_reserved_entries l"
    "\<not> al_saturated l \<Longrightarrow> int (length (al_records l)) + al_reserved_entries l < al_max_entries l"
    "\<not> sealed l \<Longrightarrow> int (length (al_records l)) + al_reserved_entries l \<le> al_max_entries l"
    "int (length (al_records l)) + al_reserved_entries l \<le> al_max_entries l + 1"
    "sealed l \<Longrightarrow> last_type l = Some ''log.saturated''"
  using assms by (auto simp: log_ok_def sealed_def split: if_splits)

section \<open>Each operation, branch by branch\<close>

lemma append_cases:
  obtains (Refused) "al_saturated l" "append_log H tk typ salt body l = (l, al_head l, Some ''audit log saturated'')"
    | (Unmarshalled) m where "\<not> al_saturated l" "\<not> json_ok body" "append_log H tk typ salt body l = (l, al_head l, Some m)"
    | (Appended) e where "\<not> al_saturated l" "json_ok body" "next_entry l e" "en_type e = typ"
        "json_marshal body = Inr (en_body e)" "en_salt e = hex_encode salt"
        "append_log H tk typ salt body l = (update_saturation H tk (extend_log H e l),
           al_head (update_saturation H tk (extend_log H e l)), None)"
proof (cases "al_saturated l")
  case True
  then show ?thesis by (intro Refused) (simp_all add: append_log_def)
next
  case False
  show ?thesis
  proof (cases "build H (tk_now tk) typ salt body l")
    case (Inl m)
    then have "\<not> json_ok body" using build_Inl [of H "tk_now tk" "typ" salt body l] by blast
    with False Inl show ?thesis by (intro Unmarshalled [of m]) (simp_all add: append_log_def)
  next
    case (Inr p)
    then have j: "json_ok body" using build_Inl [of H "tk_now tk" "typ" salt body l] by force
    obtain raw h where p: "p = (raw, h)" by fastforce
    obtain e where e: "raw = entry_text e" "h = H raw" "next_entry l e" "en_type e = typ"
        "en_salt e = hex_encode salt" "json_marshal body = Inr (en_body e)"
      using Inr unfolding p by (rule build_Inr)
    have "append_log H tk typ salt body l = (update_saturation H tk (extend_log H e l),
        al_head (update_saturation H tk (extend_log H e l)), None)"
      using False Inr p e(1,2) by (simp add: append_log_def extend_log_def Let_def)
    from Appended [OF False j e(3,4,6,5) this] show ?thesis .
  qed
qed

lemma append_ok: "log_ok H l \<Longrightarrow> log_ok H (fst (append_log H tk typ salt body l))"
proof (cases rule: append_cases [of l H tk "typ" salt body])
  case (Appended e)
  assume "log_ok H l"
  note ok = log_okD [OF this]
  from Appended ok(1,2,3,4,5) chain_ok_extend [OF ok(1) Appended(3)] show ?thesis
    by (auto intro!: update_saturation_ok)
qed simp_all

definition reserve :: "audit_log \<Rightarrow> audit_log" where
  "reserve l = l\<lparr>al_reserved_entries := al_reserved_entries l + 1,
     al_reserved_bytes := al_reserved_bytes l + reserved_completion_bytes\<rparr>"

definition release :: "audit_log \<Rightarrow> audit_log" where
  "release l = l\<lparr>al_reserved_entries := al_reserved_entries l - 1,
     al_reserved_bytes := al_reserved_bytes l - reserved_completion_bytes\<rparr>"

definition admission_fits :: "entry \<Rightarrow> audit_log \<Rightarrow> bool" where
  "admission_fits e l \<longleftrightarrow> int (length (al_records l)) + al_reserved_entries l + 2 \<le> al_max_entries l \<and>
     al_bytes l + al_reserved_bytes l + int (length (entry_text e)) + reserved_completion_bytes \<le> al_max_bytes l"

lemma admit_cases:
  obtains (Refused) "al_saturated l" "admit H tk typ salt body l = (l, Inl ''audit log saturated'')"
    | (Unmarshalled) m where "\<not> al_saturated l" "\<not> json_ok body" "admit H tk typ salt body l = (l, Inl m)"
    | (Full) e where "\<not> al_saturated l" "json_ok body" "\<not> admission_fits e l"
        "admit H tk typ salt body l = (seal H tk l, Inl ''audit log has no capacity for action completion'')"
    | (Admitted) e where "\<not> al_saturated l" "json_ok body" "next_entry l e" "en_type e = typ"
        "json_marshal body = Inr (en_body e)" "en_salt e = hex_encode salt" "admission_fits e l"
        "admit H tk typ salt body l =
           (update_saturation H tk (reserve (extend_log H e l)), Inr \<lparr>res_done = False\<rparr>)"
proof (cases "al_saturated l")
  case True
  then show ?thesis by (intro Refused) (simp_all add: admit_def)
next
  case False
  show ?thesis
  proof (cases "build H (tk_now tk) typ salt body l")
    case (Inl m)
    then have "\<not> json_ok body" using build_Inl [of H "tk_now tk" "typ" salt body l] by blast
    with False Inl show ?thesis by (intro Unmarshalled [of m]) (simp_all add: admit_def)
  next
    case (Inr p)
    then have j: "json_ok body" using build_Inl [of H "tk_now tk" "typ" salt body l] by force
    obtain raw h where p: "p = (raw, h)" by fastforce
    obtain e where e: "raw = entry_text e" "h = H raw" "next_entry l e" "en_type e = typ"
        "en_salt e = hex_encode salt" "json_marshal body = Inr (en_body e)"
      using Inr unfolding p by (rule build_Inr)
    show ?thesis
    proof (cases "admission_fits e l")
      case True
      then have "admit H tk typ salt body l =
          (update_saturation H tk (reserve (extend_log H e l)), Inr \<lparr>res_done = False\<rparr>)"
        using False Inr p e(1,2) by (simp add: admit_def extend_log_def Let_def admission_fits_def reserve_def)
      from Admitted [OF False j e(3,4,6,5) True this] show ?thesis .
    next
      case nofit: False
      then have "admit H tk typ salt body l = (seal H tk l, Inl ''audit log has no capacity for action completion'')"
        using False Inr p e(1,2) by (auto simp: admit_def Let_def admission_fits_def)
      from Full [OF False j nofit this] show ?thesis .
    qed
  qed
qed

lemma reserve_fields [simp]:
  "al_records (reserve l) = al_records l" "al_saturated (reserve l) = al_saturated l"
  "al_seal_pending (reserve l) = al_seal_pending l" "al_max_entries (reserve l) = al_max_entries l"
  "al_reserved_entries (reserve l) = al_reserved_entries l + 1" "al_head (reserve l) = al_head l"
  "al_reserved_bytes (reserve l) = al_reserved_bytes l + reserved_completion_bytes"
  "chain_ok H (reserve l) = chain_ok H l"
  by (simp_all add: reserve_def)

lemma release_fields [simp]:
  "al_records (release l) = al_records l" "al_saturated (release l) = al_saturated l"
  "al_seal_pending (release l) = al_seal_pending l" "al_max_entries (release l) = al_max_entries l"
  "al_reserved_entries (release l) = al_reserved_entries l - 1" "al_head (release l) = al_head l"
  "al_reserved_bytes (release l) = al_reserved_bytes l - reserved_completion_bytes"
  "chain_ok H (release l) = chain_ok H l"
  by (simp_all add: release_def)

lemma admit_ok: "log_ok H l \<Longrightarrow> log_ok H (fst (admit H tk typ salt body l))"
proof (cases rule: admit_cases [of l H tk "typ" salt body])
  case (Full e)
  assume "log_ok H l"
  note ok = log_okD [OF this]
  with Full show ?thesis by (auto intro!: seal_ok)
next
  case (Admitted e)
  assume "log_ok H l"
  note ok = log_okD [OF this]
  from Admitted ok(1,2,3,4) chain_ok_extend [OF ok(1) Admitted(3)] show ?thesis
    by (auto intro!: update_saturation_ok simp: algebra_simps admission_fits_def)
qed simp_all

lemma complete_done: "res_done r \<Longrightarrow> complete H tk typ salt body r l = (l, r, None)"
  by (simp add: complete_def)

text \<open>A first completion always lands: its entry, or one that carries the marshalling error.\<close>

lemma complete_lands:
  assumes "\<not> res_done r"
  obtains e err where "next_entry l e" "en_type e = typ"
    "json_ok body \<longrightarrow> err = None \<and> json_marshal body = Inr (en_body e) \<and> en_salt e = hex_encode salt"
    "complete H tk typ salt body r l =
       ((let l2 = release (extend_log H e l) in
         if al_reserved_entries l2 = 0 \<and> (al_seal_pending l2 \<or> at_capacity l2) then seal H tk l2 else l2),
        r\<lparr>res_done := True\<rparr>, err)"
proof (cases "build H (tk_now tk) typ salt body l")
  case (Inl m)
  then have j: "\<not> json_ok body" using build_Inl [of H "tk_now tk" "typ" salt body l] by blast
  obtain raw h where p: "build H (tk_retry_now tk) typ (tk_retry_salt tk) (JObj [(''audit_error'', JStr m)]) l = Inr (raw, h)"
    using build_Inl [of H "tk_retry_now tk" "typ" "tk_retry_salt tk" "JObj [(''audit_error'', JStr m)]" l]
    by (cases "build H (tk_retry_now tk) typ (tk_retry_salt tk) (JObj [(''audit_error'', JStr m)]) l") auto
  from p obtain e where e: "raw = entry_text e" "h = H raw" "next_entry l e" "en_type e = typ"
    by (rule build_Inr)
  from j assms show ?thesis
    by (intro that [OF e(3,4), of "Some m"])
      (simp_all add: complete_def Inl p e(1,2) extend_log_def release_def Let_def)
next
  case (Inr p)
  obtain raw h where p: "p = (raw, h)" by fastforce
  obtain e where e: "raw = entry_text e" "h = H raw" "next_entry l e" "en_type e = typ"
      "en_salt e = hex_encode salt" "json_marshal body = Inr (en_body e)"
    using Inr unfolding p by (rule build_Inr)
  from assms e(5,6) show ?thesis
    by (intro that [OF e(3,4), of None])
      (simp_all add: complete_def Inr p e(1,2) extend_log_def release_def Let_def)
qed

lemma complete_ok:
  assumes "log_ok H l" and "\<not> res_done r" and "0 < al_reserved_entries l"
  shows "log_ok H (fst (complete H tk typ salt body r l))"
proof -
  note ok = log_okD [OF assms(1)]
  obtain e err where e: "next_entry l e" and c: "complete H tk typ salt body r l =
       ((let l2 = release (extend_log H e l) in
         if al_reserved_entries l2 = 0 \<and> (al_seal_pending l2 \<or> at_capacity l2) then seal H tk l2 else l2),
        r\<lparr>res_done := True\<rparr>, err)"
    by (rule complete_lands [OF assms(2)])
  define l2 where "l2 = release (extend_log H e l)"
  have ns: "\<not> sealed l" using ok(4) assms(3) by (auto simp: sealed_def)
  have f: "chain_ok H l2" "0 \<le> al_reserved_entries l2"
      "al_reserved_bytes l2 = al_reserved_entries l2 * reserved_completion_bytes"
      "int (length (al_records l2)) + al_reserved_entries l2 \<le> al_max_entries l2"
      "\<not> al_saturated l2 \<Longrightarrow> int (length (al_records l2)) + al_reserved_entries l2 < al_max_entries l2"
      "al_seal_pending l2 \<longleftrightarrow> al_saturated l2"
    using ok assms(3) ns chain_ok_extend [OF ok(1) e] by (simp_all add: l2_def algebra_simps)
  show ?thesis
  proof (cases "al_reserved_entries l2 = 0 \<and> (al_seal_pending l2 \<or> at_capacity l2)")
    case True
    with f show ?thesis by (simp add: c l2_def [symmetric] seal_ok)
  next
    case False
    with f have "log_ok H l2" by (auto simp: log_ok_def sealed_def)
    with False show ?thesis by (auto simp: c l2_def [symmetric])
  qed
qed

lemma adopt_segment_append:
  "adopt_segment H tk salt ps ph pc l =
     (if al_records l \<noteq> []
      then (l, Some (''cannot resume: chain already has '' @ itoa (int (length (al_records l))) @ '' entries''))
      else (fst (append_log H tk ''session.resume'' salt (resume_body ps ph pc l) l),
            snd (snd (append_log H tk ''session.resume'' salt (resume_body ps ph pc l) l))))"
  by (simp add: adopt_segment_def split: prod.splits)

section \<open>Concurrent callers\<close>

type_synonym audit_sys = "audit_log \<times> reservation list"

inductive audit_step :: "(string \<Rightarrow> string) \<Rightarrow> audit_sys \<Rightarrow> audit_sys \<Rightarrow> bool" for H where
  step_append: "audit_step H (l, rs) (fst (append_log H tk typ salt body l), rs)"
| step_admit: "admit H tk typ salt body l = (l', Inr r) \<Longrightarrow> audit_step H (l, rs) (l', rs @ [r])"
| step_refuse: "admit H tk typ salt body l = (l', Inl m) \<Longrightarrow> audit_step H (l, rs) (l', rs)"
| step_complete: "i < length rs \<Longrightarrow> complete H tk typ salt body (rs ! i) l = (l', r, m) \<Longrightarrow>
    audit_step H (l, rs) (l', rs[i := r])"
| step_adopt: "audit_step H (l, rs) (fst (adopt_segment H tk salt ps ph pc l), rs)"

inductive_cases audit_stepE: "audit_step H s t"

definition outstanding :: "reservation list \<Rightarrow> nat" where
  [go_eval]: "outstanding rs = length (filter (\<lambda>r. \<not> res_done r) rs)"

definition sys_ok :: "(string \<Rightarrow> string) \<Rightarrow> audit_sys \<Rightarrow> bool" where
  "sys_ok H s \<longleftrightarrow> log_ok H (fst s) \<and> al_reserved_entries (fst s) = int (outstanding (snd s))"

text \<open>What one call may do to a log: extend it, and never take saturation or the seal back.\<close>

definition log_le :: "audit_log \<Rightarrow> audit_log \<Rightarrow> bool" where
  "log_le l l' \<longleftrightarrow> prefix (al_records l) (al_records l') \<and> (al_saturated l \<longrightarrow> al_saturated l') \<and>
     al_segment l' = al_segment l \<and> al_max_entries l' = al_max_entries l \<and> al_max_bytes l' = al_max_bytes l"

definition sys_le :: "audit_sys \<Rightarrow> audit_sys \<Rightarrow> bool" where
  "sys_le s t \<longleftrightarrow> log_le (fst s) (fst t) \<and> (sealed (fst s) \<longrightarrow> fst t = fst s)"

lemma log_le_refl [simp]: "log_le l l"
  by (simp add: log_le_def)

lemma log_le_trans: "log_le l l' \<Longrightarrow> log_le l' l'' \<Longrightarrow> log_le l l''"
  by (auto simp: log_le_def)

lemma log_le_extend: "log_le l (extend_log H e l)"
  by (simp add: log_le_def)

lemma seal_effect: "log_le l (seal H tk l) \<and> al_reserved_entries (seal H tk l) = al_reserved_entries l"
  by (cases rule: seal_cases [of l H tk]) (simp_all add: log_le_def)

lemma update_saturation_effect:
  "log_le l (update_saturation H tk l) \<and> al_reserved_entries (update_saturation H tk l) = al_reserved_entries l"
proof -
  have "log_le l (l\<lparr>al_saturated := True\<rparr>)" by (simp add: log_le_def)
  then show ?thesis
    using seal_effect [of "l\<lparr>al_saturated := True\<rparr>" H tk] by (auto simp: update_saturation_seal dest: log_le_trans)
qed

lemma log_le_reserve [simp]: "log_le l (reserve l)" and log_le_release [simp]: "log_le l (release l)"
  by (simp_all add: log_le_def reserve_def release_def)

lemma append_effect:
  "log_le l (fst (append_log H tk typ salt body l)) \<and>
   al_reserved_entries (fst (append_log H tk typ salt body l)) = al_reserved_entries l"
proof (cases rule: append_cases [of l H tk "typ" salt body])
  case (Appended e)
  then show ?thesis using update_saturation_effect [of "extend_log H e l" H tk] log_le_extend [of l H e]
    by (auto dest: log_le_trans)
qed simp_all

lemma admit_effect:
  assumes "admit H tk typ salt body l = (l', res)"
  shows "log_le l l'" "al_reserved_entries l' = al_reserved_entries l + (case res of Inl _ \<Rightarrow> 0 | Inr _ \<Rightarrow> 1)"
    "res = Inr r \<Longrightarrow> \<not> res_done r"
proof -
  have "log_le l l' \<and> al_reserved_entries l' = al_reserved_entries l + (case res of Inl _ \<Rightarrow> 0 | Inr _ \<Rightarrow> 1) \<and>
      (res = Inr r \<longrightarrow> \<not> res_done r)"
  proof (cases rule: admit_cases [of l H tk "typ" salt body])
    case (Full e)
    then show ?thesis using assms seal_effect [of l H tk] by auto
  next
    case (Admitted e)
    have "log_le l (reserve (extend_log H e l))"
      by (rule log_le_trans [OF log_le_extend log_le_reserve])
    with Admitted show ?thesis
      using assms update_saturation_effect [of "reserve (extend_log H e l)" H tk] by (auto dest: log_le_trans)
  qed (use assms in auto)
  then show "log_le l l'" "al_reserved_entries l' = al_reserved_entries l + (case res of Inl _ \<Rightarrow> 0 | Inr _ \<Rightarrow> 1)"
    "res = Inr r \<Longrightarrow> \<not> res_done r" by simp_all
qed

lemma complete_effect:
  assumes "complete H tk typ salt body r l = (l', r', m)"
  shows "log_le l l'" "al_reserved_entries l' = al_reserved_entries l - (if res_done r then 0 else 1)" "res_done r'"
proof -
  have "log_le l l' \<and> al_reserved_entries l' = al_reserved_entries l - (if res_done r then 0 else 1) \<and> res_done r'"
  proof (cases "res_done r")
    case True
    then show ?thesis using assms by (auto simp: complete_done)
  next
    case False
    obtain e err where c: "complete H tk typ salt body r l =
       ((let l2 = release (extend_log H e l) in
         if al_reserved_entries l2 = 0 \<and> (al_seal_pending l2 \<or> at_capacity l2) then seal H tk l2 else l2),
        r\<lparr>res_done := True\<rparr>, err)"
      by (rule complete_lands [OF False])
    have "log_le l (release (extend_log H e l))"
      by (rule log_le_trans [OF log_le_extend log_le_release])
    with c assms False seal_effect [of "release (extend_log H e l)" H tk] show ?thesis
      by (auto simp: Let_def split: if_splits dest: log_le_trans)
  qed
  then show "log_le l l'" "al_reserved_entries l' = al_reserved_entries l - (if res_done r then 0 else 1)" "res_done r'"
    by simp_all
qed

lemma adopt_segment_effect:
  "log_le l (fst (adopt_segment H tk salt ps ph pc l)) \<and>
   al_reserved_entries (fst (adopt_segment H tk salt ps ph pc l)) = al_reserved_entries l"
  by (simp add: adopt_segment_append append_effect)

lemma adopt_segment_ok: "log_ok H l \<Longrightarrow> log_ok H (fst (adopt_segment H tk salt ps ph pc l))"
  by (simp add: adopt_segment_append append_ok)

lemma outstanding_snoc: "\<not> res_done r \<Longrightarrow> outstanding (rs @ [r]) = Suc (outstanding rs)"
  by (simp add: outstanding_def)

lemma outstanding_update:
  "i < length rs \<Longrightarrow> res_done r \<Longrightarrow>
     outstanding (rs[i := r]) = outstanding rs - (if res_done (rs ! i) then 0 else 1) \<and>
     (\<not> res_done (rs ! i) \<longrightarrow> 0 < outstanding rs)"
proof (induction rs arbitrary: i)
  case (Cons x rs)
  then show ?case by (cases i) (auto simp: outstanding_def)
qed simp

lemma step_sys_ok: "audit_step H s t \<Longrightarrow> sys_ok H s \<Longrightarrow> sys_ok H t"
proof (induction rule: audit_step.induct)
  case (step_append l rs tk "typ" salt body)
  then show ?case by (simp add: sys_ok_def append_ok append_effect)
next
  case (step_admit tk "typ" salt body l l' r rs)
  then show ?case
    using admit_ok [of H l tk "typ" salt body] admit_effect [OF step_admit(1)] by (simp add: sys_ok_def outstanding_snoc)
next
  case (step_refuse tk "typ" salt body l l' m rs)
  then show ?case
    using admit_ok [of H l tk "typ" salt body] admit_effect [OF step_refuse(1)] by (simp add: sys_ok_def)
next
  case (step_complete i rs tk "typ" salt body l l' r m)
  note eff = complete_effect [OF step_complete(2)] and upd = outstanding_update [OF step_complete(1) complete_effect(3) [OF step_complete(2)]]
  show ?case
  proof (cases "res_done (rs ! i)")
    case True
    then show ?thesis using step_complete complete_done [OF True, of H tk "typ" salt body l] upd
      by (simp add: sys_ok_def)
  next
    case False
    then show ?thesis using step_complete(2,3) eff upd complete_ok [of H l "rs ! i" tk "typ" salt body]
      by (simp add: sys_ok_def)
  qed
next
  case (step_adopt l rs tk salt ps ph pc)
  then show ?case by (simp add: sys_ok_def adopt_segment_ok adopt_segment_effect)
qed

text \<open>A sealed log is final: it is saturated, and no completion is outstanding.\<close>

lemma sealed_final:
  assumes "audit_step H s t" and "sys_ok H s" and "sealed (fst s)"
  shows "fst t = fst s"
proof -
  from assms(2,3) have s: "al_saturated (fst s)" "outstanding (snd s) = 0"
    using log_okD(2,4) by (auto simp: sys_ok_def sealed_def)
  from assms(2,3) have "al_records (fst s) \<noteq> []"
    using log_okD(8) [of H "fst s"] by (auto simp: sys_ok_def last_type_def split: if_splits)
  from assms(1) this s show ?thesis
  proof (induction rule: audit_step.induct)
    case (step_complete i rs tk "typ" salt body l l' r m)
    then have "res_done (rs ! i)" by (auto simp: outstanding_def filter_empty_conv)
    with step_complete show ?case by (simp add: complete_done)
  qed (auto simp: append_log_def admit_def adopt_segment_append)
qed

lemma step_sys_le: "audit_step H s t \<Longrightarrow> sys_ok H s \<Longrightarrow> sys_le s t"
proof -
  assume st: "audit_step H s t" and ok: "sys_ok H s"
  have "log_le (fst s) (fst t)" using st
    by (induction rule: audit_step.induct)
      (simp_all add: append_effect adopt_segment_effect admit_effect(1) complete_effect(1))
  with sealed_final [OF st ok] show ?thesis by (simp add: sys_le_def)
qed

interpretation shared_log: step_system "audit_step H" "sys_ok H" sys_le for H
  by unfold_locales
    (auto simp: step_sys_ok step_sys_le, auto simp: sys_le_def dest: log_le_trans)

lemma new_sys_ok: "sys_ok H (new_audit_log seg now, [])"
  by (simp add: sys_ok_def new_log_ok) (simp add: new_audit_log_def outstanding_def)

lemma reachable_ok: "reaches (audit_step H) (new_audit_log seg now, []) s \<Longrightarrow> sys_ok H s"
  by (rule shared_log.reaches_inv [OF _ new_sys_ok])

section \<open>Counting entries\<close>

definition entry_type :: "log_record \<Rightarrow> string option" where
  [go_eval]: "entry_type r = map_option en_type (read_entry (rec_raw r))"

definition type_count :: "string \<Rightarrow> audit_log \<Rightarrow> nat" where
  [go_eval]: "type_count t l = length (filter (\<lambda>r. entry_type r = Some t) (al_records l))"

lemma type_count_flags [simp]:
  "type_count t (al_saturated_update f l) = type_count t l" "type_count t (al_seal_pending_update f l) = type_count t l"
  "type_count t (reserve l) = type_count t l" "type_count t (release l) = type_count t l"
  by (simp_all add: type_count_def)

lemma type_count_extend [simp]:
  "next_entry l e \<Longrightarrow> type_count t (extend_log H e l) = type_count t l + (if en_type e = t then 1 else 0)"
  by (simp add: type_count_def entry_type_def read_entry_text next_entry_def)

lemma type_count_seal [simp]: "t \<noteq> ''log.saturated'' \<Longrightarrow> type_count t (seal H tk l) = type_count t l"
  by (cases rule: seal_cases [of l H tk]) auto

lemma type_count_update_saturation [simp]:
  "t \<noteq> ''log.saturated'' \<Longrightarrow> type_count t (update_saturation H tk l) = type_count t l"
  by (simp add: update_saturation_seal)

lemma type_count_append [audit_simps]:
  "t \<noteq> ''log.saturated'' \<Longrightarrow> type_count t (fst (append_log H tk typ salt body l)) =
     type_count t l + (if typ = t \<and> snd (snd (append_log H tk typ salt body l)) = None then 1 else 0)"
  by (cases rule: append_cases [of l H tk "typ" salt body]) auto

lemma type_count_admit:
  "admit H tk typ salt body l = (l', res) \<Longrightarrow> t \<noteq> ''log.saturated'' \<Longrightarrow>
     type_count t l' = type_count t l + (case res of Inr _ \<Rightarrow> if typ = t then 1 else 0 | Inl _ \<Rightarrow> 0)"
  by (cases rule: admit_cases [of l H tk "typ" salt body]) auto

lemma type_count_complete:
  "complete H tk typ salt body r l = (l', r', m) \<Longrightarrow> t \<noteq> ''log.saturated'' \<Longrightarrow>
     type_count t l' = type_count t l + (if \<not> res_done r \<and> typ = t then 1 else 0)"
proof (cases "res_done r")
  case False
  assume c: "complete H tk typ salt body r l = (l', r', m)" and t: "t \<noteq> ''log.saturated''"
  obtain e err where e: "next_entry l e" "en_type e = typ" and d: "complete H tk typ salt body r l =
       ((let l2 = release (extend_log H e l) in
         if al_reserved_entries l2 = 0 \<and> (al_seal_pending l2 \<or> at_capacity l2) then seal H tk l2 else l2),
        r\<lparr>res_done := True\<rparr>, err)"
    by (rule complete_lands [OF False])
  from d c have "l' = seal H tk (release (extend_log H e l)) \<or> l' = release (extend_log H e l)"
    by (auto simp: Let_def split: if_splits)
  with e t False show ?thesis by auto
qed (simp add: complete_done)

lemma log_range_all: "log_range 0 0 l = map rec_raw (al_records l)"
  by (simp add: log_range_def)

lemma log_range_window:
  "0 \<le> from \<Longrightarrow> 0 < to \<Longrightarrow>
     log_range from to l = map rec_raw (drop (nat from) (take (nat to) (al_records l)))"
  by (auto simp: log_range_def Let_def)

lemma new_records [simp]: "al_records (new_audit_log seg now) = []" "al_saturated (new_audit_log seg now) = False"
  by (simp_all add: new_audit_log_def)

lemma prefix_nth_last: "prefix (xs @ [x]) ys \<Longrightarrow> ys ! length xs = x"
  by (auto simp: prefix_def nth_append)

lemma extended_nth:
  assumes "log_le (extend_log H e l) l'" and "next_entry l e"
  shows "read_entry (rec_raw (al_records l' ! length (al_records l))) =
    Some (e\<lparr>en_body := if en_body e = [] then ''null'' else json_compact False (en_body e)\<rparr>)"
proof -
  have "al_records l' ! length (al_records l) = \<lparr>rec_raw = entry_text e, rec_hash = H (entry_text e)\<rparr>"
    using assms(1) prefix_nth_last by (fastforce simp: log_le_def)
  then show ?thesis using assms(2) by (simp add: read_entry_text next_entry_def)
qed

lemma admitted_entry:
  assumes "admit H tk typ salt body l = (l', Inr r)" and "json_plain body"
  shows "\<exists>e. read_entry (rec_raw (al_records l' ! length (al_records l))) = Some e \<and>
     en_seq e = int (length (al_records l)) \<and> en_type e = typ \<and> json_marshal body = Inr (en_body e)"
proof (cases rule: admit_cases [of l H tk "typ" salt body])
  case (Admitted e)
  then have l': "l' = update_saturation H tk (reserve (extend_log H e l))" using assms(1) by simp
  have "log_le (extend_log H e l) l'"
    using update_saturation_effect [of "reserve (extend_log H e l)" H tk] unfolding l'
    by (blast intro: log_le_trans [OF log_le_reserve])
  note ex = extended_nth [OF this Admitted(3)]
  have "json_marshal body = Inr (if en_body e = [] then ''null'' else json_compact False (en_body e))"
    using Admitted(5) assms(2) compact_marshal [of body "en_body e"] json_marshal_nonempty [of body "en_body e"] by auto
  with ex Admitted(3,4) show ?thesis by (auto simp: next_entry_def)
qed (use assms(1) in auto)

lemma appended_entry:
  assumes "append_log H tk typ salt body l = (l', h, m)" and "json_plain body"
  shows "if m = None
    then (\<exists>e. read_entry (rec_raw (al_records l' ! length (al_records l))) = Some e \<and>
           en_seq e = int (length (al_records l)) \<and> en_prev e = al_head l \<and> en_type e = typ \<and>
           en_salt e = hex_encode salt \<and> json_marshal body = Inr (en_body e)) \<and> h = al_head l'
    else l' = l \<and> h = al_head l"
proof (cases rule: append_cases [of l H tk "typ" salt body])
  case (Appended e)
  note le = extended_nth [OF conjunct1 [OF update_saturation_effect [of "extend_log H e l" H tk]] Appended(3)]
  have "json_marshal body = Inr (if en_body e = [] then ''null'' else json_compact False (en_body e))"
    using Appended(5) assms(2) compact_marshal [of body "en_body e"] json_marshal_nonempty [of body "en_body e"] by auto
  with le Appended assms(1) show ?thesis by (auto simp: next_entry_def)
qed (use assms(1) in auto)

definition sample_tick :: tick where
  [go_eval]: "sample_tick = \<lparr>tk_now = ''t0'', tk_retry_now = ''t1'', tk_retry_salt = ''r'',
     tk_seal_now = ''t2'', tk_seal_salt = ''s''\<rparr>"

definition sample_log :: audit_log where
  [go_eval]: "sample_log = fst (append_log (\<lambda>x. ''h'' @ x) sample_tick ''exec'' ''salt'' JNull (new_audit_log ''seg'' ''t''))"

lemma sample_reachable:
  "reaches (audit_step (\<lambda>x. ''h'' @ x)) (new_audit_log ''seg'' ''t'', []) (sample_log, [])"
  unfolding sample_log_def by (rule reaches_one [where step = "audit_step (\<lambda>x. ''h'' @ x)", OF step_append])

section \<open>Properties\<close>

text \<open>
  C3. Whatever the concurrent callers do, the served transcript replays: every line's \<open>prev\<close> is the
  hash of the line before, the replay ends in the head the log reports, the lines are numbered from
  0 without a gap, and each kept hash is the hash of its line.
\<close>

theorem transcript_replays:
  assumes "reaches (audit_step H) (new_audit_log seg now, []) (l, rs)"
  shows "replay H (log_range 0 0 l) = Some (fst (log_head l)) \<and>
    int (length (log_range 0 0 l)) = snd (log_head l) \<and>
    map (\<lambda>x. map_option en_seq (read_entry x)) (log_range 0 0 l) =
      map (\<lambda>i. Some (int i)) [0..<length (al_records l)] \<and>
    map rec_hash (al_records l) = map H (log_range 0 0 l)"
  using reachable_ok [OF assms] log_okD(1) [of H l]
  by (auto simp: sys_ok_def chain_ok_def log_range_all log_head_def o_def)

theorem transcript_replays_witness:
  "replay (\<lambda>x. ''h'' @ x) (log_range 0 0 sample_log) = Some (fst (log_head sample_log))"
  using transcript_replays [OF sample_reachable] by blast



text \<open>
  C20. The log is append-only, and a sealed log is final: from any reachable state, later states
  only add lines after those already there, and once the log is sealed no call, a late completion
  included, changes it again.
\<close>

theorem log_append_only_and_final:
  assumes "reaches (audit_step H) (new_audit_log seg now, []) (l, rs)"
    and "reaches (audit_step H) (l, rs) (l', rs')"
  shows "prefix (al_records l) (al_records l') \<and> (al_saturated l \<longrightarrow> al_saturated l') \<and> (sealed l \<longrightarrow> l' = l)"
  using shared_log.reaches_le [OF assms(2) reachable_ok [OF assms(1)]]
  by (simp add: sys_le_def log_le_def)

theorem log_append_only_and_final_witness:
  "prefix (al_records sample_log)
     (al_records (fst (append_log (\<lambda>x. ''h'' @ x) sample_tick ''net.deny'' ''salt'' (JInt 3) sample_log)))"
  using log_append_only_and_final [OF sample_reachable reaches_one [where step = "audit_step (\<lambda>x. ''h'' @ x)", OF step_append]] by blast

text \<open>
  The entry cap holds under any interleaving: at most 50000 entries and the seal, and before
  saturation there is always room left for the completion of every admitted action. The reservation
  counters are exactly the completions still outstanding.
\<close>

theorem log_entry_cap:
  assumes "reaches (audit_step H) (new_audit_log seg now, []) (l, rs)"
  shows "length (al_records l) \<le> 50001 \<and>
    al_reserved_entries l = int (outstanding rs) \<and>
    al_reserved_bytes l = 16384 * int (outstanding rs) \<and>
    (\<not> al_saturated l \<longrightarrow> length (al_records l) + outstanding rs < 50000)"
proof -
  from reachable_ok [OF assms] have ok: "log_ok H l" "al_reserved_entries l = int (outstanding rs)"
    by (simp_all add: sys_ok_def)
  have "al_max_entries l = 50000"
    using shared_log.reaches_le [OF assms new_sys_ok] by (simp add: sys_le_def log_le_def new_audit_log_def)
  with ok log_okD [OF ok(1)] show ?thesis by (auto simp: reserved_completion_bytes_def)
qed

theorem log_entry_cap_witness: "length (al_records sample_log) \<le> 50001"
  using log_entry_cap [OF sample_reachable] by blast

text \<open>
  Saturation fails closed and ends in a seal: in a reachable saturated log no append and no
  admission gets in, and the log is sealed, its last entry \<open>log.saturated\<close>, exactly when no
  completion is outstanding; until then the seal is pending.
\<close>

theorem saturated_log_refuses:
  assumes "reaches (audit_step H) (new_audit_log seg now, []) (l, rs)" and "log_saturated l"
  shows "append_log H tk typ salt body l = (l, al_head l, Some ''audit log saturated'') \<and>
    admit H tk typ salt body l = (l, Inl ''audit log saturated'') \<and>
    (if outstanding rs = 0 then last_type l = Some ''log.saturated'' else al_seal_pending l)"
proof -
  from reachable_ok [OF assms(1)] have ok: "log_ok H l" "al_reserved_entries l = int (outstanding rs)"
    by (simp_all add: sys_ok_def)
  from assms(2) have s: "al_saturated l" by (simp add: log_saturated_def)
  with ok log_okD(4,8) [OF ok(1)] show ?thesis by (auto simp: append_log_def admit_def sealed_def)
qed

definition huge_body :: json where
  "huge_body = JStr (replicate 67108864 CHR ''x'')"

definition full_log :: audit_log where
  "full_log = fst (admit (\<lambda>x. ''h'') sample_tick ''exec.intent'' ''salt'' huge_body (new_audit_log ''seg'' ''t''))"

lemma huge_entry: "json_marshal huge_body = Inr (en_body e) \<Longrightarrow> \<not> admission_fits e l \<or> al_bytes l + al_reserved_bytes l < 0 \<or> al_max_bytes l > 67108864"
proof -
  assume h: "json_marshal huge_body = Inr (en_body e)"
  have "json_plain huge_body" by (simp add: huge_body_def)
  with h have "json_compact False (en_body e) = en_body e" "en_body e \<noteq> []"
    by (rule compact_marshal [rotated], intro json_marshal_nonempty)
  moreover have "length (en_body e) \<ge> 67108864"
  proof -
    have "length (concat (map json_escape (replicate n CHR ''x''))) = n" for n
      by (induction n) (simp_all add: json_escape_def)
    note x = this [of 67108864]
    from h have "en_body e = json_quote (replicate 67108864 CHR ''x'')" by (simp add: huge_body_def)
    then show ?thesis using x
      by (simp only: json_quote_def length_append)
  qed
  ultimately have "int (length (entry_text e)) \<ge> 67108864" by (simp add: entry_text_def)
  then show ?thesis by (auto simp: admission_fits_def reserved_completion_bytes_def)
qed

lemma full_log_saturated: "log_saturated full_log"
  and full_log_reachable: "reaches (audit_step (\<lambda>x. ''h'')) (new_audit_log ''seg'' ''t'', []) (full_log, [])"
proof -
  define l0 where "l0 = new_audit_log ''seg'' ''t''"
  have adm: "admit (\<lambda>x. ''h'') sample_tick ''exec.intent'' ''salt'' huge_body l0 =
      (seal (\<lambda>x. ''h'') sample_tick l0, Inl ''audit log has no capacity for action completion'')"
  proof (cases rule: admit_cases [of l0 "\<lambda>x. ''h''" sample_tick "''exec.intent''" "''salt''" huge_body])
    case (Admitted e)
    with huge_entry [of e l0] show ?thesis by (simp add: l0_def new_audit_log_def)
  qed (simp_all add: l0_def huge_body_def)
  then have full: "full_log = seal (\<lambda>x. ''h'') sample_tick l0" by (simp add: full_log_def l0_def)
  show "log_saturated full_log"
    by (cases rule: seal_cases [of l0 "\<lambda>x. ''h''" sample_tick]) (simp_all add: full log_saturated_def)
  show "reaches (audit_step (\<lambda>x. ''h'')) (new_audit_log ''seg'' ''t'', []) (full_log, [])"
    using reaches_one [where step = "audit_step (\<lambda>x. ''h'')", OF step_refuse [OF adm]] by (simp add: full l0_def)
qed

theorem saturated_log_refuses_witness:
  "last_type full_log = Some ''log.saturated'' \<and>
   append_log (\<lambda>x. ''h'') sample_tick ''exec'' ''salt'' JNull full_log = (full_log, al_head full_log, Some ''audit log saturated'')"
proof -
  have "last_type full_log = Some ''log.saturated''"
    using saturated_log_refuses [OF full_log_reachable full_log_saturated] by (simp add: outstanding_def)
  then show ?thesis using full_log_saturated by (simp add: log_saturated_def append_log_def)
qed

text \<open>
  A completion always lands: the first call on a reservation appends exactly one entry of its
  type right after the current end, linked to the current head, whatever the state of the log; the
  body is the one handed in when it marshals, and every later call on the reservation does nothing.
\<close>

theorem completion_lands:
  assumes "\<not> res_done r" and "complete H tk typ salt body r l = (l', r', m)"
  shows "(\<exists>e. read_entry (rec_raw (al_records l' ! length (al_records l))) = Some e \<and>
      en_seq e = int (length (al_records l)) \<and> en_type e = typ \<and> en_prev e = al_head l \<and>
      (json_ok body \<and> json_plain body \<longrightarrow> m = None \<and> json_marshal body = Inr (en_body e))) \<and>
    prefix (al_records l) (al_records l') \<and> length (al_records l) < length (al_records l') \<and>
    complete H tk2 typ2 salt2 body2 r' l' = (l', r', None)"
proof -
  obtain e err where e: "next_entry l e" "en_type e = typ"
    "json_ok body \<longrightarrow> err = None \<and> json_marshal body = Inr (en_body e) \<and> en_salt e = hex_encode salt"
    and c: "complete H tk typ salt body r l =
       ((let l2 = release (extend_log H e l) in
         if al_reserved_entries l2 = 0 \<and> (al_seal_pending l2 \<or> at_capacity l2) then seal H tk l2 else l2),
        r\<lparr>res_done := True\<rparr>, err)"
    by (rule complete_lands [OF assms(1)])
  have le: "log_le (extend_log H e l) l'"
    using c assms(2) seal_effect [of "release (extend_log H e l)" H tk]
    by (auto simp: Let_def split: if_splits dest: log_le_trans [OF log_le_release])
  then have p: "prefix (al_records l @ [\<lparr>rec_raw = entry_text e, rec_hash = H (entry_text e)\<rparr>]) (al_records l')"
    by (simp add: log_le_def)
  from extended_nth [OF le e(1)] have re: "read_entry (rec_raw (al_records l' ! length (al_records l))) =
      Some (e\<lparr>en_body := if en_body e = [] then ''null'' else json_compact False (en_body e)\<rparr>)" .
  have "json_ok body \<and> json_plain body \<Longrightarrow> m = None \<and> json_marshal body =
      Inr (if en_body e = [] then ''null'' else json_compact False (en_body e))"
    using e(3) c assms(2) compact_marshal [of body "en_body e"] json_marshal_nonempty [of body "en_body e"] by auto
  with re e(1,2) complete_effect(3) [OF assms(2)] p show ?thesis
    by (auto simp: next_entry_def complete_done prefix_def)
qed

theorem completion_lands_witness:
  "\<exists>l' r' m. complete (\<lambda>x. ''h'') sample_tick ''exec'' ''salt'' JNull \<lparr>res_done = False\<rparr> sample_log = (l', r', m) \<and>
     length (al_records sample_log) < length (al_records l')"
proof -
  obtain l' r' m where c: "complete (\<lambda>x. ''h'') sample_tick ''exec'' ''salt'' JNull \<lparr>res_done = False\<rparr> sample_log = (l', r', m)"
    by (cases "complete (\<lambda>x. ''h'') sample_tick ''exec'' ''salt'' JNull \<lparr>res_done = False\<rparr> sample_log") blast
  from completion_lands [OF _ c, of sample_tick "''exec''" "''salt''" JNull] c show ?thesis by auto
qed

text \<open>
  A successful append is on the record as it was asked for: the new line reads back to an entry
  with the next number, the previous head, the type and the salt of the call, and exactly the bytes
  of the marshalled body; a failed one leaves the log untouched.
\<close>

theorem append_reads_back:
  assumes "append_log H tk typ salt body l = (l', h, m)" and "json_plain body"
  shows "if m = None
    then (\<exists>e. read_entry (rec_raw (al_records l' ! length (al_records l))) = Some e \<and>
           en_seq e = int (length (al_records l)) \<and> en_prev e = al_head l \<and> en_type e = typ \<and>
           en_salt e = hex_encode salt \<and> json_marshal body = Inr (en_body e)) \<and> h = al_head l'
    else l' = l \<and> h = al_head l"
  using assms by (rule appended_entry)

theorem append_reads_back_witness:
  "\<exists>e. read_entry (rec_raw (al_records sample_log ! 0)) = Some e \<and> en_seq e = 0 \<and> en_type e = ''exec''"
proof -
  have a: "append_log (\<lambda>x. ''h'' @ x) sample_tick ''exec'' ''salt'' JNull (new_audit_log ''seg'' ''t'') =
      (sample_log, al_head sample_log, None)" by code_simp
  from append_reads_back [OF a] show ?thesis by auto
qed

text \<open>
  The streaming hash is the buffered one: feeding a payload to a \<open>Hasher\<close> in any chunks gives
  the salted hash and the length of the whole.
\<close>

theorem streaming_hash_is_hash:
  "hc_sum H (fold (\<lambda>p hc. hc_write hc p) chunks (hasher salt)) = salt_hash H salt (concat chunks) \<and>
   hc_count (fold (\<lambda>p hc. hc_write hc p) chunks (hasher salt)) = int (length (concat chunks))"
proof -
  have "hc_fed (fold (\<lambda>p hc. hc_write hc p) chunks hc) = hc_fed hc @ concat chunks \<and>
      hc_n (fold (\<lambda>p hc. hc_write hc p) chunks hc) = hc_n hc + int (length (concat chunks))" for hc
    by (induction chunks arbitrary: hc) (simp_all add: hc_write_def)
  from this [of "hasher salt"] show ?thesis
    by (simp add: hc_sum_def hc_count_def salt_hash_def hasher_def)
qed

text \<open>
  A reader can poll: the lines fetched so far (\<open>n\<close> of them, from a reachable state) followed
  by the range from \<open>n\<close> of any later state are the whole later transcript.
\<close>

theorem log_range_polling:
  assumes "reaches (audit_step H) (new_audit_log seg now, []) (l, rs)"
    and "reaches (audit_step H) (l, rs) (l', rs')"
  shows "log_range 0 0 l @ log_range (snd (log_head l)) 0 l' = log_range 0 0 l'"
proof -
  have "prefix (al_records l) (al_records l')"
    using shared_log.reaches_le [OF assms(2) reachable_ok [OF assms(1)]] by (simp add: sys_le_def log_le_def)
  then obtain zs where "al_records l' = al_records l @ zs" by (auto simp: prefix_def)
  moreover have "al_records l \<noteq> [] \<Longrightarrow> \<not> int (length (al_records l)) + int (length zs) \<le> 0"
    by (cases "al_records l") simp_all
  ultimately show ?thesis
    by (cases "al_records l = []"; cases "zs = []") (simp_all add: log_range_def log_head_def Let_def)
qed

theorem log_range_polling_witness:
  "log_range 0 0 sample_log @ log_range 1 0 sample_log = log_range 0 0 sample_log"
proof -
  have "snd (log_head sample_log) = 1" by code_simp
  with log_range_polling [OF sample_reachable reaches_refl] show ?thesis by simp
qed

end
