(* ===== verification/Egress.thy ===== *)
theory Egress imports Policy Gate Audit_Chain "HOL-Library.List_Lexorder" "HOL-Library.Char_ord" begin

text \<open>
  The egress proxy, \<open>api-server/egress.go\<close>: the sandbox's only route out. Every handler gates the
  attempt on the log and the policy, admits it to the log, acts, and completes the admission. A
  CONNECT and a request each have a phase before and one after the network is used, between which
  other traffic runs; the first ends in a refusal or in a ticket, the licence to dial or to send.
  What the network does is an argument of the second phase. The order of a Go map iteration is the
  order of the association list that stands for the map.
\<close>

section \<open>Data\<close>

type_synonym header = "(string \<times> string list) list"

record egress =
  eg_log :: audit_log
  eg_policy :: "effective_policy option"

record net_request =
  nr_method :: string
  nr_host :: string
  nr_header :: header
  nr_close :: bool

text \<open>The fields of a parsed \<open>url.URL\<close> that \<open>RequestURI\<close> reads.\<close>

record request_url =
  ru_scheme :: string
  ru_opaque :: string
  ru_escaped_path :: string
  ru_force_query :: bool
  ru_raw_query :: string

record conn_ticket =
  ct_id :: string
  ct_host :: string
  ct_port :: string
  ct_tunnel :: bool
  ct_mode :: string
  ct_reservation :: reservation

record req_ticket =
  rt_id :: string
  rt_method :: string
  rt_url :: string
  rt_host :: string
  rt_names :: "string list"
  rt_values :: "(string \<times> string) list"
  rt_sent_header :: header
  rt_salt :: string
  rt_mode :: string
  rt_origin :: string
  rt_max_response :: int
  rt_reservation :: reservation

text \<open>What ends a CONNECT, with the error text or the byte counts the code has at that point.\<close>

datatype conn_end =
    Hijack_Unavailable
  | Hijack_Failed string
  | Dial_Failed string
  | Client_Write_Failed string
  | Tunnelled int int
  | Leaf_Failed string
  | Client_Tls_Failed string
  | Origin_Tls_Failed string
  | Pumped

text \<open>
  What ends a request: the bytes of its body that were read on the way out, and the failure of the
  write, of the read, or the origin's answer with the bytes its body yields and how many of those
  the copy to the client takes before either side fails.
\<close>

record origin_response =
  or_status :: int
  or_content_length :: int
  or_body :: string
  or_taken :: nat
  or_write_err :: "string option"

datatype req_end = Write_Failed string | Read_Failed string | Answered origin_response

record net_env =
  ne_tick :: tick
  ne_salt :: string
  ne_id :: string
  ne_refuse_tick :: tick
  ne_refuse_salt :: string
  ne_end_tick :: tick
  ne_end_salt :: string
  ne_millis :: int

definition default_max_resp_bytes :: int where
  [go_eval]: "default_max_resp_bytes = 268435456"

definition max_response :: "effective_policy \<Rightarrow> int" where
  [go_eval]: "max_response pol =
     (let m = pol_max_response_bytes (ep_effective pol) in if m \<le> 0 then default_max_resp_bytes else m)"

section \<open>Helpers\<close>

definition header_value_allowlist :: "string list" where
  [go_eval]: "header_value_allowlist =
     [''content-type'', ''content-length'', ''user-agent'', ''accept'', ''accept-encoding'']"

definition hashed_headers :: "string list" where
  [go_eval]: "hashed_headers = [''authorization'', ''cookie'', ''proxy-authorization'', ''x-api-key'']"

definition put :: "'k \<Rightarrow> 'v \<Rightarrow> ('k \<times> 'v) list \<Rightarrow> ('k \<times> 'v) list" where
  [go_eval]: "put k v m = (k, v) # filter (\<lambda>p. fst p \<noteq> k) m"

fun record_headers :: "(string \<Rightarrow> string) \<Rightarrow> string \<Rightarrow> header \<Rightarrow> string list \<times> (string \<times> string) list \<Rightarrow>
    string list \<times> (string \<times> string) list" where
  "record_headers H salt [] acc = acc"
| "record_headers H salt ((k, v) # h) (names, values) =
     (let lower = to_lower k in
      record_headers H salt h
        (names @ [lower],
         if lower \<in> set header_value_allowlist then put lower (join '', '' v) values
         else if lower \<in> set hashed_headers then put lower (''sha256:'' @ salt_hash H salt (join '', '' v)) values
         else values))"

definition header_del :: "string \<Rightarrow> header \<Rightarrow> header" where
  [go_eval]: "header_del k h = filter (\<lambda>p. fst p \<noteq> k) h"

definition header_add :: "string \<Rightarrow> string \<Rightarrow> header \<Rightarrow> header" where
  [go_eval]: "header_add k v h =
     (case map_of h k of None \<Rightarrow> h @ [(k, [v])]
      | Some _ \<Rightarrow> map (\<lambda>p. if fst p = k then (k, snd p @ [v]) else p) h)"

definition copy_headers :: "header \<Rightarrow> header \<Rightarrow> header" where
  [go_eval]: "copy_headers dst src = fold (\<lambda>(k, vs) d. fold (header_add k) vs d) src dst"

text \<open>\<open>net.SplitHostPort\<close>, where it succeeds.\<close>

definition net_split_host_port :: "string \<Rightarrow> (string \<times> string) option" where
  [go_eval]: "net_split_host_port hp =
     (if CHR '':'' \<notin> set hp then None
      else
        let (before, port) = rcut_byte CHR '':'' hp in
        if prefix ''['' hp then
          (if CHR '']'' \<notin> set hp then None
           else
             let host = tl (takeWhile (\<lambda>c. c \<noteq> CHR '']'') hp) in
             if before \<noteq> ''['' @ host @ '']'' \<or> CHR ''['' \<in> set (tl hp) \<or> CHR '']'' \<in> set port then None
             else Some (host, port))
        else if CHR '':'' \<in> set before \<or> CHR ''['' \<in> set hp \<or> CHR '']'' \<in> set hp then None
        else Some (before, port))"

definition split_host_port :: "string \<Rightarrow> string \<Rightarrow> string \<times> string" where
  [go_eval]: "split_host_port hp def_port =
     (case net_split_host_port hp of Some (h, p) \<Rightarrow> (to_lower h, p) | None \<Rightarrow> (to_lower hp, def_port))"

text \<open>\<open>URL.RequestURI\<close> of \<open>net/url\<close>.\<close>

definition request_uri :: "request_url \<Rightarrow> string" where
  [go_eval]: "request_uri u =
     (let r = (if ru_opaque u = [] then (if ru_escaped_path u = [] then ''/'' else ru_escaped_path u)
               else if prefix ''//'' (ru_opaque u) then ru_scheme u @ '':'' @ ru_opaque u else ru_opaque u)
      in if ru_force_query u \<or> ru_raw_query u \<noteq> [] then r @ ''?'' @ ru_raw_query u else r)"

definition pump_url :: "string \<Rightarrow> string \<Rightarrow> string \<Rightarrow> request_url \<Rightarrow> string" where
  [go_eval]: "pump_url scheme host port u =
     scheme @ ''://'' @ host @ (if port \<noteq> ''443'' \<and> port \<noteq> ''80'' then '':'' @ port else []) @ request_uri u"

section \<open>The fail-closed checks\<close>

definition deny_body :: "string \<Rightarrow> string \<Rightarrow> string \<Rightarrow> string \<Rightarrow> json" where
  [go_eval]: "deny_body method rawurl rule reason =
     JObj [(''method'', JStr method), (''url'', JStr rawurl), (''rule'', JStr rule), (''reason'', JStr reason)]"

definition refuse :: "(string \<Rightarrow> string) \<Rightarrow> net_env \<Rightarrow> string \<Rightarrow> string \<Rightarrow> string \<Rightarrow> string \<Rightarrow> egress \<Rightarrow> egress" where
  [go_eval]: "refuse H env rawurl method rule reason eg =
     eg\<lparr>eg_log := fst (append_log H (ne_refuse_tick env) ''net.deny'' (ne_refuse_salt env)
          (deny_body method rawurl rule reason) (eg_log eg))\<rparr>"

definition egress_gate :: "(string \<Rightarrow> string) \<Rightarrow> net_env \<Rightarrow> string \<Rightarrow> string \<Rightarrow> egress \<Rightarrow>
    egress \<times> (string + effective_policy \<times> bool)" where
  [go_eval]: "egress_gate H env rawurl method eg =
     (if log_saturated (eg_log eg) then (eg, Inl ''audit log saturated; egress refused'')
      else
        (case eg_policy eg of
           None \<Rightarrow> (refuse H env rawurl method ''no-policy'' ''no session policy installed'' eg,
                    Inl ''no session policy installed'')
         | Some pol \<Rightarrow>
             let (allowed, tunnel, rule) = decide pol rawurl in
             if \<not> allowed then
               (refuse H env rawurl method rule ''denied by policy'' eg, Inl (''denied by policy ('' @ rule @ '')''))
             else (eg, Inr (pol, tunnel))))"

definition host_url :: "string \<Rightarrow> string" where
  [go_eval]: "host_url host = ''https://'' @ host @ ''/''"

definition gate_host :: "(string \<Rightarrow> string) \<Rightarrow> net_env \<Rightarrow> string \<Rightarrow> egress \<Rightarrow> egress \<times> (string + bool)" where
  [go_eval]: "gate_host H env host eg =
     (if log_saturated (eg_log eg) then (eg, Inl ''audit log saturated; egress refused'')
      else
        (case eg_policy eg of
           None \<Rightarrow> (refuse H env (host_url host) ''CONNECT'' ''no-policy'' ''no session policy installed'' eg,
                    Inl ''no session policy installed'')
         | Some pol \<Rightarrow>
             let (allowed, tunnel, rule) = admit_host pol host in
             if \<not> allowed then
               (refuse H env (host_url host) ''CONNECT'' rule ''denied by policy'' eg,
                Inl (''denied by policy ('' @ rule @ '')''))
             else (eg, Inr tunnel)))"

section \<open>CONNECT\<close>

definition connect_intent_body :: "string \<Rightarrow> string \<Rightarrow> string \<Rightarrow> string \<Rightarrow> json" where
  [go_eval]: "connect_intent_body cid host port mode =
     JObj [(''id'', JStr cid), (''host'', JStr host), (''port'', JStr port), (''mode'', JStr mode)]"

text \<open>The status and text of an \<open>http.Error\<close>, or the ticket.\<close>

definition connect_begin :: "(string \<Rightarrow> string) \<Rightarrow> net_env \<Rightarrow> string \<Rightarrow> egress \<Rightarrow>
    egress \<times> (int \<times> string + conn_ticket)" where
  [go_eval]: "connect_begin H env hostport eg =
     (let (host, port) = split_host_port hostport ''443'';
          (eg1, verdict) = gate_host H env host eg
      in (case verdict of
            Inl e \<Rightarrow> (eg1, Inl (403, e))
          | Inr tunnel \<Rightarrow>
              let mode = (if tunnel then ''tunnel'' else ''mitm'');
                  (l, admission) = admit H (ne_tick env) ''net.connect.intent'' (ne_salt env)
                     (connect_intent_body (ne_id env) host port mode) (eg_log eg1)
              in (case admission of
                    Inl _ \<Rightarrow> (eg1\<lparr>eg_log := l\<rparr>, Inl (507, ''cannot audit connection''))
                  | Inr r \<Rightarrow>
                      (eg1\<lparr>eg_log := l\<rparr>,
                       Inr \<lparr>ct_id = ne_id env, ct_host = host, ct_port = port, ct_tunnel = tunnel,
                            ct_mode = mode, ct_reservation = r\<rparr>))))"

definition complete_connect_body :: "conn_ticket \<Rightarrow> int \<Rightarrow> int \<Rightarrow> string \<Rightarrow> string \<Rightarrow> int \<Rightarrow> json" where
  [go_eval]: "complete_connect_body t up down outcome err ms =
     JObj ([(''id'', JStr (ct_id t)), (''bytes_up'', JInt up), (''bytes_down'', JInt down), (''outcome'', JStr outcome)] @
       (if err = [] then [] else [(''error'', JStr err)]) @
       [(''mode'', JStr (ct_mode t)), (''duration_ms'', JInt ms)])"

definition complete_connect :: "(string \<Rightarrow> string) \<Rightarrow> net_env \<Rightarrow> conn_ticket \<Rightarrow> int \<Rightarrow> int \<Rightarrow> string \<Rightarrow> string \<Rightarrow>
    egress \<Rightarrow> egress" where
  [go_eval]: "complete_connect H env t up down outcome err eg =
     (let typ = (if ct_mode t = ''tunnel'' then ''net.tunnel'' else ''net.connect'') in
      eg\<lparr>eg_log := fst (complete H (ne_end_tick env) typ (ne_end_salt env)
           (complete_connect_body t up down outcome err (ne_millis env)) (ct_reservation t) (eg_log eg))\<rparr>)"

text \<open>
  \<open>tunnel\<close>: two copies side by side that share nothing but the result, each until its source ends or a write
  fails; the write of chunk number \<open>i\<close> fails after \<open>k\<close> bytes. What each side was sent, and the end it makes.
\<close>

fun io_copy :: "(nat \<times> nat) option \<Rightarrow> string list \<Rightarrow> string" where
  "io_copy stop [] = []"
| "io_copy stop (c # cs) =
     (case stop of
        None \<Rightarrow> c @ io_copy None cs
      | Some (0, k) \<Rightarrow> take k c
      | Some (Suc i, k) \<Rightarrow> c @ io_copy (Some (i, k)) cs)"

definition tunnel :: "(nat \<times> nat) option \<Rightarrow> string list \<Rightarrow> (nat \<times> nat) option \<Rightarrow> string list \<Rightarrow> (string \<times> string) \<times> conn_end" where
  [go_eval]: "tunnel up_stop from_client down_stop from_upstream =
     (let up = io_copy up_stop from_client; down = io_copy down_stop from_upstream
      in ((up, down), Tunnelled (int (length up)) (int (length down))))"

lemma io_copy_prefix: "prefix (io_copy stop cs) (concat cs)"
  by (induction stop cs rule: io_copy.induct) (auto simp: take_is_prefix prefix_prefix split: option.split prod.split nat.split)

text \<open>The denial a failed connection leaves, if its branch records one, then the deferred completion.\<close>

definition connect_finish :: "(string \<Rightarrow> string) \<Rightarrow> net_env \<Rightarrow> conn_ticket \<Rightarrow> conn_end \<Rightarrow> egress \<Rightarrow> egress" where
  [go_eval]: "connect_finish H env t ev eg =
     (let deny = (\<lambda>rule reason. refuse H env (host_url (ct_host t)) ''CONNECT'' rule reason eg) in
      (case ev of
         Hijack_Unavailable \<Rightarrow> complete_connect H env t 0 0 ''hijack-unavailable'' [] eg
       | Hijack_Failed e \<Rightarrow> complete_connect H env t 0 0 ''hijack-failed'' e eg
       | Dial_Failed e \<Rightarrow> complete_connect H env t 0 0 ''dial-failed'' e (deny ''upstream'' (''dial failed: '' @ e))
       | Client_Write_Failed e \<Rightarrow> complete_connect H env t 0 0 ''client-write-failed'' e eg
       | Tunnelled up down \<Rightarrow> complete_connect H env t up down ''closed'' [] eg
       | Leaf_Failed e \<Rightarrow> complete_connect H env t 0 0 ''leaf-failed'' e eg
       | Client_Tls_Failed e \<Rightarrow>
           complete_connect H env t 0 0 ''client-tls-failed'' e (deny ''mitm'' (''client rejected interception: '' @ e))
       | Origin_Tls_Failed e \<Rightarrow>
           complete_connect H env t 0 0 ''origin-tls-failed'' e (deny ''upstream'' (''origin TLS failed: '' @ e))
       | Pumped \<Rightarrow> complete_connect H env t 0 0 ''closed'' [] eg))"

section \<open>Requests\<close>

text \<open>A \<open>map[string]string\<close> is marshalled with its keys sorted.\<close>

definition values_json :: "(string \<times> string) list \<Rightarrow> json" where
  [go_eval]: "values_json m = JObj (map (\<lambda>(k, v). (k, JStr v)) (sort_key fst m))"

definition request_intent_body :: "string \<Rightarrow> string \<Rightarrow> string \<Rightarrow> string \<Rightarrow> string list \<Rightarrow> (string \<times> string) list \<Rightarrow>
    string \<Rightarrow> json" where
  [go_eval]: "request_intent_body rid method rawurl host names vals mode =
     JObj [(''id'', JStr rid), (''method'', JStr method), (''url'', JStr rawurl), (''host'', JStr host),
           (''req_headers'', JArr (map JStr names)), (''req_header_values'', values_json vals),
           (''decision'', JStr ''allow''), (''mode'', JStr mode)]"

text \<open>What both kinds of request do once the policy allows them: record the headers, admit.\<close>

definition admit_request :: "(string \<Rightarrow> string) \<Rightarrow> net_env \<Rightarrow> net_request \<Rightarrow> string \<Rightarrow> header \<Rightarrow> header \<Rightarrow> string \<Rightarrow>
    string \<Rightarrow> effective_policy \<Rightarrow> egress \<Rightarrow> egress \<times> (string + req_ticket)" where
  [go_eval]: "admit_request H env req rawurl recorded sent mode origin pol eg =
     (let (names, vals) = record_headers H (ne_salt env) recorded ([], []);
          (l, admission) = admit H (ne_tick env) ''net.request.intent'' (ne_salt env)
            (request_intent_body (ne_id env) (nr_method req) rawurl (nr_host req) names vals mode) (eg_log eg)
      in (eg\<lparr>eg_log := l\<rparr>,
          case admission of
            Inl e \<Rightarrow> Inl e
          | Inr r \<Rightarrow>
              Inr \<lparr>rt_id = ne_id env, rt_method = nr_method req, rt_url = rawurl, rt_host = nr_host req,
                   rt_names = names, rt_values = vals, rt_sent_header = sent, rt_salt = ne_salt env,
                   rt_mode = mode, rt_origin = origin, rt_max_response = max_response pol,
                   rt_reservation = r\<rparr>))"

definition strip_hop_headers :: "header \<Rightarrow> header" where
  [go_eval]: "strip_hop_headers h = header_del ''Proxy-Authorization'' (header_del ''Proxy-Connection'' h)"

definition forward_begin :: "(string \<Rightarrow> string) \<Rightarrow> net_env \<Rightarrow> net_request \<Rightarrow> string \<Rightarrow> string \<Rightarrow> effective_policy \<Rightarrow>
    egress \<Rightarrow> egress \<times> (int \<times> string + req_ticket)" where
  [go_eval]: "forward_begin H env req rawurl origin pol eg =
     (let h = strip_hop_headers (nr_header req);
          (eg1, admission) = admit_request H env req rawurl h h ''mitm'' origin pol eg
      in (eg1, case admission of Inl _ \<Rightarrow> Inl (507, ''cannot audit request'') | Inr t \<Rightarrow> Inr t))"

text \<open>\<open>bad\<close>: \<open>http.NewRequest\<close> refuses the method or the URL.\<close>

definition plain_begin :: "(string \<Rightarrow> string) \<Rightarrow> net_env \<Rightarrow> bool \<Rightarrow> net_request \<Rightarrow> string \<Rightarrow>
    egress \<Rightarrow> egress \<times> (int \<times> string + req_ticket)" where
  [go_eval]: "plain_begin H env bad req rawurl eg =
     (let (eg1, verdict) = egress_gate H env rawurl (nr_method req) eg in
      case verdict of
        Inl e \<Rightarrow> (eg1, Inl (403, e))
      | Inr (pol, _) \<Rightarrow>
          if bad then (eg1, Inl (400, ''bad request''))
          else
            let sent = strip_hop_headers (copy_headers [] (nr_header req));
                (eg2, admission) = admit_request H env req rawurl (nr_header req) sent ''plaintext'' [] pol eg1
            in (eg2, case admission of Inl _ \<Rightarrow> Inl (507, ''cannot audit request'') | Inr t \<Rightarrow> Inr t))"

definition request_error_body :: "req_ticket \<Rightarrow> string \<Rightarrow> int \<Rightarrow> json" where
  [go_eval]: "request_error_body t err ms =
     JObj [(''id'', JStr (rt_id t)), (''error'', JStr err), (''duration_ms'', JInt ms), (''mode'', JStr (rt_mode t))]"

definition complete_request_error :: "(string \<Rightarrow> string) \<Rightarrow> net_env \<Rightarrow> req_ticket \<Rightarrow> string \<Rightarrow> egress \<Rightarrow> egress" where
  [go_eval]: "complete_request_error H env t err eg =
     eg\<lparr>eg_log := fst (complete H (ne_end_tick env) ''net.request'' (ne_end_salt env)
          (request_error_body t err (ne_millis env)) (rt_reservation t) (eg_log eg))\<rparr>"

definition request_body_json :: "(string \<Rightarrow> string) \<Rightarrow> req_ticket \<Rightarrow> string \<Rightarrow> int \<Rightarrow> string \<Rightarrow> int \<Rightarrow> json" where
  [go_eval]: "request_body_json H t read status relayed ms =
     (let req_hash = hc_write (hasher (rt_salt t)) read; resp_hash = hc_write (hasher (rt_salt t)) relayed in
      JObj [(''id'', JStr (rt_id t)), (''method'', JStr (rt_method t)), (''url'', JStr (rt_url t)),
            (''host'', JStr (rt_host t)), (''req_headers'', JArr (map JStr (rt_names t))),
            (''req_header_values'', values_json (rt_values t)),
            (''req_body_sha256'', JStr (hc_sum H req_hash)), (''req_bytes'', JInt (hc_count req_hash)),
            (''status'', JInt status),
            (''resp_body_sha256'', JStr (hc_sum H resp_hash)), (''resp_bytes'', JInt (hc_count resp_hash)),
            (''truncated'', JBool (hc_count resp_hash \<ge> rt_max_response t)),
            (''origin_cert_sha256'', JStr (rt_origin t)), (''duration_ms'', JInt ms),
            (''decision'', JStr ''allow''), (''mode'', JStr (rt_mode t))])"

definition complete_request :: "(string \<Rightarrow> string) \<Rightarrow> net_env \<Rightarrow> req_ticket \<Rightarrow> string \<Rightarrow> int \<Rightarrow> string \<Rightarrow>
    egress \<Rightarrow> egress" where
  [go_eval]: "complete_request H env t read status relayed eg =
     eg\<lparr>eg_log := fst (complete H (ne_end_tick env) ''net.request'' (rt_salt t)
          (request_body_json H t read status relayed (ne_millis env)) (rt_reservation t) (eg_log eg))\<rparr>"

text \<open>
  The answer of the origin as it is relayed: an unknown or oversized content length puts the bound
  of the policy on the body (\<open>forward\<close>); plain HTTP always has the bound on it.
\<close>

definition relayed :: "bool \<Rightarrow> req_ticket \<Rightarrow> origin_response \<Rightarrow> string" where
  [go_eval]: "relayed always t resp =
     take (or_taken resp)
       (if always \<or> or_content_length resp < 0 \<or> or_content_length resp > rt_max_response t
        then take (nat (rt_max_response t)) (or_body resp) else or_body resp)"

text \<open>The state after, what the client is sent, and whether \<open>forward\<close> returns an error.\<close>

definition forward_finish :: "(string \<Rightarrow> string) \<Rightarrow> net_env \<Rightarrow> req_ticket \<Rightarrow> string \<Rightarrow> req_end \<Rightarrow> egress \<Rightarrow>
    egress \<times> (int \<times> string) \<times> bool" where
  [go_eval]: "forward_finish H env t read ev eg =
     (case ev of
        Write_Failed e \<Rightarrow>
          (refuse H env (rt_url t) (rt_method t) ''upstream'' (''write failed: '' @ e) (complete_request_error H env t e eg),
           (502, ''upstream write failed''), True)
      | Read_Failed e \<Rightarrow>
          (refuse H env (rt_url t) (rt_method t) ''upstream'' (''read failed: '' @ e) (complete_request_error H env t e eg),
           (502, ''upstream read failed''), True)
      | Answered resp \<Rightarrow>
          (complete_request H env t read (or_status resp) (relayed False t resp) eg,
           (or_status resp, relayed False t resp), or_write_err resp \<noteq> None))"

text \<open>\<open>RoundTrip\<close> has one error, whichever side of the exchange failed.\<close>

definition plain_finish :: "(string \<Rightarrow> string) \<Rightarrow> net_env \<Rightarrow> req_ticket \<Rightarrow> string \<Rightarrow> string + origin_response \<Rightarrow> egress \<Rightarrow>
    egress \<times> (int \<times> string)" where
  [go_eval]: "plain_finish H env t read ev eg =
     (case ev of
        Inl e \<Rightarrow>
          (refuse H env (rt_url t) (rt_method t) ''upstream'' e (complete_request_error H env t e eg),
           (502, ''upstream unavailable''))
      | Inr resp \<Rightarrow>
          (complete_request H env t read (or_status resp) (relayed True t resp) eg,
           (or_status resp, relayed True t resp)))"

section \<open>An intercepted connection\<close>

text \<open>One request as \<open>pump\<close> reads it, with what will happen to it on the network.\<close>

record pumped =
  pu_request :: net_request
  pu_url :: request_url
  pu_gate_env :: net_env
  pu_env :: net_env
  pu_read :: string
  pu_end :: req_end

text \<open>The loop over the requests of a connection: the state, and the tickets whose requests were sent.\<close>

fun pump :: "(string \<Rightarrow> string) \<Rightarrow> string \<Rightarrow> string \<Rightarrow> string \<Rightarrow> string \<Rightarrow> pumped list \<Rightarrow> egress \<Rightarrow> egress \<times> req_ticket list" where
  "pump H scheme host port origin [] eg = (eg, [])"
| "pump H scheme host port origin (p # ps) eg =
     (let rawurl = pump_url scheme host port (pu_url p);
          (eg1, verdict) = egress_gate H (pu_gate_env p) rawurl (nr_method (pu_request p)) eg
      in (case verdict of
            Inl _ \<Rightarrow> (eg1, [])
          | Inr (pol, _) \<Rightarrow>
              let (eg2, admission) = forward_begin H (pu_env p) (pu_request p) rawurl origin pol eg1 in
              (case admission of
                 Inl _ \<Rightarrow> (eg2, [])
               | Inr t \<Rightarrow>
                   let (eg3, _, failed) = forward_finish H (pu_env p) t (pu_read p) (pu_end p) eg2 in
                   if failed \<or> nr_close (pu_request p) then (eg3, [t])
                   else
                     let (eg4, ts) = pump H scheme host port origin ps eg3 in (eg4, t # ts))))"

text \<open>A CONNECT that nothing else interrupts; an intercepted one pumps its requests before it ends.\<close>

definition handle_connect :: "(string \<Rightarrow> string) \<Rightarrow> net_env \<Rightarrow> string \<Rightarrow> conn_end \<Rightarrow> string \<Rightarrow> pumped list \<Rightarrow> egress \<Rightarrow>
    egress \<times> req_ticket list" where
  [go_eval]: "handle_connect H env hostport ev origin reqs eg =
     (case connect_begin H env hostport eg of
        (eg1, Inl _) \<Rightarrow> (eg1, [])
      | (eg1, Inr t) \<Rightarrow>
          let (eg2, sent) = (if ev = Pumped \<and> \<not> ct_tunnel t
                then pump H ''https'' (ct_host t) (ct_port t) origin reqs eg1 else (eg1, []))
          in (connect_finish H env t ev eg2, sent))"

text \<open>\<open>ServeHTTP\<close>: which handler a request of the sandbox gets; origin-form requests get none.\<close>

datatype served = Serve_Connect | Serve_Plain | Serve_Refuse

definition serve_http :: "string \<Rightarrow> bool \<Rightarrow> served" where
  [go_eval]: "serve_http method url_is_abs =
     (if method = ''CONNECT'' then Serve_Connect else if \<not> url_is_abs then Serve_Refuse else Serve_Plain)"

definition set_policy :: "effective_policy \<Rightarrow> egress \<Rightarrow> egress" where
  [go_eval]: "set_policy e eg = eg\<lparr>eg_policy := Some e\<rparr>"

definition new_egress :: "audit_log \<Rightarrow> egress" where
  [go_eval]: "new_egress l = \<lparr>eg_log = l, eg_policy = None\<rparr>"

text \<open>\<open>writeSimpleResponse\<close>, with the text of the status as an argument.\<close>

definition simple_response :: "int \<Rightarrow> string \<Rightarrow> string \<Rightarrow> string" where
  [go_eval]: "simple_response status status_text msg =
     (let crlf = [CHR 0x0D, CHR 0x0A] in
      ''HTTP/1.1 '' @ itoa status @ '' '' @ status_text @ crlf @ ''Content-Length: '' @ itoa (int (length msg)) @ crlf @
      ''Connection: close'' @ crlf @ crlf @ msg)"

end
