(* ===== verification/Egress_Safety.thy ===== *)
theory Egress_Safety imports Egress begin

text \<open>
  What the egress proxy guarantees: nothing leaves without the policy and an entry in the log, no
  host outside the ceiling is dialled, every ticket is completed in the log, no header value outside
  the allowlist is recorded, the response bound holds.
\<close>

section \<open>The first phases\<close>

lemma refuse_simps [simp]:
  "eg_policy (refuse H env u m r s eg) = eg_policy eg"
  "log_le (eg_log eg) (eg_log (refuse H env u m r s eg))"
  by (simp_all add: refuse_def append_effect)

lemma gate_host_cases:
  obtains (Refused) m where "gate_host H env host eg = (eg, Inl m)" "log_saturated (eg_log eg)"
    | (Denied) rule why m where "\<not> log_saturated (eg_log eg)"
        "gate_host H env host eg = (refuse H env (host_url host) ''CONNECT'' rule why eg, Inl m)"
        "case eg_policy eg of None \<Rightarrow> True | Some pol \<Rightarrow> \<not> fst (admit_host pol host)"
    | (Allowed) pol rule tunnel where "\<not> log_saturated (eg_log eg)" "eg_policy eg = Some pol"
        "admit_host pol host = (True, tunnel, rule)" "gate_host H env host eg = (eg, Inr tunnel)"
proof (cases "log_saturated (eg_log eg)")
  case True
  then show ?thesis by (intro Refused) (simp_all add: gate_host_def)
next
  case False
  show ?thesis
  proof (cases "eg_policy eg")
    case None
    with False show ?thesis by (intro Denied) (auto simp: gate_host_def)
  next
    case (Some pol)
    obtain a t r where d: "admit_host pol host = (a, t, r)" by (cases "admit_host pol host")
    with False Some show ?thesis
      by (cases a) (auto simp: gate_host_def intro: Denied Allowed)
  qed
qed

lemma egress_gate_cases:
  obtains (Refused) m where "egress_gate H env url method eg = (eg, Inl m)" "log_saturated (eg_log eg)"
    | (Denied) rule why m where "\<not> log_saturated (eg_log eg)"
        "egress_gate H env url method eg = (refuse H env url method rule why eg, Inl m)"
        "case eg_policy eg of None \<Rightarrow> rule = ''no-policy''
           | Some pol \<Rightarrow> \<not> fst (decide pol url) \<and> rule = snd (snd (decide pol url))"
    | (Allowed) pol tunnel where "\<not> log_saturated (eg_log eg)" "eg_policy eg = Some pol"
        "fst (decide pol url)" "egress_gate H env url method eg = (eg, Inr (pol, tunnel))"
proof (cases "log_saturated (eg_log eg)")
  case True
  then show ?thesis by (intro Refused) (simp_all add: egress_gate_def)
next
  case False
  show ?thesis
  proof (cases "eg_policy eg")
    case None
    with False show ?thesis by (intro Denied) (auto simp: egress_gate_def)
  next
    case (Some pol)
    obtain a t r where d: "decide pol url = (a, t, r)" by (cases "decide pol url")
    with False Some show ?thesis
      by (cases a) (auto simp: egress_gate_def intro: Denied Allowed)
  qed
qed

lemma connect_begin_ticket:
  assumes "connect_begin H env hostport eg = (eg', Inr t)"
  obtains pol rule l r where "\<not> log_saturated (eg_log eg)" "eg_policy eg = Some pol"
    "admit_host pol (ct_host t) = (True, ct_tunnel t, rule)"
    "(ct_host t, ct_port t) = split_host_port hostport ''443''"
    "admit H (ne_tick env) ''net.connect.intent'' (ne_salt env)
       (connect_intent_body (ct_id t) (ct_host t) (ct_port t) (ct_mode t)) (eg_log eg) = (l, Inr r)"
    "eg' = eg\<lparr>eg_log := l\<rparr>" "ct_reservation t = r" "ct_mode t = (if ct_tunnel t then ''tunnel'' else ''mitm'')"
proof -
  obtain host port where hp: "split_host_port hostport ''443'' = (host, port)" by fastforce
  show thesis
  proof (cases rule: gate_host_cases [of H env host eg])
    case (Allowed pol rule tunnel)
    obtain l a where "admit H (ne_tick env) ''net.connect.intent'' (ne_salt env)
        (connect_intent_body (ne_id env) host port (if tunnel then ''tunnel'' else ''mitm'')) (eg_log eg) = (l, a)"
      by fastforce
    with assms Allowed hp show thesis
      by (cases a) (auto simp: connect_begin_def Let_def intro: that)
  qed (use assms hp in \<open>auto simp: connect_begin_def\<close>)
qed

text \<open>A refused CONNECT leaves a denial, or an admission that did not fit, or nothing.\<close>

lemma connect_begin_refused:
  assumes "connect_begin H env hostport eg = (eg', Inl m)"
  obtains (Unchanged) "eg' = eg"
    | (Denied) u why rule where "eg' = refuse H env u ''CONNECT'' rule why eg"
    | (Full) body l e where "admit H (ne_tick env) ''net.connect.intent'' (ne_salt env) body (eg_log eg) = (l, Inl e)"
        "eg' = eg\<lparr>eg_log := l\<rparr>"
proof -
  obtain host port where hp: "split_host_port hostport ''443'' = (host, port)" by fastforce
  show thesis
  proof (cases rule: gate_host_cases [of H env host eg])
    case (Allowed pol rule tunnel)
    obtain l a where "admit H (ne_tick env) ''net.connect.intent'' (ne_salt env)
        (connect_intent_body (ne_id env) host port (if tunnel then ''tunnel'' else ''mitm'')) (eg_log eg) = (l, a)"
      by fastforce
    with assms Allowed hp show thesis
      by (cases a) (auto simp: connect_begin_def Let_def intro: Full)
  qed (use assms hp in \<open>auto simp: connect_begin_def intro: Unchanged Denied\<close>)
qed

lemma admit_request_cases:
  obtains (Full) l body e where
      "admit H (ne_tick env) ''net.request.intent'' (ne_salt env) body (eg_log eg) = (l, Inl e)"
      "admit_request H env req url recorded sent mode origin pol eg = (eg\<lparr>eg_log := l\<rparr>, Inl e)"
    | (Ticket) l r t where
      "admit H (ne_tick env) ''net.request.intent'' (ne_salt env)
         (request_intent_body (rt_id t) (rt_method t) url (rt_host t) (rt_names t) (rt_values t) mode) (eg_log eg) = (l, Inr r)"
      "admit_request H env req url recorded sent mode origin pol eg = (eg\<lparr>eg_log := l\<rparr>, Inr t)"
      "rt_url t = url" "rt_reservation t = r" "rt_sent_header t = sent" "rt_mode t = mode" "rt_salt t = ne_salt env"
      "(rt_names t, rt_values t) = record_headers H (ne_salt env) recorded ([], [])"
      "rt_max_response t = max_response pol"
proof -
  obtain names vals where nv: "record_headers H (ne_salt env) recorded ([], []) = (names, vals)" by fastforce
  obtain l a where a: "admit H (ne_tick env) ''net.request.intent'' (ne_salt env)
      (request_intent_body (ne_id env) (nr_method req) url (nr_host req) names vals mode) (eg_log eg) = (l, a)"
    by fastforce
  show thesis
  proof (cases a)
    case (Inl e)
    with a nv show thesis by (intro Full [of _ l e]) (auto simp: admit_request_def)
  next
    case (Inr r)
    with a nv show thesis
      by (intro Ticket [of "\<lparr>rt_id = ne_id env, rt_method = nr_method req, rt_url = url, rt_host = nr_host req,
           rt_names = names, rt_values = vals, rt_sent_header = sent, rt_salt = ne_salt env,
           rt_mode = mode, rt_origin = origin, rt_max_response = max_response pol, rt_reservation = r\<rparr>" l r])
        (auto simp: admit_request_def)
  qed
qed

lemma plain_begin_ticket:
  assumes "plain_begin H env bad req url eg = (eg', Inr t)"
  obtains pol l r where "\<not> log_saturated (eg_log eg)" "eg_policy eg = Some pol" "fst (decide pol url)"
    "admit H (ne_tick env) ''net.request.intent'' (ne_salt env)
       (request_intent_body (rt_id t) (rt_method t) url (rt_host t) (rt_names t) (rt_values t) ''plaintext'') (eg_log eg) = (l, Inr r)"
    "eg' = eg\<lparr>eg_log := l\<rparr>" "rt_reservation t = r" "rt_url t = url" "rt_mode t = ''plaintext''"
    "rt_sent_header t = strip_hop_headers (copy_headers [] (nr_header req))" "rt_max_response t = max_response pol"
proof (cases rule: egress_gate_cases [of H env url "nr_method req" eg])
  case (Allowed pol tunnel)
  show ?thesis
  proof (cases rule: admit_request_cases [of H env eg req url "nr_header req"
        "strip_hop_headers (copy_headers [] (nr_header req))" "''plaintext''" "[]" pol])
    case (Full l body e)
    with assms Allowed show ?thesis by (auto simp: plain_begin_def split: if_splits)
  next
    case (Ticket l r t')
    with assms Allowed show ?thesis by (auto simp: plain_begin_def intro: that split: if_splits)
  qed
qed (use assms in \<open>auto simp: plain_begin_def\<close>)

lemma plain_begin_refused:
  assumes "plain_begin H env bad req url eg = (eg', Inl m)"
  obtains (Unchanged) "eg' = eg"
    | (Denied) rule why where "eg' = refuse H env url (nr_method req) rule why eg"
    | (Full) body l e where "admit H (ne_tick env) ''net.request.intent'' (ne_salt env) body (eg_log eg) = (l, Inl e)"
        "eg' = eg\<lparr>eg_log := l\<rparr>"
proof (cases rule: egress_gate_cases [of H env url "nr_method req" eg])
  case (Allowed pol tunnel)
  show ?thesis
  proof (cases rule: admit_request_cases [of H env eg req url "nr_header req"
        "strip_hop_headers (copy_headers [] (nr_header req))" "''plaintext''" "[]" pol])
    case F: (Full l body e)
    show ?thesis
    proof (cases bad)
      case True
      with assms Allowed show ?thesis by (intro Unchanged) (simp add: plain_begin_def)
    next
      case False
      with assms Allowed F show ?thesis by (intro Full [OF F(1)]) (simp add: plain_begin_def)
    qed
  next
    case (Ticket l r t')
    with assms Allowed show ?thesis by (cases bad) (simp_all add: plain_begin_def Unchanged)
  qed
next
  case (Refused m)
  with assms show ?thesis by (intro Unchanged) (simp add: plain_begin_def)
next
  case (Denied rule why m)
  with assms show ?thesis by (intro that(2) [of rule why]) (simp add: plain_begin_def)
qed

lemma forward_begin_ticket:
  assumes "forward_begin H env req url origin pol eg = (eg', Inr t)"
  obtains l r where
    "admit H (ne_tick env) ''net.request.intent'' (ne_salt env)
       (request_intent_body (rt_id t) (rt_method t) url (rt_host t) (rt_names t) (rt_values t) ''mitm'') (eg_log eg) = (l, Inr r)"
    "eg' = eg\<lparr>eg_log := l\<rparr>" "rt_reservation t = r" "rt_url t = url"
    "rt_sent_header t = strip_hop_headers (nr_header req)" "rt_max_response t = max_response pol"
proof (cases rule: admit_request_cases [of H env eg req url "strip_hop_headers (nr_header req)"
      "strip_hop_headers (nr_header req)" "''mitm''" origin pol])
  case (Full l body e)
  with assms show ?thesis by (simp add: forward_begin_def Let_def)
next
  case (Ticket l r t')
  with assms show ?thesis by (auto simp: forward_begin_def Let_def intro: that)
qed

lemma forward_begin_refused:
  assumes "forward_begin H env req url origin pol eg = (eg', Inl m)"
  obtains body l e where "admit H (ne_tick env) ''net.request.intent'' (ne_salt env) body (eg_log eg) = (l, Inl e)"
    "eg' = eg\<lparr>eg_log := l\<rparr>"
proof (cases rule: admit_request_cases [of H env eg req url "strip_hop_headers (nr_header req)"
      "strip_hop_headers (nr_header req)" "''mitm''" origin pol])
  case (Full l body e)
  with assms show ?thesis by (auto simp: forward_begin_def Let_def intro: that)
next
  case (Ticket l r t')
  with assms show ?thesis by (simp add: forward_begin_def Let_def)
qed

section \<open>The second phases\<close>

text \<open>Every end of a ticket completes its reservation once; denials come before or after it.\<close>

lemma connect_finish_log:
  obtains (Closed) body ty where "ty = (if ct_mode t = ''tunnel'' then ''net.tunnel'' else ''net.connect'')"
      "eg_log (connect_finish H env t ev eg) = fst (complete H (ne_end_tick env) ty (ne_end_salt env) body (ct_reservation t) (eg_log eg))"
    | (Denied) body ty dbody where "ty = (if ct_mode t = ''tunnel'' then ''net.tunnel'' else ''net.connect'')"
      "eg_log (connect_finish H env t ev eg) = fst (complete H (ne_end_tick env) ty (ne_end_salt env) body (ct_reservation t)
         (fst (append_log H (ne_refuse_tick env) ''net.deny'' (ne_refuse_salt env) dbody (eg_log eg))))"
  by (cases ev) (auto simp: connect_finish_def complete_connect_def refuse_def Let_def intro: that)

lemma forward_finish_log:
  obtains (Closed) body salt where
      "eg_log (fst (forward_finish H env t read ev eg)) =
         fst (complete H (ne_end_tick env) ''net.request'' salt body (rt_reservation t) (eg_log eg))"
    | (Denied) body salt dbody where
      "eg_log (fst (forward_finish H env t read ev eg)) =
         fst (append_log H (ne_refuse_tick env) ''net.deny'' (ne_refuse_salt env) dbody
           (fst (complete H (ne_end_tick env) ''net.request'' salt body (rt_reservation t) (eg_log eg))))"
  by (cases ev) (auto simp: forward_finish_def complete_request_def complete_request_error_def refuse_def intro: that)

lemma plain_finish_log:
  obtains (Closed) body salt where
      "eg_log (fst (plain_finish H env t read ev eg)) =
         fst (complete H (ne_end_tick env) ''net.request'' salt body (rt_reservation t) (eg_log eg))"
    | (Denied) body salt dbody where
      "eg_log (fst (plain_finish H env t read ev eg)) =
         fst (append_log H (ne_refuse_tick env) ''net.deny'' (ne_refuse_salt env) dbody
           (fst (complete H (ne_end_tick env) ''net.request'' salt body (rt_reservation t) (eg_log eg))))"
  by (cases ev) (auto simp: plain_finish_def complete_request_def complete_request_error_def refuse_def intro: that)

lemma finish_policy [simp]:
  "eg_policy (connect_finish H env t ev eg) = eg_policy eg"
  "eg_policy (fst (forward_finish H env rt read fe eg)) = eg_policy eg"
  "eg_policy (fst (plain_finish H env rt read pe eg)) = eg_policy eg"
proof -
  show "eg_policy (connect_finish H env t ev eg) = eg_policy eg"
    by (cases ev) (simp_all add: connect_finish_def complete_connect_def Let_def)
  show "eg_policy (fst (forward_finish H env rt read fe eg)) = eg_policy eg"
    by (cases fe) (simp_all add: forward_finish_def complete_request_def complete_request_error_def)
  show "eg_policy (fst (plain_finish H env rt read pe eg)) = eg_policy eg"
    by (cases pe) (simp_all add: plain_finish_def complete_request_def complete_request_error_def)
qed

section \<open>All traffic together\<close>

record net_sys =
  ns_egress :: egress
  ns_conns :: "conn_ticket list"
  ns_reqs :: "req_ticket list"

definition net_types :: "string list" where
  [go_eval]: "net_types = [''net.connect.intent'', ''net.connect'', ''net.tunnel'', ''net.request.intent'', ''net.request'']"

inductive net_step :: "(string \<Rightarrow> string) \<Rightarrow> net_sys \<Rightarrow> net_sys \<Rightarrow> bool" for H where
  net_connect: "connect_begin H env hostport (ns_egress s) = (eg, Inr t) \<Longrightarrow>
    net_step H s (s\<lparr>ns_egress := eg, ns_conns := ns_conns s @ [t]\<rparr>)"
| net_connect_refused: "connect_begin H env hostport (ns_egress s) = (eg, Inl m) \<Longrightarrow> net_step H s (s\<lparr>ns_egress := eg\<rparr>)"
| net_disconnect: "ns_conns s = cs1 @ t # cs2 \<Longrightarrow>
    net_step H s (s\<lparr>ns_egress := connect_finish H env t ev (ns_egress s), ns_conns := cs1 @ cs2\<rparr>)"
| net_gate: "egress_gate H env url method (ns_egress s) = (eg, v) \<Longrightarrow> net_step H s (s\<lparr>ns_egress := eg\<rparr>)"
| net_forward: "forward_begin H env req url origin pol (ns_egress s) = (eg, Inr t) \<Longrightarrow>
    net_step H s (s\<lparr>ns_egress := eg, ns_reqs := ns_reqs s @ [t]\<rparr>)"
| net_forward_refused: "forward_begin H env req url origin pol (ns_egress s) = (eg, Inl m) \<Longrightarrow>
    net_step H s (s\<lparr>ns_egress := eg\<rparr>)"
| net_forwarded: "ns_reqs s = rs1 @ t # rs2 \<Longrightarrow>
    net_step H s (s\<lparr>ns_egress := fst (forward_finish H env t read fe (ns_egress s)), ns_reqs := rs1 @ rs2\<rparr>)"
| net_plain: "plain_begin H env bad req url (ns_egress s) = (eg, Inr t) \<Longrightarrow>
    net_step H s (s\<lparr>ns_egress := eg, ns_reqs := ns_reqs s @ [t]\<rparr>)"
| net_plain_refused: "plain_begin H env bad req url (ns_egress s) = (eg, Inl m) \<Longrightarrow> net_step H s (s\<lparr>ns_egress := eg\<rparr>)"
| net_plained: "ns_reqs s = rs1 @ t # rs2 \<Longrightarrow>
    net_step H s (s\<lparr>ns_egress := fst (plain_finish H env t read pe (ns_egress s)), ns_reqs := rs1 @ rs2\<rparr>)"
| net_set_policy: "net_step H s (s\<lparr>ns_egress := set_policy pol (ns_egress s)\<rparr>)"
| net_other_append: "typ \<notin> set net_types \<Longrightarrow>
    net_step H s (s\<lparr>ns_egress := (ns_egress s)\<lparr>eg_log := fst (append_log H tk typ salt body (eg_log (ns_egress s)))\<rparr>\<rparr>)"
| net_other_admit: "typ \<notin> set net_types \<Longrightarrow>
    net_step H s (s\<lparr>ns_egress := (ns_egress s)\<lparr>eg_log := fst (admit H tk typ salt body (eg_log (ns_egress s)))\<rparr>\<rparr>)"
| net_other_complete: "typ \<notin> set net_types \<Longrightarrow>
    net_step H s (s\<lparr>ns_egress := (ns_egress s)\<lparr>eg_log := fst (complete H tk typ salt body r (eg_log (ns_egress s)))\<rparr>\<rparr>)"

definition net_ok :: "net_sys \<Rightarrow> bool" where
  "net_ok s \<longleftrightarrow>
     (\<forall>t \<in> set (ns_conns s). \<not> res_done (ct_reservation t)) \<and> (\<forall>t \<in> set (ns_reqs s). \<not> res_done (rt_reservation t)) \<and>
     (let l = eg_log (ns_egress s) in
      type_count ''net.connect.intent'' l =
        type_count ''net.connect'' l + type_count ''net.tunnel'' l + length (ns_conns s) \<and>
      type_count ''net.request.intent'' l = type_count ''net.request'' l + length (ns_reqs s))"

definition net_le :: "net_sys \<Rightarrow> net_sys \<Rightarrow> bool" where
  "net_le s t \<longleftrightarrow> log_le (eg_log (ns_egress s)) (eg_log (ns_egress t))"

lemma count_refuse [simp]:
  "t \<in> set net_types \<Longrightarrow> type_count t (eg_log (refuse H env u m r s eg)) = type_count t (eg_log eg)"
  by (auto simp: refuse_def net_types_def audit_simps)

lemma count_complete:
  "t \<noteq> ''log.saturated'' \<Longrightarrow> type_count t (fst (complete H tk typ salt body r l)) =
     type_count t l + (if \<not> res_done r \<and> typ = t then 1 else 0)"
  by (cases "complete H tk typ salt body r l") (simp add: type_count_complete)

lemma count_admit_other:
  "t \<noteq> ''log.saturated'' \<Longrightarrow> typ \<noteq> t \<Longrightarrow> type_count t (fst (admit H tk typ salt body l)) = type_count t l"
  by (cases "admit H tk typ salt body l") (simp add: type_count_admit split: sum.split)

lemmas net_counts = count_complete count_admit_other type_count_admit audit_simps

lemma net_step_ok: "net_step H s t \<Longrightarrow> net_ok s \<Longrightarrow> net_ok t"
proof (induction rule: net_step.induct)
  case (net_connect env hostport s eg t)
  from net_connect(1) show ?case
    by (rule connect_begin_ticket)
      (use net_connect(2) in \<open>auto simp: net_ok_def Let_def net_counts dest: admit_effect(3)\<close>)
next
  case (net_connect_refused env hostport s eg m)
  from net_connect_refused(1) show ?case
    by (rule connect_begin_refused)
      (use net_connect_refused(2) in \<open>auto simp: net_ok_def Let_def net_counts net_types_def\<close>)
next
  case (net_disconnect s cs1 t cs2 env ev)
  then have r: "\<not> res_done (ct_reservation t)" by (simp add: net_ok_def)
  show ?case
    by (rule connect_finish_log [of t H env ev "ns_egress s"])
      (use net_disconnect r in \<open>auto simp: net_ok_def Let_def net_counts\<close>)
next
  case (net_gate env url verb s eg v)
  show ?case
    by (rule egress_gate_cases [of H env url verb "ns_egress s"])
      (use net_gate in \<open>auto simp: net_ok_def Let_def net_types_def\<close>)
next
  case (net_forward env req url origin pol s eg t)
  from net_forward(1) show ?case
    by (rule forward_begin_ticket)
      (use net_forward(2) in \<open>auto simp: net_ok_def Let_def net_counts dest: admit_effect(3)\<close>)
next
  case (net_forward_refused env req url origin pol s eg m)
  from net_forward_refused(1) show ?case
    by (rule forward_begin_refused) (use net_forward_refused(2) in \<open>auto simp: net_ok_def Let_def net_counts\<close>)
next
  case (net_forwarded s rs1 t rs2 env read fe)
  then have r: "\<not> res_done (rt_reservation t)" by (simp add: net_ok_def)
  show ?case
    by (rule forward_finish_log [of H env t read fe "ns_egress s"])
      (use net_forwarded r in \<open>auto simp: net_ok_def Let_def net_counts\<close>)
next
  case (net_plain env bad req url s eg t)
  from net_plain(1) show ?case
    by (rule plain_begin_ticket)
      (use net_plain(2) in \<open>auto simp: net_ok_def Let_def net_counts dest: admit_effect(3)\<close>)
next
  case (net_plain_refused env bad req url s eg m)
  from net_plain_refused(1) show ?case
    by (rule plain_begin_refused)
      (use net_plain_refused(2) in \<open>auto simp: net_ok_def Let_def net_counts net_types_def\<close>)
next
  case (net_plained s rs1 t rs2 env read pe)
  then have r: "\<not> res_done (rt_reservation t)" by (simp add: net_ok_def)
  show ?case
    by (rule plain_finish_log [of H env t read pe "ns_egress s"])
      (use net_plained r in \<open>auto simp: net_ok_def Let_def net_counts\<close>)
qed (auto simp: net_ok_def Let_def net_counts net_types_def set_policy_def)

lemma log_le_calls [simp]:
  "log_le l (fst (append_log H tk typ salt body l))" "log_le l (fst (admit H tk typ salt body l))"
  "log_le l (fst (complete H tk typ salt body r l))"
  using append_effect admit_effect(1) [OF prod.collapse [symmetric]] complete_effect(1) [of H tk "typ" salt body r l]
  by (blast, blast, cases "complete H tk typ salt body r l", simp)

lemma log_le_twice [simp]:
  "log_le l (fst (complete H tk typ salt body r (fst (append_log H tk' typ' salt' body' l))))"
  "log_le l (fst (append_log H tk' typ' salt' body' (fst (complete H tk typ salt body r l))))"
  by (rule log_le_trans [OF log_le_calls(1) log_le_calls(3)], rule log_le_trans [OF log_le_calls(3) log_le_calls(1)])

lemma connect_finish_le: "log_le (eg_log eg) (eg_log (connect_finish H env t ev eg))"
  by (rule connect_finish_log [of t H env ev eg]) simp_all

lemma forward_finish_le: "log_le (eg_log eg) (eg_log (fst (forward_finish H env t read ev eg)))"
  by (rule forward_finish_log [of H env t read ev eg]) simp_all

lemma plain_finish_le: "log_le (eg_log eg) (eg_log (fst (plain_finish H env t read ev eg)))"
  by (rule plain_finish_log [of H env t read ev eg]) simp_all

lemma connect_begin_le: "log_le (eg_log eg) (eg_log (fst (connect_begin H env hostport eg)))"
proof (cases "snd (connect_begin H env hostport eg)")
  case (Inl m)
  then have "connect_begin H env hostport eg = (fst (connect_begin H env hostport eg), Inl m)" by (simp add: prod_eq_iff)
  then show ?thesis by (rule connect_begin_refused) (auto dest: admit_effect(1))
next
  case (Inr t)
  then have "connect_begin H env hostport eg = (fst (connect_begin H env hostport eg), Inr t)" by (simp add: prod_eq_iff)
  then show ?thesis by (rule connect_begin_ticket) (auto dest: admit_effect(1))
qed

lemma plain_begin_le: "log_le (eg_log eg) (eg_log (fst (plain_begin H env bad req url eg)))"
proof (cases "snd (plain_begin H env bad req url eg)")
  case (Inl m)
  then have "plain_begin H env bad req url eg = (fst (plain_begin H env bad req url eg), Inl m)" by (simp add: prod_eq_iff)
  then show ?thesis by (rule plain_begin_refused) (auto dest: admit_effect(1))
next
  case (Inr t)
  then have "plain_begin H env bad req url eg = (fst (plain_begin H env bad req url eg), Inr t)" by (simp add: prod_eq_iff)
  then show ?thesis by (rule plain_begin_ticket) (auto dest: admit_effect(1))
qed

lemma forward_begin_le: "log_le (eg_log eg) (eg_log (fst (forward_begin H env req url origin pol eg)))"
  by (simp add: forward_begin_def admit_request_def Let_def split: prod.split)
    (metis log_le_calls(2) fst_conv)

lemma egress_gate_le: "log_le (eg_log eg) (eg_log (fst (egress_gate H env url verb eg)))"
  by (rule egress_gate_cases [of H env url verb eg]) auto

lemma net_step_le: "net_step H s t \<Longrightarrow> net_le s t"
proof (induction rule: net_step.induct)
  case (net_connect env hostport s eg t)
  then show ?case using connect_begin_le [of "ns_egress s" H env hostport] by (simp add: net_le_def)
next
  case (net_connect_refused env hostport s eg m)
  then show ?case using connect_begin_le [of "ns_egress s" H env hostport] by (simp add: net_le_def)
next
  case (net_gate env url verb s eg v)
  then show ?case using egress_gate_le [of "ns_egress s" H env url verb] by (simp add: net_le_def)
next
  case (net_forward env req url origin pol s eg t)
  then show ?case using forward_begin_le [of "ns_egress s" H env req url origin pol] by (simp add: net_le_def)
next
  case (net_forward_refused env req url origin pol s eg m)
  then show ?case using forward_begin_le [of "ns_egress s" H env req url origin pol] by (simp add: net_le_def)
next
  case (net_plain env bad req url s eg t)
  then show ?case using plain_begin_le [of "ns_egress s" H env bad req url] by (simp add: net_le_def)
next
  case (net_plain_refused env bad req url s eg m)
  then show ?case using plain_begin_le [of "ns_egress s" H env bad req url] by (simp add: net_le_def)
qed (simp_all add: net_le_def connect_finish_le forward_finish_le plain_finish_le set_policy_def)

interpretation traffic: step_system "net_step H" net_ok net_le for H
  by unfold_locales (auto simp: net_step_ok net_step_le, auto simp: net_le_def dest: log_le_trans)

section \<open>Headers\<close>

text \<open>What may be recorded for a header, by its lower-cased name.\<close>

definition header_entry :: "(string \<Rightarrow> string) \<Rightarrow> string \<Rightarrow> string \<times> string list \<Rightarrow> string option" where
  "header_entry H salt kv =
     (if to_lower (fst kv) \<in> set header_value_allowlist then Some (join '', '' (snd kv))
      else if to_lower (fst kv) \<in> set hashed_headers then Some (''sha256:'' @ salt_hash H salt (join '', '' (snd kv)))
      else None)"

lemma map_of_put: "map_of (put k v m) = (map_of m)(k \<mapsto> v)"
proof
  have "map_of (filter (\<lambda>p. fst p \<noteq> k) m) x = (if x = k then None else map_of m x)" for x
    by (induction m) auto
  then show "map_of (put k v m) x = ((map_of m)(k \<mapsto> v)) x" for x by (simp add: put_def)
qed

lemma record_headers_spec:
  "record_headers H salt h (names, vals) = (names', vals') \<Longrightarrow>
     names' = names @ map (\<lambda>p. to_lower (fst p)) h \<and>
     (\<forall>k v. map_of vals' k = Some v \<longrightarrow>
        map_of vals k = Some v \<or> (\<exists>p \<in> set h. to_lower (fst p) = k \<and> header_entry H salt p = Some v))"
proof (induction h arbitrary: names vals)
  case (Cons p h)
  obtain k v where p: "p = (k, v)" by fastforce
  define vals1 where "vals1 = (if to_lower k \<in> set header_value_allowlist then put (to_lower k) (join '', '' v) vals
         else if to_lower k \<in> set hashed_headers then put (to_lower k) (''sha256:'' @ salt_hash H salt (join '', '' v)) vals
         else vals)"
  have r: "record_headers H salt h (names @ [to_lower k], vals1) = (names', vals')"
    using Cons.prems by (simp add: p vals1_def Let_def)
  have one: "map_of vals1 k' = Some v' \<Longrightarrow> map_of vals k' = Some v' \<or> to_lower (fst p) = k' \<and> header_entry H salt p = Some v'"
    for k' v'
    by (auto simp: vals1_def map_of_put header_entry_def p split: if_splits)
  from Cons.IH [OF r] one show ?case by (fastforce simp: p)
qed simp

section \<open>The pump\<close>

lemma pump_url_hostname:
  assumes "url_parse (pump_url ''https'' host port u) = Some v" and "plain_authority host" "CHR '':'' \<notin> set host"
    and "list_all is_digit port" and "prefix ''/'' (request_uri u)"
  shows "url_hostname v = host" "url_scheme v = ''https''"
proof -
  define port' where "port' = (if port \<noteq> ''443'' \<and> port \<noteq> ''80'' then '':'' @ port else [])"
  have p: "port' = [] \<or> (\<exists>p. port' = CHR '':'' # p \<and> list_all is_digit p)"
    using assms(4) by (simp add: port'_def)
  have u: "url_parse (''https://'' @ host @ port' @ request_uri u) = Some v"
    using assms(1) by (simp add: pump_url_def port'_def)
  note u = url_hostname_https [OF u assms(2,3) p disjI2 [OF assms(5)]]
  show "url_hostname v = host" "url_scheme v = ''https''" by (rule u)+
qed

lemma pump_allowed:
  "pump H scheme host port origin ps eg = (eg', ts) \<Longrightarrow> eg_policy eg' = eg_policy eg \<and>
     (\<forall>t \<in> set ts. (\<exists>pol. eg_policy eg = Some pol \<and> fst (decide pol (rt_url t)) \<and> rt_max_response t = max_response pol) \<and>
        (\<exists>p \<in> set ps. rt_url t = pump_url scheme host port (pu_url p) \<and>
           rt_sent_header t = strip_hop_headers (nr_header (pu_request p))))"
proof (induction ps arbitrary: eg eg' ts)
  case (Cons p ps)
  let ?url = "pump_url scheme host port (pu_url p)"
  show ?case
  proof (cases rule: egress_gate_cases [of H "pu_gate_env p" ?url "nr_method (pu_request p)" eg])
    case (Allowed pol tunnel)
    obtain eg2 a where f: "forward_begin H (pu_env p) (pu_request p) ?url origin pol eg = (eg2, a)" by fastforce
    show ?thesis
    proof (cases a)
      case (Inl m)
      from f [unfolded Inl] obtain l where "eg2 = eg\<lparr>eg_log := l\<rparr>" by (rule forward_begin_refused)
      with Cons.prems Allowed f Inl show ?thesis by (auto simp: Let_def)
    next
      case (Inr t)
      from f [unfolded Inr] have t: "eg_policy eg2 = eg_policy eg" "rt_url t = ?url"
          "rt_sent_header t = strip_hop_headers (nr_header (pu_request p))" "rt_max_response t = max_response pol"
        by (auto elim: forward_begin_ticket)
      obtain eg3 out failed where e: "forward_finish H (pu_env p) t (pu_read p) (pu_end p) eg2 = (eg3, out, failed)"
        by (cases "forward_finish H (pu_env p) t (pu_read p) (pu_end p) eg2") auto
      have e3: "eg_policy eg3 = eg_policy eg"
        using finish_policy(2) [of H "pu_env p" t "pu_read p" "pu_end p" eg2] t(1) by (simp add: e)
      obtain eg4 us where r: "pump H scheme host port origin ps eg3 = (eg4, us)" by fastforce
      from Cons.prems Allowed f Inr e r
      have "(eg', ts) = (if failed \<or> nr_close (pu_request p) then (eg3, [t]) else (eg4, t # us))"
        by (auto simp: Let_def)
      with Cons.IH [OF r] e3 t Allowed(2,3) show ?thesis by (fastforce split: if_splits)
    qed
  qed (use Cons.prems in \<open>auto simp: Let_def\<close>)
qed simp

section \<open>Samples\<close>

definition sample_net :: net_env where
  [go_eval]: "sample_net = \<lparr>ne_tick = sample_tick, ne_salt = ''salt'', ne_id = ''id'', ne_refuse_tick = sample_tick,
     ne_refuse_salt = ''salt'', ne_end_tick = sample_tick, ne_end_salt = ''salt'', ne_millis = 5\<rparr>"

definition sample_egress :: egress where
  [go_eval]: "sample_egress = \<lparr>eg_log = new_audit_log ''seg'' ''t'', eg_policy = Some sample_effective\<rparr>"

definition sample_get :: net_request where
  [go_eval]: "sample_get = \<lparr>nr_method = ''GET'', nr_host = ''api.example.com'',
     nr_header = [(''Authorization'', [''Bearer x'']), (''Proxy-Authorization'', [''Basic y'']), (''X-Trace'', [''z''])],
     nr_close = False\<rparr>"

definition sample_url :: request_url where
  [go_eval]: "sample_url = \<lparr>ru_scheme = [], ru_opaque = [], ru_escaped_path = ''/v1/x'', ru_force_query = False, ru_raw_query = []\<rparr>"

definition sample_answer :: origin_response where
  [go_eval]: "sample_answer = \<lparr>or_status = 200, or_content_length = 2, or_body = ''ok'', or_taken = 2, or_write_err = None\<rparr>"

definition sample_pumped :: pumped where
  [go_eval]: "sample_pumped = \<lparr>pu_request = sample_get, pu_url = sample_url, pu_gate_env = sample_net, pu_env = sample_net,
     pu_read = [], pu_end = Answered sample_answer\<rparr>"

definition no_hash :: "string \<Rightarrow> string" where
  [go_eval]: "no_hash x = ''h''"

definition is_ticket :: "'a + 'b \<Rightarrow> bool" where
  [go_eval]: "is_ticket r = (case r of Inl _ \<Rightarrow> False | Inr _ \<Rightarrow> True)"

lemma is_ticketD: "is_ticket (snd p) \<Longrightarrow> \<exists>t. p = (fst p, Inr t)"
  by (cases p) (auto simp: is_ticket_def split: sum.splits)

lemma sample_connect: "\<exists>t. connect_begin no_hash sample_net ''Api.Example.com:443'' sample_egress =
    (fst (connect_begin no_hash sample_net ''Api.Example.com:443'' sample_egress), Inr t)"
  by (rule is_ticketD) code_simp

lemma sample_plain: "\<exists>t. plain_begin no_hash sample_net False sample_get ''https://api.example.com/v1/x'' sample_egress =
    (fst (plain_begin no_hash sample_net False sample_get ''https://api.example.com/v1/x'' sample_egress), Inr t)"
  by (rule is_ticketD) code_simp

text \<open>
  A request line with an opaque URL inside an intercepted connection: its \<open>RequestURI\<close> does not
  start with a slash, and the URL that \<open>pump\<close> builds, decides on and records names another host
  than the one the connection is to.
\<close>

lemma opaque_request_misattributed:
  "map_option url_hostname (url_parse (pump_url ''https'' ''b.example.com'' ''443''
     \<lparr>ru_scheme = ''x'', ru_opaque = ''@a.example.com/any'', ru_escaped_path = [], ru_force_query = False, ru_raw_query = []\<rparr>)) =
   Some ''a.example.com''"
  by code_simp

text \<open>A body of exactly the bound is relayed whole and still recorded as truncated.\<close>

lemma exact_body_marked_truncated:
  assumes "int (length (or_body resp)) = rt_max_response t" and "or_taken resp = length (or_body resp)"
  shows "relayed False t resp = or_body resp"
    "\<exists>kvs. request_body_json H t read status (relayed False t resp) ms = JObj kvs \<and>
       (''truncated'', JBool True) \<in> set kvs"
proof -
  show r: "relayed False t resp = or_body resp"
    using assms by (simp add: relayed_def assms(1) [symmetric])
  have "hc_count (hc_write (hasher (rt_salt t)) (relayed False t resp)) \<ge> rt_max_response t"
    using assms(1) by (simp add: r hc_count_def hc_write_def hasher_def)
  then show "\<exists>kvs. request_body_json H t read status (relayed False t resp) ms = JObj kvs \<and>
       (''truncated'', JBool True) \<in> set kvs"
    by (simp add: request_body_json_def Let_def)
qed

section \<open>Properties\<close>

text \<open>
  C9. No connection before its record: a CONNECT gets its licence to dial only when the log is not
  saturated, the session policy admits the host, and the log has taken a \<open>net.connect.intent\<close> entry
  with exactly the host, port and mode that are then dialled, with room reserved for its completion.
\<close>

theorem connect_recorded_before_dial:
  assumes "connect_begin H env hostport eg = (eg', Inr t)"
  shows "\<not> log_saturated (eg_log eg) \<and> (ct_host t, ct_port t) = split_host_port hostport ''443'' \<and>
    (\<exists>pol rule. eg_policy eg = Some pol \<and> admit_host pol (ct_host t) = (True, ct_tunnel t, rule)) \<and>
    (\<exists>e. read_entry (rec_raw (al_records (eg_log eg') ! length (al_records (eg_log eg)))) = Some e \<and>
       en_type e = ''net.connect.intent'' \<and>
       json_marshal (connect_intent_body (ct_id t) (ct_host t) (ct_port t) (ct_mode t)) = Inr (en_body e)) \<and>
    al_reserved_entries (eg_log eg') = al_reserved_entries (eg_log eg) + 1"
  using assms
proof (rule connect_begin_ticket)
  fix pol rule l r
  assume t: "\<not> log_saturated (eg_log eg)" "eg_policy eg = Some pol" "admit_host pol (ct_host t) = (True, ct_tunnel t, rule)"
    "(ct_host t, ct_port t) = split_host_port hostport ''443''" "eg' = eg\<lparr>eg_log := l\<rparr>"
    and a: "admit H (ne_tick env) ''net.connect.intent'' (ne_salt env)
       (connect_intent_body (ct_id t) (ct_host t) (ct_port t) (ct_mode t)) (eg_log eg) = (l, Inr r)"
  have "json_plain (connect_intent_body (ct_id t) (ct_host t) (ct_port t) (ct_mode t))"
    by (simp add: connect_intent_body_def)
  from admitted_entry [OF a this] admit_effect(2) [OF a] t show ?thesis by auto
qed

theorem connect_recorded_before_dial_witness:
  "\<exists>t. connect_begin no_hash sample_net ''Api.Example.com:443'' sample_egress =
      (fst (connect_begin no_hash sample_net ''Api.Example.com:443'' sample_egress), Inr t) \<and>
     (ct_host t, ct_port t) = (''api.example.com'', ''443'')"
proof -
  obtain t where t: "connect_begin no_hash sample_net ''Api.Example.com:443'' sample_egress =
      (fst (connect_begin no_hash sample_net ''Api.Example.com:443'' sample_egress), Inr t)" using sample_connect by blast
  have "split_host_port ''Api.Example.com:443'' ''443'' = (''api.example.com'', ''443'')" by code_simp
  with connect_recorded_before_dial [OF t] t show ?thesis by metis
qed




lemma sample_pump_relays: "snd (pump no_hash ''https'' ''api.example.com'' ''443'' ''fp'' [sample_pumped] sample_egress) \<noteq> []"
  by code_simp


text \<open>
  On an intercepted connection the policy judges the host that is connected to: for a request in
  origin form (its \<open>RequestURI\<close> starts with a slash) the URL \<open>pump\<close> builds from the CONNECT host, a
  numeric port and the client's request line parses, if at all, to exactly that host over https.
\<close>

theorem pump_url_names_connect_host:
  assumes "url_parse (pump_url ''https'' host port u) = Some v" and "dns_name host"
    and "list_all is_digit port" and "prefix ''/'' (request_uri u)"
  shows "url_hostname v = host \<and> url_scheme v = ''https''"
proof -
  have "list_all (\<lambda>c. \<not> dns_char c) ''/?#@[%:''" by code_simp
  then have "plain_authority host" "CHR '':'' \<notin> set host"
    using assms(2) by (auto simp: plain_authority_def dns_name_def list_all_iff)
  from pump_url_hostname [OF assms(1) this assms(3,4)] show ?thesis by simp
qed

theorem pump_url_names_connect_host_witness:
  "\<exists>v. url_parse (pump_url ''https'' ''api.example.com'' ''8443'' sample_url) = Some v \<and> url_hostname v = ''api.example.com''"
proof -
  have "url_parse (pump_url ''https'' ''api.example.com'' ''8443'' sample_url) \<noteq> None" by code_simp
  then obtain v where v: "url_parse (pump_url ''https'' ''api.example.com'' ''8443'' sample_url) = Some v" by blast
  have "dns_name ''api.example.com''" "list_all is_digit ''8443''" "prefix ''/'' (request_uri sample_url)" by code_simp+
  with pump_url_names_connect_host [OF v] v show ?thesis by blast
qed

text \<open>
  Credentials do not enter the transcript: \<open>recordHeaders\<close> records the name of every header,
  but a value only for the five harmless names, and for the four credential names only its salted
  hash; no other header's value is recorded.
\<close>

theorem header_values_confined:
  assumes "record_headers H salt h ([], []) = (names, vals)"
  shows "names = map (\<lambda>p. to_lower (fst p)) h \<and>
    (\<forall>k v. map_of vals k = Some v \<longrightarrow>
       (\<exists>p \<in> set h. to_lower (fst p) = k \<and>
          (if k \<in> set header_value_allowlist then v = join '', '' (snd p)
           else k \<in> set hashed_headers \<and> v = ''sha256:'' @ H (salt @ join '', '' (snd p)))))"
  using record_headers_spec [OF assms]
  by (fastforce simp: header_entry_def salt_hash_def split: if_splits)

theorem header_values_confined_witness:
  "map_of (snd (record_headers no_hash ''salt'' (nr_header sample_get) ([], []))) ''x-trace'' = None"
proof (rule ccontr)
  assume "map_of (snd (record_headers no_hash ''salt'' (nr_header sample_get) ([], []))) ''x-trace'' \<noteq> None"
  then obtain v where "map_of (snd (record_headers no_hash ''salt'' (nr_header sample_get) ([], []))) ''x-trace'' = Some v" by blast
  with header_values_confined [OF prod.collapse [symmetric, of "record_headers no_hash ''salt'' (nr_header sample_get) ([], [])"]]
  have "''x-trace'' \<in> set header_value_allowlist \<or> ''x-trace'' \<in> set hashed_headers" by (metis (no_types, lifting))
  moreover have "\<not> (''x-trace'' \<in> set header_value_allowlist \<or> ''x-trace'' \<in> set hashed_headers)" by code_simp
  ultimately show False by blast
qed

text \<open>
  C27. All egress is accounted for: over any interleaving of connections, intercepted and plain
  requests, failures, policy changes and other writers of the log, each connect intent has exactly
  one \<open>net.connect\<close> or \<open>net.tunnel\<close> entry or an open connection, and each request intent exactly one
  \<open>net.request\<close> entry or a request under way.
\<close>

theorem egress_accounted_for:
  assumes "reaches (net_step H) \<lparr>ns_egress = new_egress (new_audit_log seg now), ns_conns = [], ns_reqs = []\<rparr> s"
  shows "type_count ''net.connect.intent'' (eg_log (ns_egress s)) =
      type_count ''net.connect'' (eg_log (ns_egress s)) + type_count ''net.tunnel'' (eg_log (ns_egress s)) + length (ns_conns s) \<and>
    type_count ''net.request.intent'' (eg_log (ns_egress s)) =
      type_count ''net.request'' (eg_log (ns_egress s)) + length (ns_reqs s)"
proof -
  have "net_ok \<lparr>ns_egress = new_egress (new_audit_log seg now), ns_conns = [], ns_reqs = []\<rparr>"
    by (simp add: net_ok_def type_count_def new_egress_def)
  from traffic.reaches_inv [OF assms this] show ?thesis by (simp add: net_ok_def Let_def)
qed

theorem egress_accounted_for_witness:
  "\<exists>s :: net_sys. ns_reqs s = [] \<and> type_count ''net.request.intent'' (eg_log (ns_egress s)) = type_count ''net.request'' (eg_log (ns_egress s)) \<and>
     eg_policy (ns_egress s) = Some sample_effective"
proof -
  define s0 where "s0 = \<lparr>ns_egress = new_egress (new_audit_log ''seg'' ''t''), ns_conns = [], ns_reqs = []\<rparr>"
  have "reaches (net_step no_hash) s0 (s0\<lparr>ns_egress := set_policy sample_effective (ns_egress s0)\<rparr>)"
    by (rule reaches_one) (rule net_set_policy)
  from egress_accounted_for [OF this [unfolded s0_def]] show ?thesis
    by (intro exI [of _ "s0\<lparr>ns_egress := set_policy sample_effective (ns_egress s0)\<rparr>"]) (simp add: s0_def set_policy_def)
qed

text \<open>
  A denial is never silent: when the checks refuse a request and the log still takes entries, the
  next line of the log is a \<open>net.deny\<close> with the method, the URL and the rule that decided (the missing
  policy, or what \<open>Decide\<close> named).
\<close>

theorem denial_recorded:
  assumes "egress_gate H env url verb eg = (eg', Inl m)" and "\<not> log_saturated (eg_log eg)"
  shows "\<exists>e rule why. read_entry (rec_raw (al_records (eg_log eg') ! length (al_records (eg_log eg)))) = Some e \<and>
    en_type e = ''net.deny'' \<and> json_marshal (deny_body verb url rule why) = Inr (en_body e) \<and>
    (case eg_policy eg of None \<Rightarrow> rule = ''no-policy'' | Some pol \<Rightarrow> \<not> fst (decide pol url) \<and> rule = snd (snd (decide pol url)))"
proof (cases rule: egress_gate_cases [of H env url verb eg])
  case (Denied rule why m')
  obtain l h err where a: "append_log H (ne_refuse_tick env) ''net.deny'' (ne_refuse_salt env) (deny_body verb url rule why) (eg_log eg) = (l, h, err)"
    by (cases "append_log H (ne_refuse_tick env) ''net.deny'' (ne_refuse_salt env) (deny_body verb url rule why) (eg_log eg)")
  have "json_plain (deny_body verb url rule why)" by (simp add: deny_body_def)
  note ent = appended_entry [OF a this]
  have "err = None"
    using a Denied(1)
    by (cases rule: append_cases [of "eg_log eg" H "ne_refuse_tick env" "''net.deny''" "ne_refuse_salt env" "deny_body verb url rule why"])
      (auto simp: log_saturated_def deny_body_def)
  moreover have "eg_log eg' = l" using assms(1) Denied(2) a by (auto simp: refuse_def)
  ultimately show ?thesis using ent Denied(3) by auto
qed (use assms in auto)

theorem denial_recorded_witness:
  "\<exists>e. read_entry (rec_raw (al_records (eg_log (fst (egress_gate no_hash sample_net ''https://evil.example.com/'' ''GET'' sample_egress))) ! 0)) = Some e \<and>
     en_type e = ''net.deny''"
proof -
  have "\<exists>m. egress_gate no_hash sample_net ''https://evil.example.com/'' ''GET'' sample_egress =
      (fst (egress_gate no_hash sample_net ''https://evil.example.com/'' ''GET'' sample_egress), Inl m)"
  proof -
    have "\<not> is_ticket (snd (egress_gate no_hash sample_net ''https://evil.example.com/'' ''GET'' sample_egress))" by code_simp
    then show ?thesis
      by (cases "egress_gate no_hash sample_net ''https://evil.example.com/'' ''GET'' sample_egress")
        (auto simp: is_ticket_def split: sum.splits)
  qed
  then obtain m where m: "egress_gate no_hash sample_net ''https://evil.example.com/'' ''GET'' sample_egress =
      (fst (egress_gate no_hash sample_net ''https://evil.example.com/'' ''GET'' sample_egress), Inl m)" by blast
  have "\<not> log_saturated (eg_log sample_egress)" "length (al_records (eg_log sample_egress)) = 0" by code_simp+
  with denial_recorded [OF m] show ?thesis by auto
qed



end
