(* ===== verification/Go_Base64.thy ===== *)
theory Go_Base64 imports Go_Strings begin

text \<open>
  \<open>base64.StdEncoding\<close> of \<open>encoding/base64\<close>, padded: \<open>EncodeToString\<close> and \<open>DecodeString\<close>, which
  skips line breaks, wants full groups of four and nothing after the padding, and does not look at
  the unused bits of the last group.
\<close>

definition b64_char :: "nat \<Rightarrow> char" where
  [go_eval]: "b64_char n =
     (if n < 26 then char_of (65 + n) else if n < 52 then char_of (71 + n)
      else if n < 62 then char_of (n - 4) else if n = 62 then CHR ''+'' else CHR ''/'')"

definition b64_val :: "char \<Rightarrow> nat option" where
  [go_eval]: "b64_val c =
     (let n = of_char c :: nat in
      if 65 \<le> n \<and> n \<le> 90 then Some (n - 65)
      else if 97 \<le> n \<and> n \<le> 122 then Some (n - 71)
      else if 48 \<le> n \<and> n \<le> 57 then Some (n + 4)
      else if c = CHR ''+'' then Some 62 else if c = CHR ''/'' then Some 63 else None)"

definition b64_group :: "nat \<Rightarrow> nat \<Rightarrow> nat \<Rightarrow> string" where
  [go_eval]: "b64_group a b c =
     [b64_char (a div 4), b64_char (a mod 4 * 16 + b div 16), b64_char (b mod 16 * 4 + c div 64), b64_char (c mod 64)]"

fun b64_encode :: "string \<Rightarrow> string" where
  "b64_encode [] = []"
| "b64_encode [a] = take 2 (b64_group (of_char a) 0 0) @ ''==''"
| "b64_encode [a, b] = take 3 (b64_group (of_char a) (of_char b) 0) @ ''=''"
| "b64_encode (a # b # c # s) = b64_group (of_char a) (of_char b) (of_char c) @ b64_encode s"

definition b64_bytes :: "nat \<Rightarrow> nat \<Rightarrow> nat \<Rightarrow> nat \<Rightarrow> string" where
  [go_eval]: "b64_bytes i j k l =
     [char_of (i * 4 + j div 16), char_of (j mod 16 * 16 + k div 4), char_of (k mod 4 * 64 + l)]"

fun b64_groups :: "string \<Rightarrow> string option" where
  "b64_groups [] = Some []"
| "b64_groups (a # b # c # d # s) =
     (if d = CHR ''='' then
        (if s \<noteq> [] then None
         else if c = CHR ''='' then
           (case (b64_val a, b64_val b) of
              (Some i, Some j) \<Rightarrow> Some (take 1 (b64_bytes i j 0 0)) | _ \<Rightarrow> None)
         else
           (case (b64_val a, b64_val b, b64_val c) of
              (Some i, Some j, Some k) \<Rightarrow> Some (take 2 (b64_bytes i j k 0)) | _ \<Rightarrow> None))
      else
        (case (b64_val a, b64_val b, b64_val c, b64_val d) of
           (Some i, Some j, Some k, Some l) \<Rightarrow> map_option ((@) (b64_bytes i j k l)) (b64_groups s)
         | _ \<Rightarrow> None))"
| "b64_groups s = None"

definition b64_decode :: "string \<Rightarrow> string option" where
  [go_eval]: "b64_decode s = b64_groups (filter (\<lambda>c. c \<noteq> CHR 0x0A \<and> c \<noteq> CHR 0x0D) s)"

lemma b64_val_char [simp]: "n < 64 \<Longrightarrow> b64_val (b64_char n) = Some n"
  by (auto simp: b64_val_def b64_char_def Let_def of_char_of)

lemma b64_char_plain:
  assumes "n < 64"
  shows "b64_char n \<noteq> CHR ''=''" "b64_char n \<noteq> CHR 0x0A" "b64_char n \<noteq> CHR 0x0D"
proof -
  have "b64_val CHR ''='' = None" "b64_val CHR 0x0A = None" "b64_val CHR 0x0D = None" by code_simp+
  with b64_val_char [OF assms] show "b64_char n \<noteq> CHR ''=''" "b64_char n \<noteq> CHR 0x0A" "b64_char n \<noteq> CHR 0x0D"
    by force+
qed

lemma b64_bytes_group:
  fixes a b c :: nat
  assumes "a < 256" "b < 256" "c < 256"
  shows "b64_bytes (a div 4) (a mod 4 * 16 + b div 16) (b mod 16 * 4 + c div 64) (c mod 64) = map char_of [a, b, c]"
proof -
  have "b div 16 < 16" "c div 64 < 4" using assms by linarith+
  then have "a div 4 * 4 + (a mod 4 * 16 + b div 16) div 16 = a"
      "(a mod 4 * 16 + b div 16) mod 16 * 16 + (b mod 16 * 4 + c div 64) div 4 = b"
      "(b mod 16 * 4 + c div 64) mod 4 * 64 + c mod 64 = c"
    by simp_all
  then show ?thesis by (simp add: b64_bytes_def)
qed

lemma b64_group_digits:
  fixes a b c :: nat
  assumes "a < 256" "b < 256" "c < 256"
  shows "a div 4 < 64" "a mod 4 * 16 + b div 16 < 64" "b mod 16 * 4 + c div 64 < 64" "c mod 64 < 64"
proof -
  have "a mod 4 < 4" "b mod 16 < 16" "b div 16 < 16" "c div 64 < 4" using assms by linarith+
  then show "a div 4 < 64" "a mod 4 * 16 + b div 16 < 64" "b mod 16 * 4 + c div 64 < 64" "c mod 64 < 64"
    using assms by linarith+
qed

lemma b64_groups_encode: "b64_groups (b64_encode s) = Some s"
proof (induction s rule: b64_encode.induct)
  case (2 a)
  show ?case using b64_group_digits [of "of_char a" 0 0] b64_bytes_group [of "of_char a" 0 0] of_char_less_256 [of a]
    by (simp add: b64_group_def)
next
  case (3 a b)
  show ?case using b64_group_digits [of "of_char a" "of_char b" 0] b64_bytes_group [of "of_char a" "of_char b" 0]
      of_char_less_256 [of a] of_char_less_256 [of b]
    by (simp add: b64_group_def b64_char_plain)
next
  case (4 a b c s)
  show ?case using b64_group_digits [of "of_char a" "of_char b" "of_char c"]
      b64_bytes_group [of "of_char a" "of_char b" "of_char c"]
      of_char_less_256 [of a] of_char_less_256 [of b] of_char_less_256 [of c] 4
    by (simp add: b64_group_def b64_char_plain)
qed simp

lemma b64_encode_lines: "filter (\<lambda>c. c \<noteq> CHR 0x0A \<and> c \<noteq> CHR 0x0D) (b64_encode s) = b64_encode s"
proof (induction s rule: b64_encode.induct)
  case (2 a)
  show ?case using b64_group_digits [of "of_char a" 0 0] of_char_less_256 [of a]
    by (simp add: b64_group_def b64_char_plain)
next
  case (3 a b)
  show ?case using b64_group_digits [of "of_char a" "of_char b" 0] of_char_less_256 [of a] of_char_less_256 [of b]
    by (simp add: b64_group_def b64_char_plain)
next
  case (4 a b c s)
  show ?case using b64_group_digits [of "of_char a" "of_char b" "of_char c"]
      of_char_less_256 [of a] of_char_less_256 [of b] of_char_less_256 [of c] 4
    by (simp add: b64_group_def b64_char_plain)
qed simp

lemma b64_decode_encode [simp]: "b64_decode (b64_encode s) = Some s"
  by (simp add: b64_decode_def b64_encode_lines b64_groups_encode)

end
