(* ===== verification/Checkpoint.thy ===== *)
theory Checkpoint imports Transcript Go_Base64 begin

text \<open>
  Signed checkpoints, \<open>api-server/checkpoint.go\<close>: loading the TLS key boot has written, and the
  enclave's signature over the exact bytes of a checkpoint. Parsing a key, the two digests and ECDSA
  are Go's crypto packages: \<open>H\<close> is hexadecimal SHA-256, \<open>D\<close> SHA-384, \<open>sign\<close> the signature or an
  error. A private key is a value of any type.
\<close>

section \<open>The signer\<close>

record 'k signer =
  sg_key :: 'k
  sg_pub_pem :: string
  sg_key_fp :: string

text \<open>The value of the environment variable, empty when unset.\<close>

definition key_path :: "string \<Rightarrow> string" where
  [go_eval]: "key_path override = (if override \<noteq> [] then override else ''/run/tinfoil/tls/key.pem'')"

text \<open>The key functions of \<open>crypto/x509\<close> and \<open>encoding/pem\<close> that the signer calls.\<close>

record 'k key_lib =
  kl_pem_decode :: "string \<Rightarrow> (string \<times> string) option"
  kl_parse_ec :: "string \<Rightarrow> string + 'k"
  kl_parse_pkcs8 :: "string \<Rightarrow> string + (string + 'k)"
  kl_marshal_public :: "'k \<Rightarrow> string + string"
  kl_pem_encode :: "string \<Rightarrow> string"

definition signer_from_key :: "'k key_lib \<Rightarrow> (string \<Rightarrow> string) \<Rightarrow> 'k \<Rightarrow> string + 'k signer" where
  [go_eval]: "signer_from_key lib H key =
     (case kl_marshal_public lib key of
        Inl e \<Rightarrow> Inl (''marshaling public key: '' @ e)
      | Inr der \<Rightarrow> Inr \<lparr>sg_key = key, sg_pub_pem = kl_pem_encode lib der, sg_key_fp = H der\<rparr>)"

text \<open>\<open>file\<close> is what \<open>os.ReadFile\<close> returns; a parsed PKCS#8 key of another kind is its type's name.\<close>

definition load_signer_once :: "'k key_lib \<Rightarrow> (string \<Rightarrow> string) \<Rightarrow> string \<Rightarrow> string + string \<Rightarrow> string + 'k signer" where
  [go_eval]: "load_signer_once lib H override file =
     (case file of
        Inl e \<Rightarrow> Inl e
      | Inr pem_bytes \<Rightarrow>
          (case kl_pem_decode lib pem_bytes of
             None \<Rightarrow> Inl (''no PEM block in '' @ key_path override)
           | Some (block_type, bytes) \<Rightarrow>
               if block_type = ''EC PRIVATE KEY'' then
                 (case kl_parse_ec lib bytes of
                    Inl e \<Rightarrow> Inl (''parsing EC private key: '' @ e)
                  | Inr key \<Rightarrow> signer_from_key lib H key)
               else if block_type = ''PRIVATE KEY'' then
                 (case kl_parse_pkcs8 lib bytes of
                    Inl e \<Rightarrow> Inl (''parsing PKCS#8 private key: '' @ e)
                  | Inr (Inl type_name) \<Rightarrow> Inl (''TLS key is '' @ type_name @ '', want *ecdsa.PrivateKey'')
                  | Inr (Inr key) \<Rightarrow> signer_from_key lib H key)
               else Inl (''unexpected PEM block type '' @ go_quote block_type)))"

text \<open>
  The retry loop: each round is what reading the file gives and whether the deadline has passed by
  then. With no more rounds to look at, the call has not returned.
\<close>

fun load_signer :: "'k key_lib \<Rightarrow> (string \<Rightarrow> string) \<Rightarrow> string \<Rightarrow> (string + string) \<times> bool \<Rightarrow>
    ((string + string) \<times> bool) list \<Rightarrow> (string + 'k signer) option" where
  "load_signer lib H override (file, late) rounds =
     (case load_signer_once lib H override file of
        Inr s \<Rightarrow> Some (Inr s)
      | Inl e \<Rightarrow>
          if late then Some (Inl (''waiting for '' @ key_path override @ '': '' @ e))
          else (case rounds of [] \<Rightarrow> None | r # rs \<Rightarrow> load_signer lib H override r rs))"

section \<open>Checkpoints\<close>

record checkpoint =
  cp_segment :: string
  cp_seq :: int
  cp_head :: string
  cp_policy :: string
  cp_key_fp :: string
  cp_ts :: string

record signed_checkpoint =
  sc_checkpoint :: checkpoint
  sc_alg :: string
  sc_sig :: string
  sc_pub_key :: string
  sc_binding :: json

definition checkpoint_json :: "checkpoint \<Rightarrow> json" where
  [go_eval]: "checkpoint_json c = JObj
     [(''segment_id'', JStr (cp_segment c)), (''seq'', JInt (cp_seq c)), (''audit_head'', JStr (cp_head c)),
      (''effective_policy_sha256'', JStr (cp_policy c)), (''tls_key_fp'', JStr (cp_key_fp c)),
      (''ts'', JStr (cp_ts c))]"

definition signed_checkpoint_json :: "signed_checkpoint \<Rightarrow> json" where
  [go_eval]: "signed_checkpoint_json s = JObj
     [(''checkpoint'', checkpoint_json (sc_checkpoint s)), (''alg'', JStr (sc_alg s)), (''sig'', JStr (sc_sig s)),
      (''pubkey'', JStr (sc_pub_key s)), (''binding'', sc_binding s)]"

definition sign_checkpoint :: "('k \<Rightarrow> string \<Rightarrow> string + string) \<Rightarrow> (string \<Rightarrow> string) \<Rightarrow> string \<Rightarrow> 'k signer \<Rightarrow>
    string \<Rightarrow> int \<Rightarrow> string \<Rightarrow> string \<Rightarrow> string + signed_checkpoint" where
  [go_eval]: "sign_checkpoint sign D now s segment seq head policy_hash =
     (let cp = \<lparr>cp_segment = segment, cp_seq = seq, cp_head = head, cp_policy = policy_hash,
                cp_key_fp = sg_key_fp s, cp_ts = now\<rparr>
      in (case json_marshal (checkpoint_json cp) of
            Inl e \<Rightarrow> Inl (''marshaling checkpoint: '' @ e)
          | Inr body \<Rightarrow>
              (case sign (sg_key s) (D body) of
                 Inl e \<Rightarrow> Inl (''signing checkpoint: '' @ e)
               | Inr sig \<Rightarrow>
                   Inr \<lparr>sc_checkpoint = cp, sc_alg = ''ECDSA-P384-SHA384'', sc_sig = b64_encode sig,
                        sc_pub_key = sg_pub_pem s, sc_binding = JNull\<rparr>)))"

text \<open>Reading the signed bytes back, as a verifier that holds only them does.\<close>

definition read_checkpoint :: "string \<Rightarrow> checkpoint option" where
  [go_eval]: "read_checkpoint s =
     Option.bind (strip (''{'' @ json_key ''segment_id'') s) (\<lambda>s.
       Option.bind (read_string s) (\<lambda>(segment, s).
       Option.bind (strip ('','' @ json_key ''seq'') s) (\<lambda>s.
       let ds = takeWhile is_digit s in
       Option.bind (strip ('','' @ json_key ''audit_head'') (dropWhile is_digit s)) (\<lambda>s.
       Option.bind (read_string s) (\<lambda>(head, s).
       Option.bind (strip ('','' @ json_key ''effective_policy_sha256'') s) (\<lambda>s.
       Option.bind (read_string s) (\<lambda>(policy, s).
       Option.bind (strip ('','' @ json_key ''tls_key_fp'') s) (\<lambda>s.
       Option.bind (read_string s) (\<lambda>(fp, s).
       Option.bind (strip ('','' @ json_key ''ts'') s) (\<lambda>s.
       Option.bind (read_string s) (\<lambda>(ts, s).
         if ds = [] \<or> s \<noteq> ''}'' then None
         else Some \<lparr>cp_segment = segment, cp_seq = int (digits_val ds), cp_head = head, cp_policy = policy,
                    cp_key_fp = fp, cp_ts = ts\<rparr>)))))))))))"

lemma read_checkpoint_marshal:
  assumes "0 \<le> cp_seq c" and "json_marshal (checkpoint_json c) = Inr body"
  shows "read_checkpoint body = Some c"
proof -
  define n where "n = nat (cp_seq c)"
  have n: "itoa (cp_seq c) = nat_digits n" "int n = cp_seq c" using assms(1) by (simp_all add: itoa_def n_def)
  have b: "body = ''{'' @ json_key ''segment_id'' @ json_quote (cp_segment c) @ '','' @ json_key ''seq'' @ nat_digits n @
      '','' @ json_key ''audit_head'' @ json_quote (cp_head c) @ '','' @ json_key ''effective_policy_sha256'' @
      json_quote (cp_policy c) @ '','' @ json_key ''tls_key_fp'' @ json_quote (cp_key_fp c) @ '','' @ json_key ''ts'' @
      json_quote (cp_ts c) @ ''}''"
    using assms(2) n(1) by (simp add: checkpoint_json_def json_member_def json_key_def)
  show ?thesis
    unfolding b by (cases c) (use n in \<open>simp add: read_checkpoint_def takeWhile_itoa Let_def\<close>)
qed

section \<open>Properties\<close>

text \<open>
  C37. A signature determines the statement: what is signed is the digest of bytes from which a
  verifier reads back exactly the checkpoint that is served next to the signature, the segment, the
  number of entries, the head, the policy hash and the signer's own fingerprint among them.
\<close>

theorem signature_covers_checkpoint:
  assumes "sign_checkpoint sign D now s segment seq head policy_hash = Inr sc" and "0 \<le> seq"
  shows "\<exists>body sig. sign (sg_key s) (D body) = Inr sig \<and> sc_sig sc = b64_encode sig \<and> b64_decode (sc_sig sc) = Some sig \<and>
    json_marshal (checkpoint_json (sc_checkpoint sc)) = Inr body \<and> read_checkpoint body = Some (sc_checkpoint sc) \<and>
    sc_checkpoint sc = \<lparr>cp_segment = segment, cp_seq = seq, cp_head = head, cp_policy = policy_hash,
      cp_key_fp = sg_key_fp s, cp_ts = now\<rparr>"
proof -
  define cp where "cp = \<lparr>cp_segment = segment, cp_seq = seq, cp_head = head, cp_policy = policy_hash,
      cp_key_fp = sg_key_fp s, cp_ts = now\<rparr>"
  have "json_ok (checkpoint_json cp)" by (simp add: checkpoint_json_def)
  then obtain body where body: "json_marshal (checkpoint_json cp) = Inr body" by (auto simp: json_marshal_ok)
  from assms(1) body obtain sig where sig: "sign (sg_key s) (D body) = Inr sig"
    and sc: "sc = \<lparr>sc_checkpoint = cp, sc_alg = ''ECDSA-P384-SHA384'', sc_sig = b64_encode sig,
        sc_pub_key = sg_pub_pem s, sc_binding = JNull\<rparr>"
    by (auto simp: sign_checkpoint_def Let_def cp_def [symmetric] split: sum.splits)
  have "read_checkpoint body = Some cp"
    using assms(2) by (intro read_checkpoint_marshal [OF _ body]) (simp add: cp_def)
  with sig sc body show ?thesis by (auto simp: cp_def)
qed

theorem signature_covers_checkpoint_witness:
  "\<exists>sc. sign_checkpoint (\<lambda>k d. Inr (k @ d)) id ''t'' \<lparr>sg_key = ''k'', sg_pub_pem = ''p'', sg_key_fp = ''f''\<rparr>
      ''seg'' 3 ''head'' ''pol'' = Inr sc \<and> cp_head (sc_checkpoint sc) = ''head''"
proof -
  obtain sc where s: "sign_checkpoint (\<lambda>k d. Inr (k @ d)) id ''t'' \<lparr>sg_key = ''k'', sg_pub_pem = ''p'', sg_key_fp = ''f''\<rparr>
      ''seg'' 3 ''head'' ''pol'' = Inr sc"
    by (simp add: sign_checkpoint_def checkpoint_json_def json_member_def)
  from signature_covers_checkpoint [OF s] s show ?thesis by auto
qed

end
