(* ===== verification/Audit_Api.thy ===== *)
theory Audit_Api imports Egress_Safety Checkpoint begin

text \<open>
  The \<open>/audit/*\<close> surface, \<open>api-server/audit_api.go\<close>: the signed head, the log itself, the
  installation of the session policy and the resumption of a prior segment. The state is the shared
  egress state (log and enforced policy), the signer once it is loaded, the API's own copy of the
  policy and the fingerprint of the interception CA.
\<close>

section \<open>State and environment\<close>

record 'k control =
  cn_egress :: egress
  cn_signer :: "'k signer option"
  cn_signer_err :: "string option"
  cn_signer_ready :: bool
  cn_policy :: "effective_policy option"
  cn_ca_fp :: string

text \<open>A request body bounded by \<open>MaxBytesReader\<close>, and the text of the decoder's error, if it fails.\<close>

record api_env =
  ae_ceiling :: string
  ae_decode_err :: string
  ae_ticks :: "nat \<Rightarrow> tick"
  ae_salts :: "nat \<Rightarrow> string"

definition max_control_body :: nat where
  [go_eval]: "max_control_body = 1048576"

definition set_signer :: "'k signer \<Rightarrow> 'k control \<Rightarrow> 'k control" where
  [go_eval]: "set_signer s cn = cn\<lparr>cn_signer := Some s, cn_signer_ready := True\<rparr>"

definition key_fp_or_empty :: "'k signer option \<Rightarrow> string" where
  [go_eval]: "key_fp_or_empty s = (case s of None \<Rightarrow> [] | Some s \<Rightarrow> sg_key_fp s)"

definition require_signer :: "'k control \<Rightarrow> http_response + 'k signer" where
  [go_eval]: "require_signer cn =
     (case cn_signer cn of
        Some s \<Rightarrow> Inr s
      | None \<Rightarrow> Inl (json_error 503
          (case cn_signer_err cn of
             None \<Rightarrow> ''checkpoint signer not ready''
           | Some e \<Rightarrow> ''checkpoint signer unavailable: '' @ e)))"

definition json_ok_response :: "json \<Rightarrow> http_response" where
  [go_eval]: "json_ok_response j =
     \<lparr>hr_status = 200, hr_headers = [(''Content-Type'', ''application/json'')],
      hr_body = (case json_marshal j of Inl _ \<Rightarrow> [] | Inr b \<Rightarrow> b @ [CHR 0x0A])\<rparr>"

section \<open>The head\<close>

definition policy_info :: "effective_policy option \<Rightarrow> json" where
  [go_eval]: "policy_info p =
     (case p of
        None \<Rightarrow> JObj []
      | Some e \<Rightarrow> JObj [(''ceiling_sha256'', JStr (ep_ceiling_sha e)), (''effective_sha256'', JStr (ep_eff_sha e)),
                       (''requested_sha256'', JStr (ep_req_sha e))])"

definition policy_hash :: "effective_policy option \<Rightarrow> string" where
  [go_eval]: "policy_hash p = (case p of None \<Rightarrow> [] | Some e \<Rightarrow> ep_eff_sha e)"

definition head_response_json :: "audit_log \<Rightarrow> effective_policy option \<Rightarrow> signed_checkpoint \<Rightarrow> json" where
  [go_eval]: "head_response_json l p sc = JObj
     [(''segment_id'', JStr (segment_id l)), (''seq'', JInt (snd (log_head l))), (''audit_head'', JStr (fst (log_head l))),
      (''policy'', policy_info p), (''started_at'', JStr (started_at l)),
      (''signed_checkpoint'', signed_checkpoint_json sc), (''saturated'', JBool (log_saturated l))]"

text \<open>The response, and the checkpoint it carries.\<close>

definition handle_head :: "('k \<Rightarrow> string \<Rightarrow> string + string) \<Rightarrow> (string \<Rightarrow> string) \<Rightarrow> string \<Rightarrow> 'k control \<Rightarrow>
    http_response \<times> signed_checkpoint option" where
  [go_eval]: "handle_head sign D now cn =
     (case require_signer cn of
        Inl resp \<Rightarrow> (resp, None)
      | Inr signer \<Rightarrow>
          let l = eg_log (cn_egress cn); (head, seq) = log_head l in
          (case sign_checkpoint sign D now signer (segment_id l) seq head (policy_hash (cn_policy cn)) of
             Inl e \<Rightarrow> (json_error 500 (''signing checkpoint: '' @ e), None)
           | Inr sc \<Rightarrow> (json_ok_response (head_response_json l (cn_policy cn) sc), Some sc)))"

section \<open>The log\<close>

text \<open>The default, when the parameter is missing or is no number.\<close>

definition int_param :: "string \<Rightarrow> int \<Rightarrow> int" where
  [go_eval]: "int_param v def = (if v = [] then def else case atoi v of None \<Rightarrow> def | Some n \<Rightarrow> n)"

definition handle_log :: "string \<Rightarrow> string \<Rightarrow> 'k control \<Rightarrow> http_response" where
  [go_eval]: "handle_log from_param to_param cn =
     \<lparr>hr_status = 200, hr_headers = [(''Content-Type'', ''application/x-ndjson'')],
      hr_body = concat (map (\<lambda>raw. raw @ [CHR 0x0A])
        (log_range (int_param from_param 0) (int_param to_param 0) (eg_log (cn_egress cn))))\<rparr>"

section \<open>The session policy\<close>

definition policy_of_members :: "(string \<times> jval \<times> string) list \<Rightarrow> policy option" where
  [go_eval]: "policy_of_members ms =
     (if strings_field_ok ''allow'' ms \<and> strings_field_ok ''deny'' ms \<and> strings_field_ok ''tunnel_only'' ms \<and>
         int_field_ok ''max_response_bytes'' ms
      then Some \<lparr>pol_allow = strings_field ''allow'' ms, pol_deny = strings_field ''deny'' ms,
                 pol_tunnel_only = strings_field ''tunnel_only'' ms,
                 pol_max_response_bytes = int_field ''max_response_bytes'' ms\<rparr>
      else None)"

definition decode_policy :: "string \<Rightarrow> policy option" where
  [go_eval]: "decode_policy body =
     Option.bind (Option.bind (json_decode (take max_control_body body)) struct_members) policy_of_members"

definition session_body :: "string \<Rightarrow> effective_policy \<Rightarrow> string \<Rightarrow> string \<Rightarrow> json" where
  [go_eval]: "session_body segment eff ca_fp key_fp = JObj
     [(''segment_id'', JStr segment), (''policy'', effective_policy_json eff), (''mitm_ca_sha256'', JStr ca_fp),
      (''tls_key_fp'', JStr key_fp), (''retention'', JStr ''hash-and-size'')]"

definition reject_body :: "string \<Rightarrow> json" where
  [go_eval]: "reject_body rule = JObj [(''rule'', JStr rule), (''reason'', JStr ''outside attested egress ceiling'')]"

text \<open>One \<open>policy.reject\<close> entry per refused rule; \<open>i\<close> numbers the clock readings and salts used.\<close>

fun record_rejections :: "(string \<Rightarrow> string) \<Rightarrow> api_env \<Rightarrow> nat \<Rightarrow> string list \<Rightarrow> audit_log \<Rightarrow> audit_log" where
  "record_rejections H env i [] l = l"
| "record_rejections H env i (rule # rules) l =
     record_rejections H env (Suc i) rules
       (fst (append_log H (ae_ticks env i) ''policy.reject'' (ae_salts env i) (reject_body rule) l))"

definition handle_session :: "(string \<Rightarrow> string) \<Rightarrow> api_env \<Rightarrow> string \<Rightarrow> 'k control \<Rightarrow> 'k control \<times> http_response" where
  [go_eval]: "handle_session H env body cn =
     (case decode_policy body of
        None \<Rightarrow> (cn, json_error 400 (''invalid policy json: '' @ ae_decode_err env))
      | Some requested \<Rightarrow>
          (case compose H (load_ceiling (ae_ceiling env)) (Some requested) of
             Inl e \<Rightarrow> (cn, json_error 500 e)
           | Inr eff \<Rightarrow>
               let eg = cn_egress cn;
                   (l, _, err) = append_log H (ae_ticks env 0) ''session.start'' (ae_salts env 0)
                     (session_body (segment_id (eg_log eg)) eff (cn_ca_fp cn) (key_fp_or_empty (cn_signer cn))) (eg_log eg)
               in (case err of
                     Some e \<Rightarrow> (cn\<lparr>cn_egress := eg\<lparr>eg_log := l\<rparr>\<rparr>, json_error 507 e)
                   | None \<Rightarrow>
                       (cn\<lparr>cn_egress := set_policy eff (eg\<lparr>eg_log := record_rejections H env 1 (elems (ep_rejected eff)) l\<rparr>),
                           cn_policy := Some eff\<rparr>,
                        json_ok_response (JObj [(''effective_policy_sha256'', JStr (ep_eff_sha eff)),
                          (''mitm_ca_sha256'', JStr (cn_ca_fp cn)), (''rejected'', slice_json (ep_rejected eff))])))))"

section \<open>Resuming\<close>

definition decode_resume :: "string \<Rightarrow> (string \<times> string \<times> string) option" where
  [go_eval]: "decode_resume body =
     (case Option.bind (json_decode (take max_control_body body)) struct_members of
        None \<Rightarrow> None
      | Some ms \<Rightarrow>
          if string_field_ok ''prev_segment_id'' ms \<and> string_field_ok ''prev_head'' ms
          then Some (string_field ''prev_segment_id'' ms, string_field ''prev_head'' ms, raw_field ''prev_checkpoint'' ms)
          else None)"

definition handle_resume :: "(string \<Rightarrow> string) \<Rightarrow> api_env \<Rightarrow> string \<Rightarrow> 'k control \<Rightarrow> 'k control \<times> http_response" where
  [go_eval]: "handle_resume H env body cn =
     (case decode_resume body of
        None \<Rightarrow> (cn, json_error 400 (''invalid resume json: '' @ ae_decode_err env))
      | Some (prev_seg, prev_head, prev_cp) \<Rightarrow>
          let eg = cn_egress cn;
              (l, err) = adopt_segment H (ae_ticks env 0) (ae_salts env 0) prev_seg prev_head prev_cp (eg_log eg);
              cn1 = cn\<lparr>cn_egress := eg\<lparr>eg_log := l\<rparr>\<rparr>
          in (case err of
                Some e \<Rightarrow> (cn1, json_error 409 e)
              | None \<Rightarrow> (cn1, json_ok_response (JObj [(''segment_id'', JStr (segment_id l))]))))"

section \<open>The control plane over time\<close>

text \<open>
  The log as every other part of the process uses it, and the two calls of this file that change
  state; here each handler is one step. \<open>Audit_Race\<close> takes \<open>handleSession\<close> and \<open>handleHead\<close> apart and
  lets other requests run in between.
\<close>

inductive control_step :: "(string \<Rightarrow> string) \<Rightarrow> 'k control \<times> reservation list \<Rightarrow> 'k control \<times> reservation list \<Rightarrow> bool"
  for H where
  control_log: "audit_step H (eg_log (cn_egress cn), rs) (l, rs') \<Longrightarrow>
    control_step H (cn, rs) (cn\<lparr>cn_egress := (cn_egress cn)\<lparr>eg_log := l\<rparr>\<rparr>, rs')"
| control_session: "handle_session H env body cn = (cn', resp) \<Longrightarrow> control_step H (cn, rs) (cn', rs)"
| control_resume: "handle_resume H env body cn = (cn', resp) \<Longrightarrow> control_step H (cn, rs) (cn', rs)"
| control_signer: "control_step H (cn, rs) (set_signer s cn, rs)"
| control_signer_err: "control_step H (cn, rs) (cn\<lparr>cn_signer_err := Some e\<rparr>, rs)"

text \<open>The process at startup: an empty log, no policy installed, no signer yet.\<close>

definition new_control :: "string \<Rightarrow> string \<Rightarrow> string \<Rightarrow> 'k control" where
  [go_eval]: "new_control segment now ca_fp =
     \<lparr>cn_egress = new_egress (new_audit_log segment now), cn_signer = None, cn_signer_err = None,
      cn_signer_ready = False, cn_policy = None, cn_ca_fp = ca_fp\<rparr>"

text \<open>The log declares a policy: some \<open>session.start\<close> line carries it.\<close>

definition declares :: "audit_log \<Rightarrow> effective_policy \<Rightarrow> bool" where
  "declares l p \<longleftrightarrow> (\<exists>r \<in> set (al_records l). \<exists>e seg ca fp. read_entry (rec_raw r) = Some e \<and>
     en_type e = ''session.start'' \<and> json_marshal (session_body seg p ca fp) = Inr (en_body e))"

definition control_ok :: "(string \<Rightarrow> string) \<Rightarrow> 'k control \<times> reservation list \<Rightarrow> bool" where
  "control_ok H s \<longleftrightarrow> sys_ok H (eg_log (cn_egress (fst s)), snd s) \<and>
     cn_policy (fst s) = eg_policy (cn_egress (fst s)) \<and>
     (\<forall>p. cn_policy (fst s) = Some p \<longrightarrow> declares (eg_log (cn_egress (fst s))) p)"

definition control_le :: "'k control \<times> reservation list \<Rightarrow> 'k control \<times> reservation list \<Rightarrow> bool" where
  "control_le s t \<longleftrightarrow> log_le (eg_log (cn_egress (fst s))) (eg_log (cn_egress (fst t)))"

lemma declares_mono: "log_le l l' \<Longrightarrow> declares l p \<Longrightarrow> declares l' p"
  unfolding declares_def log_le_def by (meson set_mono_prefix subsetD)

lemma json_plain_slice [simp]: "json_plain (slice_json s)"
  by (cases s) (simp_all add: slice_json_def list_all_iff)

lemma session_body_fine [simp]: "json_plain (session_body seg p ca fp)" "json_ok (session_body seg p ca fp)"
  by (simp_all add: session_body_def effective_policy_json_def policy_json_def)

lemma reject_body_fine [simp]: "json_plain (reject_body r)" "json_ok (reject_body r)"
  by (simp_all add: reject_body_def)

lemma record_rejections_steps:
  "reaches (audit_step H) (l, rs) (record_rejections H env i rules l, rs)"
proof (induction rules arbitrary: i l)
  case (Cons r rules)
  then show ?case
    by (auto intro: reaches_trans [OF reaches_one [where step = "audit_step H", OF step_append]])
qed (simp add: reaches_refl)

lemma seal_saturated: "al_saturated (seal H tk l)"
  by (auto simp: seal_def Let_def append_record_def split: sum.splits)

lemma record_rejections_le: "log_le l (record_rejections H env i rules l)"
proof (induction rules arbitrary: i l)
  case (Cons r rules)
  show ?case
    by (simp add: log_le_trans [OF conjunct1 [OF append_effect] Cons.IH])
qed simp

lemma unsaturated_append:
  assumes "\<not> al_saturated (fst (append_log H tk typ salt body l))" and "json_ok body"
  shows "length (al_records (fst (append_log H tk typ salt body l))) = Suc (length (al_records l)) \<and>
    snd (snd (append_log H tk typ salt body l)) = None"
  using assms
  by (cases rule: append_cases [of l H tk "typ" salt body])
    (auto simp: update_saturation_seal seal_saturated split: if_splits)

text \<open>Unless the log fills up meanwhile, there is one line per refused rule, in order.\<close>

lemma record_rejections_entries:
  assumes "\<not> al_saturated (record_rejections H env i rules l)"
  shows "length (al_records (record_rejections H env i rules l)) = length (al_records l) + length rules \<and>
    (\<forall>j < length rules. \<exists>e. read_entry (rec_raw (al_records (record_rejections H env i rules l) ! (length (al_records l) + j))) = Some e \<and>
       en_type e = ''policy.reject'' \<and> json_marshal (reject_body (rules ! j)) = Inr (en_body e))"
  using assms
proof (induction rules arbitrary: i l)
  case (Cons r rules)
  define l1 where "l1 = fst (append_log H (ae_ticks env i) ''policy.reject'' (ae_salts env i) (reject_body r) l)"
  define lf where "lf = record_rejections H env (Suc i) rules l1"
  have lf: "record_rejections H env i (r # rules) l = lf" by (simp add: lf_def l1_def)
  have le: "log_le l1 lf" unfolding lf_def by (rule record_rejections_le)
  have ns: "\<not> al_saturated lf" using Cons.prems lf by simp
  then have ns1: "\<not> al_saturated l1" using le by (auto simp: log_le_def)
  have len1: "length (al_records l1) = Suc (length (al_records l))"
    and ok1: "snd (snd (append_log H (ae_ticks env i) ''policy.reject'' (ae_salts env i) (reject_body r) l)) = None"
    using unsaturated_append [OF ns1 [unfolded l1_def]] by (simp_all add: l1_def)
  obtain h where ap: "append_log H (ae_ticks env i) ''policy.reject'' (ae_salts env i) (reject_body r) l = (l1, h, None)"
    using ok1 by (cases "append_log H (ae_ticks env i) ''policy.reject'' (ae_salts env i) (reject_body r) l") (auto simp: l1_def)
  obtain e where e: "read_entry (rec_raw (al_records l1 ! length (al_records l))) = Some e"
      "en_type e = ''policy.reject''" "json_marshal (reject_body r) = Inr (en_body e)"
    using appended_entry [OF ap] by auto
  have same: "al_records lf ! length (al_records l) = al_records l1 ! length (al_records l)"
    using le len1 by (auto simp: log_le_def prefix_def nth_append)
  have ih: "length (al_records lf) = length (al_records l1) + length rules"
      "\<forall>j < length rules. \<exists>e. read_entry (rec_raw (al_records lf ! (length (al_records l1) + j))) = Some e \<and>
       en_type e = ''policy.reject'' \<and> json_marshal (reject_body (rules ! j)) = Inr (en_body e)"
    using Cons.IH [of "Suc i" l1] ns by (simp_all add: lf_def)
  show ?case unfolding lf
  proof (intro conjI allI impI)
    show "length (al_records lf) = length (al_records l) + length (r # rules)" using ih(1) len1 by simp
    fix j assume "j < length (r # rules)"
    then show "\<exists>e. read_entry (rec_raw (al_records lf ! (length (al_records l) + j))) = Some e \<and>
       en_type e = ''policy.reject'' \<and> json_marshal (reject_body ((r # rules) ! j)) = Inr (en_body e)"
      using e same ih(2) len1 by (cases j) auto
  qed
qed simp

lemma session_cases:
  assumes "handle_session H env body cn = (cn', resp)"
  obtains (Refused) "cn' = cn" "hr_status resp \<noteq> 200"
  | (Installed) requested eff l h where "decode_policy body = Some requested"
      "compose H (load_ceiling (ae_ceiling env)) (Some requested) = Inr eff"
      "append_log H (ae_ticks env 0) ''session.start'' (ae_salts env 0)
         (session_body (segment_id (eg_log (cn_egress cn))) eff (cn_ca_fp cn) (key_fp_or_empty (cn_signer cn)))
         (eg_log (cn_egress cn)) = (l, h, None)"
      "cn' = cn\<lparr>cn_egress := \<lparr>eg_log = record_rejections H env 1 (elems (ep_rejected eff)) l, eg_policy = Some eff\<rparr>,
         cn_policy := Some eff\<rparr>" "hr_status resp = 200"
proof (cases "decode_policy body")
  case None
  with assms show thesis by (intro Refused) (auto simp: handle_session_def json_error_def)
next
  case (Some requested)
  show thesis
  proof (cases "compose H (load_ceiling (ae_ceiling env)) (Some requested)")
    case (Inl e)
    with Some assms show thesis by (intro Refused) (auto simp: handle_session_def json_error_def)
  next
    case (Inr eff)
    obtain l h m where ap: "append_log H (ae_ticks env 0) ''session.start'' (ae_salts env 0)
         (session_body (segment_id (eg_log (cn_egress cn))) eff (cn_ca_fp cn) (key_fp_or_empty (cn_signer cn)))
         (eg_log (cn_egress cn)) = (l, h, m)" by (rule prod_cases3)
    show thesis
    proof (cases m)
      case None
      show thesis
        by (rule Installed [OF Some Inr ap [unfolded None]])
          (use assms Some Inr ap None in \<open>auto simp: handle_session_def set_policy_def json_ok_response_def Let_def\<close>)
    next
      case e: (Some e)
      with appended_entry [OF ap] have "l = eg_log (cn_egress cn)" by simp
      with assms Some Inr ap e show thesis
        by (intro Refused) (auto simp: handle_session_def json_error_def Let_def)
    qed
  qed
qed

lemma session_log_steps:
  assumes "handle_session H env body cn = (cn', resp)"
  shows "reaches (audit_step H) (eg_log (cn_egress cn), rs) (eg_log (cn_egress cn'), rs)"
  using assms
proof (cases rule: session_cases)
  case Refused
  then show ?thesis by (simp add: reaches_refl)
next
  case (Installed requested eff l h)
  have "reaches (audit_step H) (eg_log (cn_egress cn), rs) (l, rs)"
    using step_append [of H "eg_log (cn_egress cn)" rs "ae_ticks env 0" "''session.start''" "ae_salts env 0"] Installed(3)
    by (metis fst_conv reaches_one)
  with Installed(4) show ?thesis by (auto intro: reaches_trans record_rejections_steps)
qed

lemma resume_log_step:
  assumes "handle_resume H env body cn = (cn', resp)"
  shows "cn_policy cn' = cn_policy cn \<and> eg_policy (cn_egress cn') = eg_policy (cn_egress cn) \<and>
    reaches (audit_step H) (eg_log (cn_egress cn), rs) (eg_log (cn_egress cn'), rs)"
proof (cases "decode_resume body")
  case None
  with assms show ?thesis by (auto simp: handle_resume_def reaches_refl)
next
  case (Some req)
  obtain ps ph pc where req: "req = (ps, ph, pc)" by (cases req)
  obtain l m where ad: "adopt_segment H (ae_ticks env 0) (ae_salts env 0) ps ph pc (eg_log (cn_egress cn)) = (l, m)" by fastforce
  have "reaches (audit_step H) (eg_log (cn_egress cn), rs) (l, rs)"
    using step_adopt [of H "eg_log (cn_egress cn)" rs "ae_ticks env 0" "ae_salts env 0" ps ph pc] ad
    by (simp add: reaches_one)
  moreover have "cn' = cn\<lparr>cn_egress := (cn_egress cn)\<lparr>eg_log := l\<rparr>\<rparr>"
    using assms Some req ad by (cases m) (auto simp: handle_resume_def)
  ultimately show ?thesis by simp
qed

lemma append_longer:
  assumes "append_log H tk typ salt body l = (l', h, None)"
  shows "length (al_records l) < length (al_records l')"
proof (cases rule: append_cases [of l H tk "typ" salt body])
  case (Appended e)
  have "log_le (extend_log H e l) l'" using assms Appended(7) update_saturation_effect [of "extend_log H e l" H tk] by simp
  then show ?thesis by (auto simp: log_le_def prefix_def)
qed (use assms in auto)

lemma session_declares:
  assumes "append_log H tk ''session.start'' salt (session_body seg eff ca fp) l = (l', h, None)"
  shows "declares l' eff"
proof -
  obtain e' where "read_entry (rec_raw (al_records l' ! length (al_records l))) = Some e'"
      "en_type e' = ''session.start''" "json_marshal (session_body seg eff ca fp) = Inr (en_body e')"
    using appended_entry [OF assms] by auto
  then show ?thesis unfolding declares_def using append_longer [OF assms] by (metis nth_mem)
qed

lemma audit_reaches_ok:
  assumes "reaches (audit_step H) s t" and "sys_ok H s"
  shows "sys_ok H t" "log_le (fst s) (fst t)"
  using shared_log.reaches_inv [OF assms] shared_log.reaches_le [OF assms] by (simp_all add: sys_le_def)

lemma control_ok_extend:
  assumes "control_ok H (cn, rs)" and "reaches (audit_step H) (eg_log (cn_egress cn), rs) (eg_log (cn_egress cn'), rs')"
    and "cn_policy cn' = cn_policy cn" "eg_policy (cn_egress cn') = eg_policy (cn_egress cn)"
  shows "control_ok H (cn', rs') \<and> control_le (cn, rs) (cn', rs')"
  using assms audit_reaches_ok [OF assms(2)]
  by (auto simp: control_ok_def control_le_def intro: declares_mono)

lemma control_step_both:
  assumes "control_step H s t" and "control_ok H s"
  shows "control_ok H t \<and> control_le s t"
  using assms
proof (induction rule: control_step.induct)
  case (control_log cn rs l rs')
  then show ?case by (intro control_ok_extend) (auto intro: reaches_one)
next
  case (control_session env body cn cn' resp rs)
  show ?case
    using control_session(1)
  proof (cases rule: session_cases)
    case Refused
    with control_session(2) show ?thesis by (simp add: control_le_def)
  next
    case (Installed requested eff l h)
    have "declares l eff" by (rule session_declares [OF Installed(3)])
    then have "declares (eg_log (cn_egress cn')) eff"
      using Installed(4) record_rejections_le [of l H env 1 "elems (ep_rejected eff)"] by (simp add: declares_mono)
    with control_session(2) Installed(4) audit_reaches_ok [OF session_log_steps [OF control_session(1), of rs]]
    show ?thesis by (auto simp: control_ok_def control_le_def)
  qed
next
  case (control_resume env body cn cn' resp rs)
  with resume_log_step [OF control_resume(1), of rs] show ?case by (intro control_ok_extend) auto
next
  case (control_signer cn rs s)
  then show ?case by (intro control_ok_extend) (auto simp: set_signer_def reaches_refl)
next
  case (control_signer_err cn rs e)
  then show ?case by (intro control_ok_extend) (auto simp: reaches_refl)
qed

interpretation control_plane: step_system "control_step H" "control_ok H" control_le for H
  by unfold_locales (simp_all add: control_step_both, auto simp: control_le_def intro: log_le_trans)

lemma new_control_ok: "control_ok H (new_control seg now ca_fp, [])"
  using new_sys_ok [of H seg now] by (simp add: control_ok_def new_control_def new_egress_def)

section \<open>Properties\<close>

text \<open>
  C17. Installing a session policy: on status 200 the policy composed from the decoded request with
  the attested ceiling is the one the API signs for and the one the proxy enforces, the log line at
  the old length is its \<open>session.start\<close> with the policy, the CA and the key fingerprint, and unless
  the log fills up one \<open>policy.reject\<close> line per refused rule follows, in order. On any other status
  nothing has changed.
\<close>

theorem session_installs_recorded_policy:
  assumes "handle_session H env body cn = (cn', resp)"
  shows "if hr_status resp = 200
    then \<exists>requested eff e. decode_policy body = Some requested \<and>
      compose H (load_ceiling (ae_ceiling env)) (Some requested) = Inr eff \<and>
      cn_policy cn' = Some eff \<and> eg_policy (cn_egress cn') = Some eff \<and>
      (let old = eg_log (cn_egress cn); new = eg_log (cn_egress cn'); n = length (al_records old) in
        log_le old new \<and> read_entry (rec_raw (al_records new ! n)) = Some e \<and> en_type e = ''session.start'' \<and>
        json_marshal (session_body (segment_id old) eff (cn_ca_fp cn) (key_fp_or_empty (cn_signer cn))) = Inr (en_body e) \<and>
        (al_saturated new \<or>
           length (al_records new) = Suc n + length (elems (ep_rejected eff)) \<and>
           (\<forall>j \<in> {0..<length (elems (ep_rejected eff))}. \<exists>r. read_entry (rec_raw (al_records new ! (Suc n + j))) = Some r \<and>
              en_type r = ''policy.reject'' \<and> json_marshal (reject_body (elems (ep_rejected eff) ! j)) = Inr (en_body r))))
    else cn' = cn"
  using assms
proof (cases rule: session_cases)
  case (Installed requested eff l h)
  define n where "n = length (al_records (eg_log (cn_egress cn)))"
  define rej where "rej = elems (ep_rejected eff)"
  define new where "new = record_rejections H env 1 rej l"
  have new: "eg_log (cn_egress cn') = new" using Installed(4) by (simp add: new_def rej_def)
  have le: "log_le l new" unfolding new_def by (rule record_rejections_le)
  obtain e where e: "read_entry (rec_raw (al_records l ! n)) = Some e" "en_type e = ''session.start''"
      "json_marshal (session_body (segment_id (eg_log (cn_egress cn))) eff (cn_ca_fp cn) (key_fp_or_empty (cn_signer cn))) =
         Inr (en_body e)"
    using appended_entry [OF Installed(3)] by (auto simp: n_def)
  have ap: "fst (append_log H (ae_ticks env 0) ''session.start'' (ae_salts env 0)
         (session_body (segment_id (eg_log (cn_egress cn))) eff (cn_ca_fp cn) (key_fp_or_empty (cn_signer cn)))
         (eg_log (cn_egress cn))) = l" using Installed(3) by simp
  have le0: "log_le (eg_log (cn_egress cn)) l" using append_effect ap by metis
  have longer: "n < length (al_records l)"
    unfolding n_def using Installed(3) by (rule append_longer)
  have same: "al_records new ! n = al_records l ! n" using le longer by (auto simp: log_le_def prefix_def nth_append)
  have rejs: "\<not> al_saturated new \<Longrightarrow> length (al_records new) = Suc n + length rej \<and>
      (\<forall>j < length rej. \<exists>r. read_entry (rec_raw (al_records new ! (Suc n + j))) = Some r \<and>
         en_type r = ''policy.reject'' \<and> json_marshal (reject_body (rej ! j)) = Inr (en_body r))"
  proof -
    assume ns: "\<not> al_saturated new"
    then have "\<not> al_saturated l" using le by (auto simp: log_le_def)
    then have "length (al_records l) = Suc n" using unsaturated_append ap unfolding n_def by (metis session_body_fine(2))
    with record_rejections_entries [OF ns [unfolded new_def]] show ?thesis unfolding new_def by metis
  qed
  have pol: "cn_policy cn' = Some eff" "eg_policy (cn_egress cn') = Some eff" using Installed(4) by simp_all
  show ?thesis
    unfolding if_P [OF Installed(5)] Let_def new
    by (rule exI [of _ requested], rule exI [of _ eff], rule exI [of _ e])
      (use Installed(1,2) pol e same rejs log_le_trans [OF le0 le] in \<open>auto simp: n_def [symmetric] rej_def [symmetric]\<close>)
qed simp


definition sample_api :: api_env where
  [go_eval]: "sample_api = \<lparr>ae_ceiling = ''api.example.com'', ae_decode_err = ''EOF'', ae_ticks = (\<lambda>_. sample_tick),
     ae_salts = (\<lambda>_. ''salt'')\<rparr>"

definition sample_control :: "string control" where
  [go_eval]: "sample_control = set_signer \<lparr>sg_key = ''k'', sg_pub_pem = ''p'', sg_key_fp = ''f''\<rparr> (new_control ''seg'' ''t'' ''ca'')"

definition sample_policy :: string where
  [go_eval]: "sample_policy = ''{'' @ json_quote ''allow'' @ '':['' @ json_quote ''api.example.com'' @ '','' @
     json_quote ''evil.org'' @ '']}''"

lemma sample_policy_decoded:
  "decode_policy sample_policy = Some \<lparr>pol_allow = Some [''api.example.com'', ''evil.org''], pol_deny = None,
     pol_tunnel_only = None, pol_max_response_bytes = 0\<rparr>"
proof -
  have "length sample_policy = 40" by code_simp
  then have t: "take max_control_body sample_policy = sample_policy" by (simp add: max_control_body_def)
  have "Option.bind (Option.bind (json_decode sample_policy) struct_members) policy_of_members =
    Some \<lparr>pol_allow = Some [''api.example.com'', ''evil.org''], pol_deny = None,
     pol_tunnel_only = None, pol_max_response_bytes = 0\<rparr>" by code_simp
  then show ?thesis by (simp add: decode_policy_def t)
qed

lemma sample_session_ok: "hr_status (snd (handle_session (\<lambda>x. x) sample_api sample_policy sample_control)) = 200"
proof -
  obtain eff where c: "compose (\<lambda>x. x) (load_ceiling (ae_ceiling sample_api)) (Some
      \<lparr>pol_allow = Some [''api.example.com'', ''evil.org''], pol_deny = None,
       pol_tunnel_only = None, pol_max_response_bytes = 0\<rparr>) = Inr eff"
    using compose_total by blast
  obtain l h m where ap: "append_log (\<lambda>x. x) (ae_ticks sample_api 0) ''session.start'' (ae_salts sample_api 0)
         (session_body (segment_id (eg_log (cn_egress sample_control))) eff (cn_ca_fp sample_control)
            (key_fp_or_empty (cn_signer sample_control)))
         (eg_log (cn_egress sample_control)) = (l, h, m)" by (rule prod_cases3)
  have "\<not> al_saturated (eg_log (cn_egress sample_control))" by code_simp
  then have "m = None"
    using ap by (cases rule: append_cases [of "eg_log (cn_egress sample_control)" "\<lambda>x. x" "ae_ticks sample_api 0"
       "''session.start''" "ae_salts sample_api 0" "session_body (segment_id (eg_log (cn_egress sample_control))) eff
         (cn_ca_fp sample_control) (key_fp_or_empty (cn_signer sample_control))"]) auto
  with ap c show ?thesis
    by (simp add: handle_session_def sample_policy_decoded json_ok_response_def Let_def)
qed

theorem session_installs_recorded_policy_witness:
  "\<exists>eff. cn_policy (fst (handle_session (\<lambda>x. x) sample_api sample_policy sample_control)) = Some eff"
proof -
  obtain cn' resp where h: "handle_session (\<lambda>x. x) sample_api sample_policy sample_control = (cn', resp)" by fastforce
  with sample_session_ok have "hr_status resp = 200" by simp
  with session_installs_recorded_policy [OF h] h show ?thesis by auto
qed



end
