(* ===== verification/Audit_Race.thy ===== *)
theory Audit_Race imports Audit_Api begin

text \<open>
  The \<open>/audit/*\<close> handlers of \<open>api-server/audit_api.go\<close> at the grain at which they really
  interleave. The log's mutex protects one \<open>Append\<close>, the proxy's policy is an atomic pointer, and the
  API's own \<open>policy\<close> field has no lock at all: \<open>handleSession\<close> is one append, then one append per
  refused rule, then two assignments, and \<open>handleHead\<close> reads the head first and the policy later.
  Between any two of these another request may run. Here every such piece is a step of its own, calls
  in progress are part of the state, and the theorems say what still holds, and what does not.
\<close>

section \<open>The handlers in pieces\<close>

text \<open>
  \<open>handleSession\<close> up to its first append: the error it ends with, or the policy it goes on to
  install. \<open>session_start\<close> is what follows the decoding.
\<close>

definition session_start :: "(string \<Rightarrow> string) \<Rightarrow> api_env \<Rightarrow> policy \<Rightarrow> 'k control \<Rightarrow>
    'k control \<times> (http_response + effective_policy)" where
  [go_eval]: "session_start H env requested cn =
     (case compose H (load_ceiling (ae_ceiling env)) (Some requested) of
        Inl e \<Rightarrow> (cn, Inl (json_error 500 e))
      | Inr eff \<Rightarrow>
          let eg = cn_egress cn;
              (l, _, err) = append_log H (ae_ticks env 0) ''session.start'' (ae_salts env 0)
                (session_body (segment_id (eg_log eg)) eff (cn_ca_fp cn) (key_fp_or_empty (cn_signer cn))) (eg_log eg)
          in (cn\<lparr>cn_egress := eg\<lparr>eg_log := l\<rparr>\<rparr>,
              case err of Some e \<Rightarrow> Inl (json_error 507 e) | None \<Rightarrow> Inr eff))"

definition session_begin :: "(string \<Rightarrow> string) \<Rightarrow> api_env \<Rightarrow> string \<Rightarrow> 'k control \<Rightarrow>
    'k control \<times> (http_response + effective_policy)" where
  [go_eval]: "session_begin H env body cn =
     (case decode_policy body of
        None \<Rightarrow> (cn, Inl (json_error 400 (''invalid policy json: '' @ ae_decode_err env)))
      | Some requested \<Rightarrow> session_start H env requested cn)"

text \<open>One turn of the loop over the refused rules, and the two assignments.\<close>

definition session_reject :: "(string \<Rightarrow> string) \<Rightarrow> tick \<Rightarrow> string \<Rightarrow> string \<Rightarrow> 'k control \<Rightarrow> 'k control" where
  [go_eval]: "session_reject H tk salt rule cn =
     cn\<lparr>cn_egress := (cn_egress cn)
        \<lparr>eg_log := fst (append_log H tk ''policy.reject'' salt (reject_body rule) (eg_log (cn_egress cn)))\<rparr>\<rparr>"

definition session_attest :: "effective_policy \<Rightarrow> 'k control \<Rightarrow> 'k control" where
  [go_eval]: "session_attest eff cn = cn\<lparr>cn_policy := Some eff\<rparr>"

definition session_enforce :: "effective_policy \<Rightarrow> 'k control \<Rightarrow> 'k control" where
  [go_eval]: "session_enforce eff cn = cn\<lparr>cn_egress := set_policy eff (cn_egress cn)\<rparr>"

definition session_answer :: "effective_policy \<Rightarrow> 'k control \<Rightarrow> http_response" where
  [go_eval]: "session_answer eff cn = json_ok_response (JObj [(''effective_policy_sha256'', JStr (ep_eff_sha eff)),
     (''mitm_ca_sha256'', JStr (cn_ca_fp cn)), (''rejected'', slice_json (ep_rejected eff))])"

text \<open>
  \<open>handleHead\<close>: the signer and the head are read in one moment; the policy is read, and the
  checkpoint signed, in a later one. The fields of one response that come from the policy are taken
  to come from one reading of the pointer.
\<close>

type_synonym 'k head_read = "'k signer \<times> string \<times> int"

definition head_read :: "'k control \<Rightarrow> http_response + 'k head_read" where
  [go_eval]: "head_read cn =
     (case require_signer cn of
        Inl resp \<Rightarrow> Inl resp
      | Inr signer \<Rightarrow> Inr (signer, log_head (eg_log (cn_egress cn))))"

definition head_finish :: "('k \<Rightarrow> string \<Rightarrow> string + string) \<Rightarrow> (string \<Rightarrow> string) \<Rightarrow> string \<Rightarrow> 'k head_read \<Rightarrow>
    'k control \<Rightarrow> http_response \<times> signed_checkpoint option" where
  [go_eval]: "head_finish sign D now = (\<lambda>(signer, head, seq) cn.
     let l = eg_log (cn_egress cn) in
     (case sign_checkpoint sign D now signer (segment_id l) seq head (policy_hash (cn_policy cn)) of
        Inl e \<Rightarrow> (json_error 500 (''signing checkpoint: '' @ e), None)
      | Inr sc \<Rightarrow> (json_ok_response (JObj
          [(''segment_id'', JStr (segment_id l)), (''seq'', JInt seq), (''audit_head'', JStr head),
           (''policy'', policy_info (cn_policy cn)), (''started_at'', JStr (started_at l)),
           (''signed_checkpoint'', signed_checkpoint_json sc), (''saturated'', JBool (log_saturated l))]), Some sc)))"

text \<open>Run without interruption, the pieces are the handlers.\<close>

lemma handle_head_pieces:
  "handle_head sign D now cn = (case head_read cn of Inl resp \<Rightarrow> (resp, None) | Inr h \<Rightarrow> head_finish sign D now h cn)"
  by (simp add: handle_head_def head_read_def head_finish_def head_response_json_def log_head_def Let_def
      split: sum.splits)

lemma handle_session_pieces:
  "handle_session H env body cn =
     (case session_begin H env body cn of
        (cn1, Inl resp) \<Rightarrow> (cn1, resp)
      | (cn1, Inr eff) \<Rightarrow>
          (session_enforce eff (session_attest eff (cn1\<lparr>cn_egress := (cn_egress cn1)
             \<lparr>eg_log := record_rejections H env 1 (elems (ep_rejected eff)) (eg_log (cn_egress cn1))\<rparr>\<rparr>)),
           session_answer eff cn1))"
  by (auto simp: handle_session_def session_begin_def session_start_def session_enforce_def session_attest_def session_answer_def
      set_policy_def Let_def split: option.splits sum.splits prod.splits)

section \<open>Requests in progress\<close>

datatype session_stage = Rejecting "string list" | Enforcing

text \<open>
  The process with the calls that are under way: session calls with the policy they install and
  where they are, head calls with what they have read, and the record of the checkpoints signed.
\<close>

record 'k race =
  rc_control :: "'k control"
  rc_reservations :: "reservation list"
  rc_calls :: "(effective_policy \<times> session_stage) list"
  rc_heads :: "'k head_read list"
  rc_signed :: "signed_checkpoint list"

definition remove_nth :: "nat \<Rightarrow> 'a list \<Rightarrow> 'a list" where
  [go_eval]: "remove_nth i xs = take i xs @ drop (Suc i) xs"

definition new_race :: "'k control \<Rightarrow> 'k race" where
  [go_eval]: "new_race cn = \<lparr>rc_control = cn, rc_reservations = [], rc_calls = [], rc_heads = [], rc_signed = []\<rparr>"

text \<open>
  With \<open>serial\<close> the client sends the next session only once the last one is answered, as a
  client that waits for its responses does; everything else overlaps in any order.
\<close>

inductive race_step :: "bool \<Rightarrow> (string \<Rightarrow> string) \<Rightarrow> ('k \<Rightarrow> string \<Rightarrow> string + string) \<Rightarrow> (string \<Rightarrow> string) \<Rightarrow>
    'k race \<Rightarrow> 'k race \<Rightarrow> bool" for serial H sign D where
  race_log: "audit_step H (eg_log (cn_egress (rc_control s)), rc_reservations s) (l, rs) \<Longrightarrow>
    race_step serial H sign D s (s\<lparr>rc_control := (rc_control s)\<lparr>cn_egress := (cn_egress (rc_control s))\<lparr>eg_log := l\<rparr>\<rparr>,
      rc_reservations := rs\<rparr>)"
| race_session: "(serial \<Longrightarrow> rc_calls s = []) \<Longrightarrow> session_begin H env body (rc_control s) = (cn, Inr eff) \<Longrightarrow>
    race_step serial H sign D s
      (s\<lparr>rc_control := cn, rc_calls := rc_calls s @ [(eff, Rejecting (elems (ep_rejected eff)))]\<rparr>)"
| race_refused: "session_begin H env body (rc_control s) = (cn, Inl resp) \<Longrightarrow>
    race_step serial H sign D s (s\<lparr>rc_control := cn\<rparr>)"
| race_reject: "i < length (rc_calls s) \<Longrightarrow> rc_calls s ! i = (eff, Rejecting (rule # rules)) \<Longrightarrow>
    race_step serial H sign D s
      (s\<lparr>rc_control := session_reject H tk salt rule (rc_control s), rc_calls := (rc_calls s)[i := (eff, Rejecting rules)]\<rparr>)"
| race_attest: "i < length (rc_calls s) \<Longrightarrow> rc_calls s ! i = (eff, Rejecting []) \<Longrightarrow>
    race_step serial H sign D s
      (s\<lparr>rc_control := session_attest eff (rc_control s), rc_calls := (rc_calls s)[i := (eff, Enforcing)]\<rparr>)"
| race_enforce: "i < length (rc_calls s) \<Longrightarrow> rc_calls s ! i = (eff, Enforcing) \<Longrightarrow>
    race_step serial H sign D s
      (s\<lparr>rc_control := session_enforce eff (rc_control s), rc_calls := remove_nth i (rc_calls s)\<rparr>)"
| race_head: "head_read (rc_control s) = Inr h \<Longrightarrow> race_step serial H sign D s (s\<lparr>rc_heads := rc_heads s @ [h]\<rparr>)"
| race_answer: "i < length (rc_heads s) \<Longrightarrow> head_finish sign D now (rc_heads s ! i) (rc_control s) = (resp, sc) \<Longrightarrow>
    race_step serial H sign D s
      (s\<lparr>rc_heads := remove_nth i (rc_heads s), rc_signed := rc_signed s @ (case sc of None \<Rightarrow> [] | Some c \<Rightarrow> [c])\<rparr>)"
| race_resume: "handle_resume H env body (rc_control s) = (cn, resp) \<Longrightarrow>
    race_step serial H sign D s (s\<lparr>rc_control := cn\<rparr>)"
| race_signer: "race_step serial H sign D s (s\<lparr>rc_control := set_signer k (rc_control s)\<rparr>)"
| race_signer_err: "race_step serial H sign D s (s\<lparr>rc_control := (rc_control s)\<lparr>cn_signer_err := Some e\<rparr>\<rparr>)"

text \<open>The policies that are installed, enforced or about to be.\<close>

definition in_play :: "'k race \<Rightarrow> effective_policy set" where
  "in_play s = set_option (cn_policy (rc_control s)) \<union> set_option (eg_policy (cn_egress (rc_control s))) \<union>
     fst ` set (rc_calls s)"

abbreviation race_transcript :: "'k race \<Rightarrow> audit_log" where
  "race_transcript s \<equiv> eg_log (cn_egress (rc_control s))"

section \<open>What every interleaving keeps\<close>

text \<open>A head and its count name a prefix of the transcript.\<close>

definition names_prefix :: "(string \<Rightarrow> string) \<Rightarrow> audit_log \<Rightarrow> string \<Rightarrow> int \<Rightarrow> bool" where
  "names_prefix H l head seq \<longleftrightarrow> 0 \<le> seq \<and> nat seq \<le> length (al_records l) \<and>
     replay H (take (nat seq) (log_range 0 0 l)) = Some head"

definition true_checkpoint :: "(string \<Rightarrow> string) \<Rightarrow> audit_log \<Rightarrow> checkpoint \<Rightarrow> bool" where
  "true_checkpoint H l cp \<longleftrightarrow> cp_segment cp = al_segment l \<and> names_prefix H l (cp_head cp) (cp_seq cp) \<and>
     (cp_policy cp = [] \<or> (\<exists>p. cp_policy cp = ep_eff_sha p \<and> declares l p))"

lemma names_prefix_mono: "log_le l l' \<Longrightarrow> names_prefix H l head seq \<Longrightarrow> names_prefix H l' head seq"
  by (auto simp: log_le_def prefix_def names_prefix_def log_range_all)

lemma true_checkpoint_mono: "log_le l l' \<Longrightarrow> true_checkpoint H l cp \<Longrightarrow> true_checkpoint H l' cp"
  unfolding true_checkpoint_def by (metis names_prefix_mono declares_mono log_le_def)

lemma log_head_names:
  assumes "chain_ok H l"
  shows "names_prefix H l (fst (log_head l)) (snd (log_head l))"
  using assms by (simp add: names_prefix_def log_head_def chain_ok_def log_range_all)

definition race_ok :: "(string \<Rightarrow> string) \<Rightarrow> 'k race \<Rightarrow> bool" where
  "race_ok H s \<longleftrightarrow> sys_ok H (race_transcript s, rc_reservations s) \<and>
     (\<forall>p \<in> in_play s. declares (race_transcript s) p) \<and>
     (\<forall>h \<in> set (rc_heads s). names_prefix H (race_transcript s) (fst (snd h)) (snd (snd h))) \<and>
     (\<forall>sc \<in> set (rc_signed s). true_checkpoint H (race_transcript s) (sc_checkpoint sc))"

definition race_le :: "'k race \<Rightarrow> 'k race \<Rightarrow> bool" where
  "race_le s t \<longleftrightarrow> log_le (race_transcript s) (race_transcript t) \<and> prefix (rc_signed s) (rc_signed t)"

text \<open>A step that only uses the log keeps the invariant, if what it adds to the state is true of the log it leaves.\<close>

lemma race_ok_extend:
  assumes "race_ok H s"
    and "reaches (audit_step H) (race_transcript s, rc_reservations s) (race_transcript t, rc_reservations t)"
    and "\<And>p. p \<in> in_play t \<Longrightarrow> p \<in> in_play s \<or> declares (race_transcript t) p"
    and "\<And>h. h \<in> set (rc_heads t) \<Longrightarrow> h \<in> set (rc_heads s) \<or> names_prefix H (race_transcript t) (fst (snd h)) (snd (snd h))"
    and "rc_signed t = rc_signed s @ new"
    and "\<And>sc. sc \<in> set new \<Longrightarrow> true_checkpoint H (race_transcript t) (sc_checkpoint sc)"
  shows "race_ok H t \<and> race_le s t"
proof -
  have ok: "sys_ok H (race_transcript t, rc_reservations t)" and le: "log_le (race_transcript s) (race_transcript t)"
    using audit_reaches_ok [OF assms(2)] assms(1) by (simp_all add: race_ok_def)
  show ?thesis
    unfolding race_ok_def race_le_def
  proof (intro conjI ballI)
    show "sys_ok H (race_transcript t, rc_reservations t)" "log_le (race_transcript s) (race_transcript t)"
      by (rule ok, rule le)
    show "prefix (rc_signed s) (rc_signed t)" by (simp add: assms(5))
    show "declares (race_transcript t) p" if "p \<in> in_play t" for p
      using assms(3) [OF that] declares_mono [OF le] assms(1) by (auto simp: race_ok_def)
    show "names_prefix H (race_transcript t) (fst (snd h)) (snd (snd h))" if "h \<in> set (rc_heads t)" for h
      using assms(4) [OF that] names_prefix_mono [OF le] assms(1) by (auto simp: race_ok_def)
    show "true_checkpoint H (race_transcript t) (sc_checkpoint sc)" if "sc \<in> set (rc_signed t)" for sc
      using that assms(5,6) true_checkpoint_mono [OF le] assms(1) by (auto simp: race_ok_def)
  qed
qed

lemma set_remove_nth: "set (remove_nth i xs) \<subseteq> set xs"
  by (auto simp: remove_nth_def dest: in_set_takeD in_set_dropD)

lemma session_begin_log:
  assumes "session_begin H env body cn = (cn', res)"
  shows "reaches (audit_step H) (eg_log (cn_egress cn), rs) (eg_log (cn_egress cn'), rs)"
    "cn_policy cn' = cn_policy cn" "eg_policy (cn_egress cn') = eg_policy (cn_egress cn)"
    "res = Inr eff \<Longrightarrow> declares (eg_log (cn_egress cn')) eff"
proof -
  have "reaches (audit_step H) (eg_log (cn_egress cn), rs) (eg_log (cn_egress cn'), rs) \<and>
    cn_policy cn' = cn_policy cn \<and> eg_policy (cn_egress cn') = eg_policy (cn_egress cn) \<and>
    (\<forall>eff. res = Inr eff \<longrightarrow> declares (eg_log (cn_egress cn')) eff)"
  proof (cases "\<exists>r eff. decode_policy body = Some r \<and> compose H (load_ceiling (ae_ceiling env)) (Some r) = Inr eff")
    case False
    then have "cn' = cn" "\<exists>r. res = Inl r"
      using assms by (auto simp: session_begin_def session_start_def split: option.splits sum.splits)
    then show ?thesis by (auto simp: reaches_refl)
  next
    case True
    then obtain r eff where de: "decode_policy body = Some r" "compose H (load_ceiling (ae_ceiling env)) (Some r) = Inr eff"
      by blast
    define sb where "sb = session_body (segment_id (eg_log (cn_egress cn))) eff (cn_ca_fp cn) (key_fp_or_empty (cn_signer cn))"
    obtain l h m where ap: "append_log H (ae_ticks env 0) ''session.start'' (ae_salts env 0) sb (eg_log (cn_egress cn)) = (l, h, m)"
      by (rule prod_cases3)
    from de assms have c: "cn' = cn\<lparr>cn_egress := (cn_egress cn)\<lparr>eg_log := l\<rparr>\<rparr>"
        "res = (case m of Some e \<Rightarrow> Inl (json_error 507 e) | None \<Rightarrow> Inr eff)"
      by (auto simp: session_begin_def session_start_def sb_def [symmetric] ap Let_def)
    have "reaches (audit_step H) (eg_log (cn_egress cn), rs) (l, rs)"
      using step_append [of H "eg_log (cn_egress cn)" rs "ae_ticks env 0" "''session.start''" "ae_salts env 0" sb] ap
      by (simp add: reaches_one)
    moreover have "m = None \<Longrightarrow> declares l eff" using ap unfolding sb_def by (auto intro: session_declares)
    ultimately show ?thesis using c by (auto split: option.splits)
  qed
  then show "reaches (audit_step H) (eg_log (cn_egress cn), rs) (eg_log (cn_egress cn'), rs)"
    "cn_policy cn' = cn_policy cn" "eg_policy (cn_egress cn') = eg_policy (cn_egress cn)"
    "res = Inr eff \<Longrightarrow> declares (eg_log (cn_egress cn')) eff" by simp_all
qed

text \<open>What a head call signs: the head it has read, and a declared policy.\<close>

lemma head_finish_true:
  assumes "head_finish sign D now h cn = (resp, Some sc)"
    and "names_prefix H (eg_log (cn_egress cn)) (fst (snd h)) (snd (snd h))"
    and "\<And>p. cn_policy cn = Some p \<Longrightarrow> declares (eg_log (cn_egress cn)) p"
  shows "true_checkpoint H (eg_log (cn_egress cn)) (sc_checkpoint sc)"
proof -
  obtain k head seq where h: "h = (k, head, seq)" by (cases h)
  from assms(1) have "sc_checkpoint sc = \<lparr>cp_segment = al_segment (eg_log (cn_egress cn)), cp_seq = seq, cp_head = head,
      cp_policy = policy_hash (cn_policy cn), cp_key_fp = sg_key_fp k, cp_ts = now\<rparr>"
    by (auto simp: h head_finish_def sign_checkpoint_def Let_def segment_id_def split: sum.splits)
  with assms(2,3) h show ?thesis
    by (auto simp: true_checkpoint_def policy_hash_def split: option.splits)
qed

lemma race_step_both:
  assumes "race_step serial H sign D s t" and "race_ok H s"
  shows "race_ok H t \<and> race_le s t"
  using assms
proof (induction rule: race_step.induct)
  case (race_log s l rs)
  then show ?case by (intro race_ok_extend [where new = "[]"]) (auto simp: in_play_def intro: reaches_one)
next
  case (race_session s env body cn eff)
  with session_begin_log(1) [OF race_session(2), of "rc_reservations s"] session_begin_log(2-4) [OF race_session(2)] show ?case
    by (intro race_ok_extend [where new = "[]"]) (auto simp: in_play_def)
next
  case (race_refused env body s cn resp)
  with session_begin_log(1) [OF race_refused(1), of "rc_reservations s"] session_begin_log(2,3) [OF race_refused(1)] show ?case
    by (intro race_ok_extend [where new = "[]"]) (auto simp: in_play_def)
next
  case (race_reject i s eff rule rules tk salt)
  have "(eff, Rejecting (rule # rules)) \<in> set (rc_calls s)" using race_reject(1,2) by (metis nth_mem)
  then have "fst ` set ((rc_calls s)[i := (eff, Rejecting rules)]) \<subseteq> fst ` set (rc_calls s)"
    using set_update_subset_insert [of "rc_calls s" i "(eff, Rejecting rules)"] by force
  with race_reject(3) show ?case
    by (intro race_ok_extend [where new = "[]"])
      (auto simp: in_play_def session_reject_def intro!: reaches_one step_append)
next
  case (race_attest i s eff)
  have "(eff, Rejecting []) \<in> set (rc_calls s)" using race_attest(1,2) by (metis nth_mem)
  then have "insert eff (fst ` set ((rc_calls s)[i := (eff, Enforcing)])) \<subseteq> fst ` set (rc_calls s)"
    using set_update_subset_insert [of "rc_calls s" i "(eff, Enforcing)"] by force
  with race_attest(3) show ?case
    by (intro race_ok_extend [where new = "[]"]) (auto simp: in_play_def session_attest_def reaches_refl)
next
  case (race_enforce i s eff)
  have "(eff, Enforcing) \<in> set (rc_calls s)" using race_enforce(1,2) by (metis nth_mem)
  then have "insert eff (fst ` set (remove_nth i (rc_calls s))) \<subseteq> fst ` set (rc_calls s)"
    using set_remove_nth [of i "rc_calls s"] by force
  with race_enforce(3) show ?case
    by (intro race_ok_extend [where new = "[]"]) (auto simp: in_play_def session_enforce_def set_policy_def reaches_refl)
next
  case (race_head s h)
  have "names_prefix H (race_transcript s) (fst (snd h)) (snd (snd h))"
    using race_head log_head_names [of H "race_transcript s"]
    by (auto simp: head_read_def race_ok_def sys_ok_def log_okD(1) split: sum.splits)
  with race_head(2) show ?case
    by (intro race_ok_extend [where new = "[]"]) (auto simp: in_play_def reaches_refl)
next
  case (race_answer i s now resp sc)
  have h: "rc_heads s ! i \<in> set (rc_heads s)" using race_answer(1) by simp
  have "true_checkpoint H (race_transcript s) (sc_checkpoint c)" if "sc = Some c" for c
    using head_finish_true [OF race_answer(2) [unfolded that]] race_answer(3) h
    by (auto simp: race_ok_def in_play_def)
  with race_answer(3) show ?case
    by (intro race_ok_extend) (auto simp: in_play_def reaches_refl dest: subsetD [OF set_remove_nth] split: option.splits)
next
  case (race_resume env body s cn resp)
  with resume_log_step [OF race_resume(1), of "rc_reservations s"] show ?case
    by (intro race_ok_extend [where new = "[]"]) (auto simp: in_play_def)
next
  case (race_signer s k)
  then show ?case by (intro race_ok_extend [where new = "[]"]) (auto simp: in_play_def set_signer_def reaches_refl)
next
  case (race_signer_err s e)
  then show ?case by (intro race_ok_extend [where new = "[]"]) (auto simp: in_play_def reaches_refl)
qed

interpretation racing: step_system "race_step serial H sign D" "race_ok H" race_le for serial H sign D
  by unfold_locales (simp_all add: race_step_both, auto simp: race_le_def intro: log_le_trans)

lemma new_race_ok: "race_ok H (new_race (new_control seg now ca_fp))"
  using new_sys_ok [of H seg now] by (simp add: race_ok_def new_race_def in_play_def new_control_def new_egress_def)

section \<open>The atomic model is one of the interleavings\<close>

lemma rejections_run:
  assumes "i < length (rc_calls s)" and "rc_calls s ! i = (eff, Rejecting rules)"
  shows "reaches (race_step serial H sign D) s
    (s\<lparr>rc_control := (rc_control s)\<lparr>cn_egress := (cn_egress (rc_control s))
          \<lparr>eg_log := record_rejections H env n rules (race_transcript s)\<rparr>\<rparr>,
       rc_calls := (rc_calls s)[i := (eff, Rejecting [])]\<rparr>)"
  using assms
proof (induction rules arbitrary: s n)
  case Nil
  then have "(rc_calls s)[i := (eff, Rejecting [])] = rc_calls s" by (metis list_update_id)
  then show ?case by (simp add: reaches_refl)
next
  case (Cons rule rules)
  define t where "t = s\<lparr>rc_control := session_reject H (ae_ticks env n) (ae_salts env n) rule (rc_control s),
    rc_calls := (rc_calls s)[i := (eff, Rejecting rules)]\<rparr>"
  have "race_step serial H sign D s t" unfolding t_def by (rule race_reject [OF Cons.prems])
  then have "reaches (race_step serial H sign D) s t" by (rule reaches_one)
  moreover have "i < length (rc_calls t)" "rc_calls t ! i = (eff, Rejecting rules)"
    using Cons.prems(1) by (simp_all add: t_def)
  note Cons.IH [OF this, of "Suc n"]
  ultimately show ?case
    by (rule reaches_trans [where step = "race_step serial H sign D", THEN back_subst [where P = "reaches (race_step serial H sign D) s"]])
      (simp add: t_def session_reject_def)
qed

lemma unchanged_fields:
  "rc_calls s = x \<Longrightarrow> s\<lparr>rc_control := c, rc_calls := x\<rparr> = s\<lparr>rc_control := c\<rparr>"
  "rc_reservations s = y \<Longrightarrow> s\<lparr>rc_control := c, rc_reservations := y\<rparr> = s\<lparr>rc_control := c\<rparr>"
  by (cases s, simp)+

lemma session_run:
  assumes "handle_session H env body (rc_control s) = (cn, resp)" and "rc_calls s = []"
  shows "reaches (race_step serial H sign D) s (s\<lparr>rc_control := cn\<rparr>)"
proof (cases "session_begin H env body (rc_control s)")
  case (Pair cn1 res)
  show ?thesis
  proof (cases res)
    case (Inl r)
    with Pair assms(1) have "cn1 = cn" by (simp add: handle_session_pieces)
    with Pair Inl show ?thesis by (auto intro: reaches_one race_refused)
  next
    case (Inr eff)
    define l where "l = record_rejections H env 1 (elems (ep_rejected eff)) (eg_log (cn_egress cn1))"
    define cn2 where "cn2 = cn1\<lparr>cn_egress := (cn_egress cn1)\<lparr>eg_log := l\<rparr>\<rparr>"
    have cn: "cn = session_enforce eff (session_attest eff cn2)"
      using Pair Inr assms(1) by (simp add: handle_session_pieces cn2_def l_def)
    define at where "at c st = s\<lparr>rc_control := c, rc_calls := [(eff, st)]\<rparr>" for c st
    have "race_step serial H sign D s (at cn1 (Rejecting (elems (ep_rejected eff))))"
      using race_session [of serial s H env body cn1 eff sign D] Pair Inr assms(2) by (simp add: at_def)
    moreover have "reaches (race_step serial H sign D) (at cn1 (Rejecting (elems (ep_rejected eff)))) (at cn2 (Rejecting []))"
      using rejections_run [of 0 "at cn1 (Rejecting (elems (ep_rejected eff)))" eff "elems (ep_rejected eff)" serial H sign D env 1]
      by (simp add: at_def cn2_def l_def)
    moreover have "race_step serial H sign D (at cn2 (Rejecting [])) (at (session_attest eff cn2) Enforcing)"
      using race_attest [of 0 "at cn2 (Rejecting [])" eff serial H sign D] by (simp add: at_def)
    moreover have "race_step serial H sign D (at (session_attest eff cn2) Enforcing) (s\<lparr>rc_control := cn\<rparr>)"
      using race_enforce [of 0 "at (session_attest eff cn2) Enforcing" eff serial H sign D] assms(2)
      by (simp add: at_def cn remove_nth_def unchanged_fields)
    ultimately show ?thesis by (metis reaches_one reaches_trans)
  qed
qed

lemma control_step_run:
  assumes "control_step H (cn, rs) (cn', rs')" and "rc_calls s = []" "rc_control s = cn" "rc_reservations s = rs"
  shows "reaches (race_step serial H sign D) s (s\<lparr>rc_control := cn', rc_reservations := rs'\<rparr>)"
  using assms
proof (cases rule: control_step.cases)
  case (control_log l)
  with assms race_log [of H s l rs' serial sign D] show ?thesis by (simp add: reaches_one unchanged_fields)
next
  case (control_session env body resp)
  with assms session_run [of H env body s cn' resp serial sign D] show ?thesis by (simp add: unchanged_fields)
next
  case (control_resume env body resp)
  with assms race_resume [of H env body s cn' resp serial sign D] show ?thesis by (simp add: reaches_one unchanged_fields)
next
  case (control_signer k)
  with assms race_signer [of serial H sign D s k] show ?thesis by (simp add: reaches_one unchanged_fields)
next
  case (control_signer_err e)
  with assms race_signer_err [of serial H sign D s e] show ?thesis by (simp add: reaches_one unchanged_fields)
qed

lemma control_runs_embed:
  assumes "reaches (control_step H) (cn, []) (cn', rs')"
  shows "reaches (race_step serial H sign D) (new_race cn) ((new_race cn')\<lparr>rc_reservations := rs'\<rparr>)"
  using assms
proof (induction "(cn, [] :: reservation list)" "(cn', rs')" arbitrary: cn' rs' rule: reaches.induct)
  case reaches_refl
  then show ?case by (simp add: new_race_def reaches.reaches_refl)
next
  case (reaches_step t)
  obtain c r where t: "t = (c, r)" by fastforce
  have "reaches (race_step serial H sign D) ((new_race c)\<lparr>rc_reservations := r\<rparr>)
      ((new_race c)\<lparr>rc_reservations := r\<rparr>\<lparr>rc_control := cn', rc_reservations := rs'\<rparr>)"
    using reaches_step(3) unfolding t by (rule control_step_run) (simp_all add: new_race_def)
  with reaches_step(2) [OF t] show ?case by (auto simp: new_race_def intro: reaches_trans)
qed

section \<open>One session at a time\<close>

definition serial_ok :: "'k race \<Rightarrow> bool" where
  [go_eval]: "serial_ok s \<longleftrightarrow> length (rc_calls s) \<le> 1 \<and> cn_policy (rc_control s) =
     (if map snd (rc_calls s) = [Enforcing] then Some (fst (hd (rc_calls s))) else eg_policy (cn_egress (rc_control s)))"

lemma serial_step:
  assumes "race_step True H sign D s t" and "serial_ok s"
  shows "serial_ok t"
  using assms
proof (induction rule: race_step.induct)
  case (race_session s env body cn eff)
  with session_begin_log(2,3) [OF race_session(2)] show ?case by (simp add: serial_ok_def)
next
  case (race_refused env body s cn resp)
  with session_begin_log(2,3) [OF race_refused(1)] show ?case by (simp add: serial_ok_def)
next
  case (race_reject i s eff rule rules tk salt)
  then have "rc_calls s = [(eff, Rejecting (rule # rules))]" "i = 0"
    by (auto simp: serial_ok_def le_Suc_eq length_Suc_conv)
  with race_reject(3) show ?case by (simp add: serial_ok_def session_reject_def)
next
  case (race_attest i s eff)
  then have "rc_calls s = [(eff, Rejecting [])]" "i = 0"
    by (auto simp: serial_ok_def le_Suc_eq length_Suc_conv)
  then show ?case by (simp add: serial_ok_def session_attest_def)
next
  case (race_enforce i s eff)
  then have "rc_calls s = [(eff, Enforcing)]" "i = 0"
    by (auto simp: serial_ok_def le_Suc_eq length_Suc_conv)
  with race_enforce(3) show ?case by (simp add: serial_ok_def session_enforce_def set_policy_def remove_nth_def)
next
  case (race_resume env body s cn resp)
  with resume_log_step [OF race_resume(1)] show ?case by (simp add: serial_ok_def)
qed (simp_all add: serial_ok_def set_signer_def)

interpretation serial: step_system "race_step True H sign D" serial_ok "\<lambda>_ _. True" for H sign D
  by unfold_locales (simp_all add: serial_step)

section \<open>Properties\<close>

text \<open>
  C7. However the control requests, the log's callers and the head calls overlap, every checkpoint
  ever signed is a true statement about the transcript that is served: this process's segment, a
  count and the head of exactly that many of its lines, and a policy hash that is empty or that of
  a policy some \<open>session.start\<close> line declares. So is the policy the proxy enforces.
\<close>

theorem checkpoints_true_under_races:
  assumes "reaches (race_step serial H sign D) (new_race (new_control seg now ca_fp)) s"
  shows "(\<forall>cp \<in> sc_checkpoint ` set (rc_signed s). cp_segment cp = seg \<and>
       0 \<le> cp_seq cp \<and> nat (cp_seq cp) \<le> length (al_records (eg_log (cn_egress (rc_control s)))) \<and>
       replay H (take (nat (cp_seq cp)) (log_range 0 0 (eg_log (cn_egress (rc_control s))))) = Some (cp_head cp) \<and>
       (cp_policy cp = [] \<or> (\<exists>p. cp_policy cp = ep_eff_sha p \<and> declares (eg_log (cn_egress (rc_control s))) p))) \<and>
     (\<forall>p \<in> set_option (eg_policy (cn_egress (rc_control s))). declares (eg_log (cn_egress (rc_control s))) p)"
proof -
  have ok: "race_ok H s" by (rule racing.reaches_inv [OF assms new_race_ok])
  have "race_le (new_race (new_control seg now ca_fp)) s" by (rule racing.reaches_le [OF assms new_race_ok])
  then have "al_segment (race_transcript s) = seg"
    by (simp add: race_le_def log_le_def new_race_def new_control_def new_egress_def new_audit_log_def)
  with ok show ?thesis by (auto simp: race_ok_def true_checkpoint_def names_prefix_def in_play_def)
qed

theorem checkpoints_true_under_races_witness:
  "\<exists>s sc. reaches (race_step False (\<lambda>x. x) (\<lambda>k d. Inr (k @ d)) id) (new_race (new_control ''seg'' ''t'' ''ca'')) s \<and>
     rc_signed s = [sc] \<and> cp_segment (sc_checkpoint sc) = ''seg''"
proof -
  let ?step = "race_step False (\<lambda>x. x) (\<lambda>k d. Inr (k @ d)) id"
  define s1 where "s1 = new_race sample_control"
  have "?step (new_race (new_control ''seg'' ''t'' ''ca'')) s1"
    using race_signer [of False "\<lambda>x. x" "\<lambda>k d. Inr (k @ d)" id "new_race (new_control ''seg'' ''t'' ''ca'')"
      "\<lparr>sg_key = ''k'', sg_pub_pem = ''p'', sg_key_fp = ''f''\<rparr>"] by (simp add: s1_def new_race_def sample_control_def)
  moreover obtain h where h: "head_read sample_control = Inr h"
    by (simp add: head_read_def require_signer_def sample_control_def set_signer_def)
  have "?step s1 (s1\<lparr>rc_heads := [h]\<rparr>)"
    using race_head [of s1 h False "\<lambda>x. x" "\<lambda>k d. Inr (k @ d)" id] h by (simp add: s1_def new_race_def)
  moreover have "snd (handle_head (\<lambda>k d. Inr (k @ d)) id ''now'' sample_control) \<noteq> None" by code_simp
  then obtain resp sc where "head_finish (\<lambda>k d. Inr (k @ d)) id ''now'' h sample_control = (resp, Some sc)"
    by (cases "head_finish (\<lambda>k d. Inr (k @ d)) id ''now'' h sample_control") (auto simp: handle_head_pieces h)
  then have "?step (s1\<lparr>rc_heads := [h]\<rparr>) (s1\<lparr>rc_signed := [sc]\<rparr>)"
    using race_answer [of 0 "s1\<lparr>rc_heads := [h]\<rparr>" "\<lambda>k d. Inr (k @ d)" id "''now''" resp "Some sc" False "\<lambda>x. x"]
    by (simp add: s1_def new_race_def remove_nth_def)
  ultimately have r: "reaches ?step (new_race (new_control ''seg'' ''t'' ''ca'')) (s1\<lparr>rc_signed := [sc]\<rparr>)"
    by (meson reaches_one reaches_trans)
  from checkpoints_true_under_races [OF this] r show ?thesis by (auto intro!: exI [of _ "s1\<lparr>rc_signed := [sc]\<rparr>"])
qed

text \<open>
  C18. When session requests do not overlap each other, then whatever else runs, the policy the API
  attests is the one the proxy enforces whenever no session call is in progress; while one is, they
  can differ only between its two last assignments, and then the attested one is that call's.
\<close>

theorem serial_sessions_attest_enforced:
  assumes "reaches (race_step True H sign D) (new_race (new_control seg now ca_fp)) s"
  shows "cn_policy (rc_control s) = eg_policy (cn_egress (rc_control s)) \<or>
    (\<exists>eff. rc_calls s = [(eff, Enforcing)] \<and> cn_policy (rc_control s) = Some eff)"
proof -
  have "serial_ok (new_race (new_control seg now ca_fp))"
    by (simp add: serial_ok_def new_race_def new_control_def new_egress_def)
  then have "serial_ok s" by (rule serial.reaches_inv [OF assms])
  then show ?thesis
    by (cases "rc_calls s") (auto simp: serial_ok_def split: if_splits)
qed

theorem serial_sessions_attest_enforced_witness:
  "cn_policy (rc_control (new_race sample_control)) = eg_policy (cn_egress (rc_control (new_race sample_control)))"
proof -
  have "reaches (race_step True (\<lambda>x. x) (\<lambda>k d. Inr (k @ d)) id) (new_race (new_control ''seg'' ''t'' ''ca'')) (new_race sample_control)"
    using race_signer [of True "\<lambda>x. x" "\<lambda>k d. Inr (k @ d)" id "new_race (new_control ''seg'' ''t'' ''ca'')"
      "\<lparr>sg_key = ''k'', sg_pub_pem = ''p'', sg_key_fp = ''f''\<rparr>"] by (simp add: new_race_def sample_control_def reaches_one)
  from serial_sessions_attest_enforced [OF this] show ?thesis by (simp add: new_race_def)
qed

text \<open>Two decoded session bodies, one that allows nothing and one that allows the attested host.\<close>

definition allow_only :: "string list \<Rightarrow> policy" where
  [go_eval]: "allow_only hosts = \<lparr>pol_allow = Some hosts, pol_deny = None, pol_tunnel_only = None, pol_max_response_bytes = 0\<rparr>"

definition allow_body :: "string list \<Rightarrow> string" where
  [go_eval]: "allow_body hosts = ''{'' @ json_quote ''allow'' @ '':['' @ concat (map json_quote hosts) @ '']}''"

lemma allow_bodies_decoded:
  "decode_policy (allow_body []) = Some (allow_only [])"
  "decode_policy (allow_body [''api.example.com'']) = Some (allow_only [''api.example.com''])"
proof -
  have "length (allow_body []) \<le> 40" "length (allow_body [''api.example.com'']) \<le> 40" by code_simp+
  then have "take max_control_body (allow_body []) = allow_body []"
    "take max_control_body (allow_body [''api.example.com'']) = allow_body [''api.example.com'']"
    by (simp_all add: max_control_body_def)
  moreover have "Option.bind (Option.bind (json_decode (allow_body [])) struct_members) policy_of_members = Some (allow_only [])"
    "Option.bind (Option.bind (json_decode (allow_body [''api.example.com''])) struct_members) policy_of_members =
       Some (allow_only [''api.example.com''])" by code_simp+
  ultimately show "decode_policy (allow_body []) = Some (allow_only [])"
    "decode_policy (allow_body [''api.example.com'']) = Some (allow_only [''api.example.com''])"
    by (simp_all add: decode_policy_def)
qed

lemma begun_cases:
  assumes "case x of (c, Inr p) \<Rightarrow> P c p | _ \<Rightarrow> False"
  obtains c p where "x = (c, Inr p)" "P c p"
  using assms by (auto split: prod.splits sum.splits)

text \<open>Two session calls overlap: both append, the second assigns first, and the proxy gets the second's policy last.\<close>

lemma overlap_run:
  assumes "session_begin H e1 b1 cn = (cn1, Inr p)" and "session_begin H e2 b2 cn1 = (cn2, Inr q)"
    and "elems (ep_rejected p) = []" "elems (ep_rejected q) = []"
  shows "reaches (race_step False H sign D) (new_race cn) (new_race (session_enforce q (session_attest p cn2)))"
proof -
  define at where "at c cs = (new_race c)\<lparr>rc_calls := cs\<rparr>" for c :: "'a control" and cs
  have "race_step False H sign D (at cn []) (at cn1 [(p, Rejecting [])])"
    using race_session [of False "at cn []" H e1 b1 cn1 p sign D] assms by (simp add: at_def new_race_def)
  moreover have "race_step False H sign D (at cn1 [(p, Rejecting [])]) (at cn2 [(p, Rejecting []), (q, Rejecting [])])"
    using race_session [of False "at cn1 [(p, Rejecting [])]" H e2 b2 cn2 q sign D] assms by (simp add: at_def new_race_def)
  moreover have "race_step False H sign D (at cn2 [(p, Rejecting []), (q, Rejecting [])])
      (at (session_attest q cn2) [(p, Rejecting []), (q, Enforcing)])"
    using race_attest [of 1 "at cn2 [(p, Rejecting []), (q, Rejecting [])]" q] by (simp add: at_def new_race_def)
  moreover have "race_step False H sign D (at (session_attest q cn2) [(p, Rejecting []), (q, Enforcing)])
      (at (session_attest p cn2) [(p, Enforcing), (q, Enforcing)])"
    using race_attest [of 0 "at (session_attest q cn2) [(p, Rejecting []), (q, Enforcing)]" p]
    by (simp add: at_def new_race_def session_attest_def)
  moreover have "race_step False H sign D (at (session_attest p cn2) [(p, Enforcing), (q, Enforcing)])
      (at (session_enforce p (session_attest p cn2)) [(q, Enforcing)])"
    using race_enforce [of 0 "at (session_attest p cn2) [(p, Enforcing), (q, Enforcing)]" p]
    by (simp add: at_def new_race_def remove_nth_def)
  moreover have "race_step False H sign D (at (session_enforce p (session_attest p cn2)) [(q, Enforcing)])
      (at (session_enforce q (session_attest p cn2)) [])"
    using race_enforce [of 0 "at (session_enforce p (session_attest p cn2)) [(q, Enforcing)]" q]
    by (simp add: at_def new_race_def remove_nth_def session_enforce_def set_policy_def)
  ultimately have "reaches (race_step False H sign D) (at cn []) (at (session_enforce q (session_attest p cn2)) [])"
    by (meson reaches_one reaches_trans)
  then show ?thesis by (simp add: at_def new_race_def)
qed

lemma sample_overlap:
  "case session_start (\<lambda>x. x) sample_api (allow_only []) sample_control of
     (cn1, Inr p) \<Rightarrow>
       (case session_start (\<lambda>x. x) sample_api (allow_only [''api.example.com'']) cn1 of
          (cn2, Inr q) \<Rightarrow> elems (ep_rejected p) = [] \<and> elems (ep_rejected q) = [] \<and>
            \<not> fst (decide p ''https://api.example.com/'') \<and> fst (decide q ''https://api.example.com/'')
        | _ \<Rightarrow> False)
   | _ \<Rightarrow> False"
  by code_simp

text \<open>
  Without that discipline the two can come apart for good: there is a run of two overlapping
  session calls after which no call is in progress, the API attests a policy that denies a URL, and
  the proxy enforces one that allows it. Every later head is signed under the wrong policy.
\<close>

theorem overlapping_sessions_split:
  "\<exists>s. reaches (race_step False (\<lambda>x. x) sign D) (new_race sample_control) s \<and> rc_calls s = [] \<and>
     (\<exists>p q. cn_policy (rc_control s) = Some p \<and> eg_policy (cn_egress (rc_control s)) = Some q \<and>
        \<not> fst (decide p ''https://api.example.com/'') \<and> fst (decide q ''https://api.example.com/''))"
proof -
  obtain cn1 p where p: "session_start (\<lambda>x. x) sample_api (allow_only []) sample_control = (cn1, Inr p)"
    and rest: "case session_start (\<lambda>x. x) sample_api (allow_only [''api.example.com'']) cn1 of
          (cn2, Inr q) \<Rightarrow> elems (ep_rejected p) = [] \<and> elems (ep_rejected q) = [] \<and>
            \<not> fst (decide p ''https://api.example.com/'') \<and> fst (decide q ''https://api.example.com/'')
        | _ \<Rightarrow> False"
    using sample_overlap by (rule begun_cases)
  obtain cn2 q where q: "session_start (\<lambda>x. x) sample_api (allow_only [''api.example.com'']) cn1 = (cn2, Inr q)"
    and pq: "elems (ep_rejected p) = [] \<and> elems (ep_rejected q) = [] \<and>
      \<not> fst (decide p ''https://api.example.com/'') \<and> fst (decide q ''https://api.example.com/'')"
    using rest by (rule begun_cases)
  have "session_begin (\<lambda>x. x) sample_api (allow_body []) sample_control = (cn1, Inr p)"
    "session_begin (\<lambda>x. x) sample_api (allow_body [''api.example.com'']) cn1 = (cn2, Inr q)"
    by (simp_all add: session_begin_def allow_bodies_decoded p q)
  from overlap_run [OF this, of sign D] pq show ?thesis
    by (auto simp: new_race_def session_enforce_def session_attest_def set_policy_def)
qed

end
