(* ===== verification/Go_Path.thy ===== *)
theory Go_Path imports Go_Strings Go_Json begin

text \<open>
  The lexical part of \<open>path/filepath\<close> on Unix, as the executor uses it: \<open>Clean\<close>, \<open>Dir\<close>, \<open>Rel\<close> from a
  clean absolute base, \<open>IsAbs\<close> and \<open>IsLocal\<close>. A path is worked on as its list of components.
\<close>

definition is_abs :: "string \<Rightarrow> bool" where
  [go_eval]: "is_abs p \<longleftrightarrow> prefix ''/'' p"

definition path_parts :: "string \<Rightarrow> string list" where
  [go_eval]: "path_parts p = split_byte CHR ''/'' p"

text \<open>One component of \<open>Clean\<close>; the output so far is kept in reverse.\<close>

definition clean_step :: "bool \<Rightarrow> string \<Rightarrow> string list \<Rightarrow> string list" where
  [go_eval]: "clean_step rooted x out =
     (if x = [] \<or> x = ''.'' then out
      else if x = ''..'' then
        (if out \<noteq> [] \<and> hd out \<noteq> ''..'' then tl out else if rooted then out else x # out)
      else x # out)"

definition clean_parts :: "bool \<Rightarrow> string list \<Rightarrow> string list" where
  [go_eval]: "clean_parts rooted xs = rev (fold (clean_step rooted) xs [])"

definition path_join :: "string list \<Rightarrow> string" where
  [go_eval]: "path_join xs = join ''/'' xs"

definition clean :: "string \<Rightarrow> string" where
  [go_eval]: "clean p =
     (let ps = clean_parts (is_abs p) (path_parts p) in
      if is_abs p then CHR ''/'' # path_join ps else if ps = [] then ''.'' else path_join ps)"

text \<open>\<open>Dir\<close>: everything up to the last slash, cleaned.\<close>

definition path_dir :: "string \<Rightarrow> string" where
  [go_eval]: "path_dir p = clean (rev (dropWhile (\<lambda>c. c \<noteq> CHR ''/'') (rev p)))"

text \<open>\<open>Rel\<close> of an absolute path from a clean absolute base, both as components: it always succeeds.\<close>

fun strip_common :: "string list \<Rightarrow> string list \<Rightarrow> string list \<times> string list" where
  "strip_common (x # xs) (y # ys) = (if x = y then strip_common xs ys else (x # xs, y # ys))"
| "strip_common xs ys = (xs, ys)"

definition path_rel :: "string list \<Rightarrow> string \<Rightarrow> string" where
  [go_eval]: "path_rel base p =
     (case strip_common base (clean_parts True (path_parts p)) of
        (up, down) \<Rightarrow> if up = [] \<and> down = [] then ''.'' else path_join (map (\<lambda>_. ''..'') up @ down))"

definition is_local :: "string \<Rightarrow> bool" where
  [go_eval]: "is_local p \<longleftrightarrow>
     (if is_abs p \<or> p = [] then False
      else
        let q = (if ''.'' \<in> set (path_parts p) \<or> ''..'' \<in> set (path_parts p) then clean p else p) in
        q \<noteq> ''..'' \<and> \<not> prefix ''../'' q)"

section \<open>Plain names\<close>

text \<open>A name that stands for itself: not empty, no slash, neither dot.\<close>

definition plain_name :: "string \<Rightarrow> bool" where
  [go_eval]: "plain_name x \<longleftrightarrow> x \<noteq> [] \<and> CHR ''/'' \<notin> set x \<and> x \<noteq> ''.'' \<and> x \<noteq> ''..''"

definition segment :: "string \<Rightarrow> bool" where
  [go_eval]: "segment x \<longleftrightarrow> x \<noteq> [] \<and> CHR ''/'' \<notin> set x"

lemma plain_segment: "plain_name x \<Longrightarrow> segment x"
  by (simp add: plain_name_def segment_def)

lemma plain_segments: "list_all plain_name xs \<Longrightarrow> list_all segment xs"
  by (auto simp: list_all_iff plain_segment)

lemma split_byte_nonempty [simp]: "split_byte c s \<noteq> []"
  by (cases s) (auto split: list.splits)

lemma split_byte_notin: "c \<notin> set x \<Longrightarrow> split_byte c x = [x]"
  by (induction x) auto

lemma split_byte_Cons_stop: "c \<notin> set x \<Longrightarrow> split_byte c (x @ c # s) = x # split_byte c s"
  by (induction x) auto

lemma split_byte_parts: "x \<in> set (split_byte c s) \<Longrightarrow> c \<notin> set x"
proof (induction s arbitrary: x)
  case (Cons a s)
  then show ?case by (cases "split_byte c s") (auto split: if_splits)
qed simp

lemma path_join_Cons: "xs \<noteq> [] \<Longrightarrow> path_join (x # xs) = x @ CHR ''/'' # path_join xs"
  by (cases xs) (simp_all add: path_join_def)

lemma path_join_one [simp]: "path_join [x] = x" "path_join [] = []"
  by (simp_all add: path_join_def)

lemma path_join_snoc: "xs \<noteq> [] \<Longrightarrow> path_join (xs @ [x]) = path_join xs @ CHR ''/'' # x"
proof (induction xs)
  case (Cons y ys)
  then show ?case by (cases "ys = []") (simp_all add: path_join_Cons)
qed simp

lemma path_parts_join: "xs \<noteq> [] \<Longrightarrow> list_all (\<lambda>x. CHR ''/'' \<notin> set x) xs \<Longrightarrow> path_parts (path_join xs) = xs"
proof (induction xs rule: list_nonempty_induct)
  case (cons x xs)
  then show ?case by (simp add: path_join_Cons path_parts_def split_byte_Cons_stop)
qed (simp add: path_parts_def split_byte_notin)

lemma segments_parts: "xs \<noteq> [] \<Longrightarrow> list_all segment xs \<Longrightarrow> path_parts (path_join xs) = xs"
  by (rule path_parts_join) (auto simp: list_all_iff segment_def)

lemma segments_first:
  assumes "xs \<noteq> []" and "list_all segment xs"
  shows "\<exists>c s. path_join xs = c # s \<and> c \<noteq> CHR ''/''"
proof -
  obtain x ys where xs: "xs = x # ys" using assms(1) by (cases xs) auto
  with assms(2) obtain c s where x: "x = c # s" "c \<noteq> CHR ''/''" by (cases x) (auto simp: segment_def)
  have "path_join xs = x @ (if ys = [] then [] else CHR ''/'' # path_join ys)"
    using xs by (cases "ys = []") (simp_all add: path_join_Cons)
  with x show ?thesis by simp
qed

lemma segments_not_abs:
  assumes "list_all segment xs"
  shows "\<not> is_abs (path_join xs)"
proof (cases "xs = []")
  case False
  from segments_first [OF this assms] show ?thesis by (auto simp: is_abs_def)
qed (simp add: is_abs_def)

lemma segments_parts_slash: "xs \<noteq> [] \<Longrightarrow> list_all segment xs \<Longrightarrow> path_parts (path_join xs @ ''/'') = xs @ [[]]"
proof (induction xs rule: list_nonempty_induct)
  case (single y)
  then show ?case using split_byte_Cons_stop [of "CHR ''/''" y "[]"] by (simp add: path_parts_def segment_def)
next
  case (cons y ys)
  then show ?case using split_byte_Cons_stop [of "CHR ''/''" y "path_join ys @ ''/''"]
    by (simp add: path_join_Cons path_parts_def segment_def)
qed

text \<open>The directory of a clean path: \<open>.\<close> or the path without its last component.\<close>

lemma path_dir_segments:
  assumes "list_all segment (xs @ [x])" and "clean_parts False xs = xs"
  shows "path_dir (path_join (xs @ [x])) = (if xs = [] then ''.'' else path_join xs)"
proof -
  have x: "CHR ''/'' \<notin> set x" using assms by (simp add: segment_def)
  have d: "dropWhile (\<lambda>c. c \<noteq> CHR ''/'') (rev x @ ys) = dropWhile (\<lambda>c. c \<noteq> CHR ''/'') ys" for ys
    using x by (intro dropWhile_append2) auto
  show ?thesis
  proof (cases "xs = []")
    case True
    have "clean [] = ''.''" by code_simp
    moreover have "dropWhile (\<lambda>c. c \<noteq> CHR ''/'') (rev x) = []" using x by (auto simp: dropWhile_eq_Nil_conv)
    ultimately show ?thesis unfolding True path_dir_def append_Nil path_join_one by (simp only: rev.simps simp_thms if_True)
  next
    case False
    have p: "list_all segment xs" using assms by simp
    have na: "\<not> is_abs (path_join xs @ ''/'')" using segments_first [OF False p] by (auto simp: is_abs_def)
    have "clean_parts False (xs @ [[]]) = xs"
      using assms(2) by (simp add: clean_parts_def) (simp add: clean_step_def)
    with False na have "clean (path_join xs @ ''/'') = path_join xs"
      by (simp add: clean_def segments_parts_slash [OF False p])
    with False d [of "CHR ''/'' # rev (path_join xs)"] show ?thesis
      by (simp add: path_dir_def path_join_snoc)
  qed
qed

section \<open>Paths of plain names\<close>

lemma plain_names_parts: "xs \<noteq> [] \<Longrightarrow> list_all plain_name xs \<Longrightarrow> path_parts (path_join xs) = xs"
  by (simp add: segments_parts plain_segments)

lemma plain_first: "xs \<noteq> [] \<Longrightarrow> list_all plain_name xs \<Longrightarrow> \<exists>c s. path_join xs = c # s \<and> c \<noteq> CHR ''/''"
  by (rule segments_first [OF _ plain_segments])

lemma path_join_not_abs: "list_all plain_name xs \<Longrightarrow> \<not> is_abs (path_join xs)"
  by (simp add: segments_not_abs plain_segments)

lemma path_parts_slash: "xs \<noteq> [] \<Longrightarrow> list_all plain_name xs \<Longrightarrow> path_parts (path_join xs @ ''/'') = xs @ [[]]"
  by (simp add: segments_parts_slash plain_segments)

lemma fold_clean_plain: "list_all plain_name xs \<Longrightarrow> fold (clean_step r) xs out = rev xs @ out"
  by (induction xs arbitrary: out) (auto simp: clean_step_def plain_name_def)

lemma clean_parts_plain: "list_all plain_name xs \<Longrightarrow> clean_parts r xs = xs"
  by (simp add: clean_parts_def fold_clean_plain)

lemma clean_plain: "xs \<noteq> [] \<Longrightarrow> list_all plain_name xs \<Longrightarrow> clean (path_join xs) = path_join xs"
  by (simp add: clean_def plain_names_parts path_join_not_abs clean_parts_plain)

lemma path_dir_plain:
  "list_all plain_name (xs @ [x]) \<Longrightarrow> path_dir (path_join (xs @ [x])) = (if xs = [] then ''.'' else path_join xs)"
  by (intro path_dir_segments) (simp_all add: plain_segments plain_segment clean_parts_plain)

text \<open>A cleaned absolute path has plain names only.\<close>

lemma fold_clean_rooted:
  "\<forall>x \<in> set xs. CHR ''/'' \<notin> set x \<Longrightarrow> list_all plain_name out \<Longrightarrow> list_all plain_name (fold (clean_step True) xs out)"
proof (induction xs arbitrary: out)
  case (Cons x xs)
  from Cons.prems have "CHR ''/'' \<notin> set x" "list_all plain_name out" by simp_all
  then have "list_all plain_name (clean_step True x out)"
    by (cases out) (auto simp: clean_step_def plain_name_def list_all_iff)
  with Cons show ?case by simp
qed simp

lemma clean_rooted_plain: "\<forall>x \<in> set xs. CHR ''/'' \<notin> set x \<Longrightarrow> list_all plain_name (clean_parts True xs)"
  using fold_clean_rooted [of xs "[]"] by (simp add: clean_parts_def list_all_iff)

end
