(* ===== verification/Go_Root.thy ===== *)
theory Go_Root imports Go_Path "HOL-Library.AList" begin

text \<open>
  A file tree and Go's \<open>*os.Root\<close> on it: the operations the executor performs on \<open>/workspace\<close> and
  \<open>/user-uploads\<close>. A path is walked from the root of the tree; a symbolic link on the way is followed
  inside the tree, at most \<open>re_links\<close> times, and a path that leaves the tree is refused. An operation
  can also fail for a reason the tree does not show (permissions, a full device): those faults are in
  the environment. A fifo, a socket or a device is \<open>Special\<close>: what reading or writing it gives is in the
  environment too. Not modelled: file modes, and the limit on very long walks with many \<open>..\<close>.
\<close>

section \<open>Trees\<close>

datatype node = Reg string | Dir "(string \<times> node) list" | Link string | Special

fun node_at :: "node \<Rightarrow> string list \<Rightarrow> node option" where
  "node_at n [] = Some n"
| "node_at (Dir es) (x # p) = (case map_of es x of None \<Rightarrow> None | Some m \<Rightarrow> node_at m p)"
| "node_at n (x # p) = None"

text \<open>Putting a node at a path whose parent is there, and dropping the one at a path.\<close>

fun put_node :: "string list \<Rightarrow> node \<Rightarrow> node \<Rightarrow> node" where
  "put_node [] m n = m"
| "put_node (x # p) m (Dir es) =
     Dir (AList.update x (put_node p m (case map_of es x of None \<Rightarrow> Dir [] | Some k \<Rightarrow> k)) es)"
| "put_node (x # p) m n = n"

fun drop_node :: "string list \<Rightarrow> node \<Rightarrow> node" where
  "drop_node [] n = n"
| "drop_node [x] (Dir es) = Dir (AList.delete x es)"
| "drop_node (x # p) (Dir es) =
     (case map_of es x of None \<Rightarrow> Dir es | Some k \<Rightarrow> Dir (AList.update x (drop_node p k) es))"
| "drop_node (x # p) n = n"

section \<open>Walking a path\<close>

datatype io_err = Not_Exist | Path_Escapes | Not_Dir | Is_Dir | Too_Many_Links | Empty_Path | Fault string

text \<open>
  The components a path is walked by. A trailing slash asks for a directory, as a trailing dot does;
  doubled slashes count once.
\<close>

definition root_parts :: "string \<Rightarrow> io_err + string list" where
  [go_eval]: "root_parts p =
     (if p = [] then Inl Empty_Path
      else if is_abs p then Inl Path_Escapes
      else
        let ps = path_parts p in
        Inr (filter (\<lambda>x. x \<noteq> []) ps @ (if last ps = [] then [''.''] else [])))"

text \<open>
  The canonical path of what a path names, or would name if its last component were created.
  \<open>follow\<close>: a link in last position is followed too.
\<close>

function resolve :: "nat \<Rightarrow> bool \<Rightarrow> node \<Rightarrow> string list \<Rightarrow> string list \<Rightarrow> io_err + string list" where
  "resolve k follow t at [] = Inr at"
| "resolve k follow t at (x # rest) =
     (if x = ''.'' then resolve k follow t at rest
      else if x = ''..'' then (if at = [] then Inl Path_Escapes else resolve k follow t (butlast at) rest)
      else
        (case node_at t (at @ [x]) of
           None \<Rightarrow> if rest = [] then Inr (at @ [x]) else Inl Not_Exist
         | Some (Link target) \<Rightarrow>
             if rest = [] \<and> \<not> follow then Inr (at @ [x])
             else if k = 0 then Inl Too_Many_Links
             else (case root_parts target of
                     Inl e \<Rightarrow> Inl e
                   | Inr ps \<Rightarrow> resolve (k - 1) follow t at (ps @ rest))
         | Some (Dir _) \<Rightarrow> resolve k follow t (at @ [x]) rest
         | Some _ \<Rightarrow> if rest = [] then Inr (at @ [x]) else Inl Not_Dir))"
  by pat_completeness auto

termination
  by (relation "measures [\<lambda>(k, _, _, _, rest). k, \<lambda>(k, _, _, _, rest). length rest]") auto

text \<open>\<open>MkdirAll\<close> walks the same way and makes the directories that are missing.\<close>

function mkdir_walk :: "nat \<Rightarrow> node \<Rightarrow> string list \<Rightarrow> string list \<Rightarrow> node \<times> io_err option" where
  "mkdir_walk k t at [] = (t, None)"
| "mkdir_walk k t at (x # rest) =
     (if x = ''.'' then mkdir_walk k t at rest
      else if x = ''..'' then (if at = [] then (t, Some Path_Escapes) else mkdir_walk k t (butlast at) rest)
      else
        (case node_at t (at @ [x]) of
           None \<Rightarrow> mkdir_walk k (put_node (at @ [x]) (Dir []) t) (at @ [x]) rest
         | Some (Link target) \<Rightarrow>
             if k = 0 then (t, Some Too_Many_Links)
             else (case root_parts target of
                     Inl e \<Rightarrow> (t, Some e)
                   | Inr ps \<Rightarrow> mkdir_walk (k - 1) t at (ps @ rest))
         | Some (Dir _) \<Rightarrow> mkdir_walk k t (at @ [x]) rest
         | Some _ \<Rightarrow> (t, Some Not_Dir)))"
  by pat_completeness auto

termination
  by (relation "measures [\<lambda>(k, _, _, rest). k, \<lambda>(k, _, _, rest). length rest]") auto

section \<open>The operations\<close>

record root_env =
  re_links :: nat
  re_stat_fault :: "string option"
  re_read_fault :: "string option"
  re_mkdir_fault :: "(nat \<times> string) option"
  re_write_fault :: "(nat option \<times> string) option"
  re_remove_fault :: "string option"
  re_special_read :: "string + string"
  re_special_write :: "string option"

definition root_resolve :: "root_env \<Rightarrow> bool \<Rightarrow> node \<Rightarrow> string \<Rightarrow> io_err + string list" where
  [go_eval]: "root_resolve env follow t p =
     (case root_parts p of Inl e \<Rightarrow> Inl e | Inr ps \<Rightarrow> resolve (re_links env) follow t [] ps)"

text \<open>\<open>Stat\<close>: what is there, behind links.\<close>

definition root_stat :: "root_env \<Rightarrow> node \<Rightarrow> string \<Rightarrow> io_err + node" where
  [go_eval]: "root_stat env t p =
     (case root_resolve env True t p of
        Inl e \<Rightarrow> Inl e
      | Inr q \<Rightarrow>
          (case re_stat_fault env of
             Some e \<Rightarrow> Inl (Fault e)
           | None \<Rightarrow> (case node_at t q of None \<Rightarrow> Inl Not_Exist | Some n \<Rightarrow> Inr n)))"

definition root_read_file :: "root_env \<Rightarrow> node \<Rightarrow> string \<Rightarrow> io_err + string" where
  [go_eval]: "root_read_file env t p =
     (case root_resolve env True t p of
        Inl e \<Rightarrow> Inl e
      | Inr q \<Rightarrow>
          (case re_read_fault env of
             Some e \<Rightarrow> Inl (Fault e)
           | None \<Rightarrow>
               (case node_at t q of
                  None \<Rightarrow> Inl Not_Exist
                | Some (Reg d) \<Rightarrow> Inr d
                | Some (Dir _) \<Rightarrow> Inl Is_Dir
                | Some (Link _) \<Rightarrow> Inl Too_Many_Links
                | Some Special \<Rightarrow> (case re_special_read env of Inl e \<Rightarrow> Inl (Fault e) | Inr d \<Rightarrow> Inr d))))"

text \<open>\<open>MkdirAll\<close>; a fault strikes after some of the components have been walked.\<close>

definition root_mkdir_all :: "root_env \<Rightarrow> node \<Rightarrow> string \<Rightarrow> node \<times> io_err option" where
  [go_eval]: "root_mkdir_all env t p =
     (case root_parts p of
        Inl e \<Rightarrow> (t, Some e)
      | Inr ps \<Rightarrow>
          (case re_mkdir_fault env of
             None \<Rightarrow> mkdir_walk (re_links env) t [] ps
           | Some (n, e) \<Rightarrow>
               (case mkdir_walk (re_links env) t [] (take n ps) of
                  (t', Some e') \<Rightarrow> (t', Some e')
                | (t', None) \<Rightarrow> (t', Some (Fault e)))))"

text \<open>
  \<open>WriteFile\<close>, and \<open>OpenFile\<close> with \<open>O_CREATE|O_WRONLY|O_TRUNC\<close> then a copy: a fault strikes before the
  file is opened (\<open>None\<close>) or after some bytes are written.
\<close>

definition root_write_file :: "root_env \<Rightarrow> node \<Rightarrow> string \<Rightarrow> string \<Rightarrow> node \<times> io_err option" where
  [go_eval]: "root_write_file env t p data =
     (case root_resolve env True t p of
        Inl e \<Rightarrow> (t, Some e)
      | Inr q \<Rightarrow>
          (case node_at t q of
             Some (Dir _) \<Rightarrow> (t, Some Is_Dir)
           | Some (Link _) \<Rightarrow> (t, Some Too_Many_Links)
           | Some Special \<Rightarrow> (t, map_option Fault (re_special_write env))
           | _ \<Rightarrow>
               (case re_write_fault env of
                  None \<Rightarrow> (put_node q (Reg data) t, None)
                | Some (None, e) \<Rightarrow> (t, Some (Fault e))
                | Some (Some n, e) \<Rightarrow> (put_node q (Reg (take n data)) t, Some (Fault e)))))"

text \<open>\<open>RemoveAll\<close>: a link in last position is itself removed; what is not there is no error.\<close>

definition root_remove_all :: "root_env \<Rightarrow> node \<Rightarrow> string \<Rightarrow> node \<times> io_err option" where
  [go_eval]: "root_remove_all env t p =
     (case root_resolve env False t p of
        Inl e \<Rightarrow> (t, if e = Not_Exist then None else Some e)
      | Inr q \<Rightarrow>
          (case re_remove_fault env of
             Some e \<Rightarrow> (t, Some (Fault e))
           | None \<Rightarrow> (drop_node q t, None)))"

section \<open>What a tree shows at a path\<close>

text \<open>The kind and content at a path, a directory without its entries: all that walking depends on.\<close>

fun shape :: "node \<Rightarrow> node" where
  "shape (Dir es) = Dir []"
| "shape n = n"

definition look :: "node \<Rightarrow> string list \<Rightarrow> node option" where
  [go_eval]: "look t p = map_option shape (node_at t p)"

lemma shape_eq [simp]:
  "shape n = Reg d \<longleftrightarrow> n = Reg d" "shape n = Link l \<longleftrightarrow> n = Link l" "shape n = Special \<longleftrightarrow> n = Special"
  "shape n = Dir [] \<longleftrightarrow> (\<exists>es. n = Dir es)" "shape n = Dir (e # es) \<longleftrightarrow> False"
  by (cases n; simp)+

lemma look_eq:
  "look t p = None \<longleftrightarrow> node_at t p = None" "look t p = Some (Reg d) \<longleftrightarrow> node_at t p = Some (Reg d)"
  "look t p = Some (Link l) \<longleftrightarrow> node_at t p = Some (Link l)" "look t p = Some Special \<longleftrightarrow> node_at t p = Some Special"
  "look t p = Some (Dir []) \<longleftrightarrow> (\<exists>es. node_at t p = Some (Dir es))"
  by (auto simp: look_def)

lemma look_cases:
  obtains (none) "look t p = None" | (reg) d where "look t p = Some (Reg d)" | (dir) "look t p = Some (Dir [])"
    | (link) l where "look t p = Some (Link l)" | (special) "look t p = Some Special"
proof (cases "node_at t p")
  case (Some n)
  then show thesis using that by (cases n) (simp_all add: look_def)
qed (use that in \<open>simp add: look_def\<close>)

lemma node_at_append: "node_at t (p @ q) = Option.bind (node_at t p) (\<lambda>n. node_at n q)"
  by (induction t p rule: node_at.induct) (auto split: option.splits)

lemma look_below: "look t (p @ x # q) \<noteq> None \<Longrightarrow> look t p = Some (Dir [])"
proof -
  assume "look t (p @ x # q) \<noteq> None"
  then obtain n where n: "node_at t p = Some n" "node_at n (x # q) \<noteq> None"
    by (cases "node_at t p") (auto simp: look_def node_at_append)
  then show ?thesis by (cases n) (auto simp: look_eq)
qed

lemma look_prefix_dir: "look t (p @ q) = Some (Dir []) \<Longrightarrow> look t p = Some (Dir [])"
  using look_below [of t p] by (cases q) fastforce+

lemma look_butlast: "look t p = Some (Dir []) \<Longrightarrow> look t (butlast p) = Some (Dir [])"
  using look_prefix_dir [of t "butlast p" "[last p]"] by (cases "p = []") simp_all

lemma node_at_put:
  assumes "p \<noteq> []" and "node_at t (butlast p) = Some (Dir es)"
  shows "look (put_node p m t) q = (if prefix p q then look m (drop (length p) q) else look t q)"
  using assms
proof (induction p arbitrary: t q)
  case outer: (Cons x p)
  then obtain fs where t: "t = Dir fs" by (cases t; cases p) auto
  show ?case
  proof (cases p)
    case Nil
    then show ?thesis by (cases q) (auto simp: t look_def update_conv')
  next
    case (Cons y p')
    with outer(3) t obtain k where k: "map_of fs x = Some k" "node_at k (butlast p) = Some (Dir es)"
      by (auto split: option.splits)
    have IH: "look (put_node p m k) q' = (if prefix p q' then look m (drop (length p) q') else look k q')" for q'
      using outer(1) [of k q'] k(2) Cons by simp
    show ?thesis
    proof (cases q)
      case q: (Cons z q')
      show ?thesis using IH [of q'] k(1) by (cases "z = x") (auto simp: t q look_def update_conv')
    qed (simp add: t look_def)
  qed
qed simp

lemma look_put:
  assumes "p \<noteq> []" and "look t (butlast p) = Some (Dir [])"
  shows "look (put_node p m t) q = (if prefix p q then look m (drop (length p) q) else look t q)"
  using assms node_at_put by (auto simp: look_eq)

text \<open>Putting a leaf where nothing or a file was changes the view at that path only.\<close>

lemma look_put_leaf:
  assumes "p \<noteq> []" and "look t (butlast p) = Some (Dir [])" and "look t p = None \<or> look t p = Some (Reg d)"
    and "m = Reg d' \<or> m = Dir []"
  shows "look (put_node p m t) = (look t)(p \<mapsto> m)"
proof
  fix q
  show "look (put_node p m t) q = ((look t)(p \<mapsto> m)) q"
  proof (cases "prefix p q \<and> q \<noteq> p")
    case True
    then obtain zs where "q = p @ zs" "zs \<noteq> []" by (auto simp: prefix_def)
    then obtain x r where q: "q = p @ x # r" by (cases zs) auto
    have "look t q = None" using look_below [of t p x r] assms(3) by (cases "look t (p @ x # r)") (auto simp: q)
    moreover have "look m (x # r) = None" using assms(4) by (auto simp: look_def)
    ultimately show ?thesis by (simp add: look_put [OF assms(1,2)] q)
  next
    case False
    have "look m [] = Some m" using assms(4) by (auto simp: look_def)
    with False look_put [OF assms(1,2), of m q] show ?thesis by (cases "q = p") auto
  qed
qed

lemma look_drop: "p \<noteq> [] \<Longrightarrow> look (drop_node p t) q = (if prefix p q then None else look t q)"
proof (induction p arbitrary: t q)
  case outer: (Cons x p)
  show ?case
  proof (cases t)
    case (Dir es)
    show ?thesis
    proof (cases "p = []")
      case True
      then show ?thesis by (cases q) (auto simp: Dir look_def delete_conv')
    next
      case False
      then obtain y p' where p: "p = y # p'" by (cases p) auto
      show ?thesis
      proof (cases "map_of es x")
        case None
        then show ?thesis by (cases q) (auto simp: Dir p look_def)
      next
        case (Some k)
        have IH: "look (drop_node p k) q' = (if prefix p q' then None else look k q')" for q'
          using outer(1) False by simp
        show ?thesis
        proof (cases q)
          case q: (Cons z q')
          show ?thesis using IH [of q'] Some by (cases "z = x") (auto simp: Dir p q look_def update_conv')
        qed (simp add: look_def Some Dir p)
      qed
    qed
  qed (cases q; cases p; simp add: look_def)+
qed simp

section \<open>What a walk depends on, and what it finds\<close>

declare resolve.simps(2) [simp del] mkdir_walk.simps(2) [simp del]

lemma resolve_Cons:
  "resolve k follow t at (x # rest) =
     (if x = ''.'' then resolve k follow t at rest
      else if x = ''..'' then (if at = [] then Inl Path_Escapes else resolve k follow t (butlast at) rest)
      else
        (case look t (at @ [x]) of
           None \<Rightarrow> if rest = [] then Inr (at @ [x]) else Inl Not_Exist
         | Some (Link target) \<Rightarrow>
             if rest = [] \<and> \<not> follow then Inr (at @ [x])
             else if k = 0 then Inl Too_Many_Links
             else (case root_parts target of
                     Inl e \<Rightarrow> Inl e
                   | Inr ps \<Rightarrow> resolve (k - 1) follow t at (ps @ rest))
         | Some (Dir _) \<Rightarrow> resolve k follow t (at @ [x]) rest
         | Some _ \<Rightarrow> if rest = [] then Inr (at @ [x]) else Inl Not_Dir))"
  unfolding resolve.simps(2) look_def by (cases "node_at t (at @ [x])") (simp_all split: node.split)

lemma mkdir_walk_Cons:
  "mkdir_walk k t at (x # rest) =
     (if x = ''.'' then mkdir_walk k t at rest
      else if x = ''..'' then (if at = [] then (t, Some Path_Escapes) else mkdir_walk k t (butlast at) rest)
      else
        (case look t (at @ [x]) of
           None \<Rightarrow> mkdir_walk k (put_node (at @ [x]) (Dir []) t) (at @ [x]) rest
         | Some (Link target) \<Rightarrow>
             if k = 0 then (t, Some Too_Many_Links)
             else (case root_parts target of
                     Inl e \<Rightarrow> (t, Some e)
                   | Inr ps \<Rightarrow> mkdir_walk (k - 1) t at (ps @ rest))
         | Some (Dir _) \<Rightarrow> mkdir_walk k t (at @ [x]) rest
         | Some _ \<Rightarrow> (t, Some Not_Dir)))"
  unfolding mkdir_walk.simps(2) look_def by (cases "node_at t (at @ [x])") (simp_all split: node.split)

text \<open>A walk that succeeds ends at the root or in a directory.\<close>

lemma resolve_parent:
  "resolve k follow t at rest = Inr q \<Longrightarrow> look t at = Some (Dir []) \<Longrightarrow> q \<noteq> [] \<Longrightarrow> look t (butlast q) = Some (Dir [])"
proof (induction k follow t at rest rule: resolve.induct)
  case (1 k follow t at)
  then show ?case by (simp add: look_butlast)
next
  case (2 k follow t at x rest)
  show ?case
  proof (cases "x = ''.'' \<or> x = ''..''")
    case True
    with 2 show ?thesis by (auto simp: resolve_Cons look_butlast split: if_splits)
  next
    case False
    show ?thesis
    proof (cases rule: look_cases [of t "at @ [x]"])
      case dir
      then obtain es where "node_at t (at @ [x]) = Some (Dir es)" by (auto simp: look_eq)
      with False dir 2 show ?thesis by (auto simp: resolve_Cons)
    next
      case (link l)
      then have "node_at t (at @ [x]) = Some (Link l)" by (simp add: look_eq)
      with False link 2 show ?thesis by (auto simp: resolve_Cons split: if_splits sum.splits)
    qed (use False 2 in \<open>auto simp: resolve_Cons split: if_splits\<close>)
  qed
qed

text \<open>Writing a file does not change where its path leads.\<close>

lemma resolve_stable:
  assumes "resolve k follow t at rest = Inr q" and "look t q = None \<or> (\<exists>d. look t q = Some (Reg d))"
    and "look t' = (look t)(q \<mapsto> Reg d')"
  shows "resolve k follow t' at rest = Inr q"
  using assms
proof (induction k follow t at rest rule: resolve.induct)
  case (2 k follow t at x rest)
  show ?case
  proof (cases "x = ''.'' \<or> x = ''..''")
    case True
    with 2 show ?thesis by (auto simp: resolve_Cons split: if_splits)
  next
    case False
    show ?thesis
    proof (cases rule: look_cases [of t "at @ [x]"])
      case dir
      then obtain es where "node_at t (at @ [x]) = Some (Dir es)" by (auto simp: look_eq)
      with False dir 2 show ?thesis by (auto simp: resolve_Cons)
    next
      case (link l)
      then have "node_at t (at @ [x]) = Some (Link l)" by (simp add: look_eq)
      with False link 2 show ?thesis by (auto simp: resolve_Cons split: if_splits sum.splits)
    qed (use False 2 in \<open>auto simp: resolve_Cons split: if_splits\<close>)
  qed
qed simp

text \<open>\<open>MkdirAll\<close> only adds empty directories.\<close>

definition only_dirs_added :: "node \<Rightarrow> node \<Rightarrow> bool" where
  "only_dirs_added t t' \<longleftrightarrow> (\<forall>q. look t' q = look t q \<or> look t q = None \<and> look t' q = Some (Dir []))"

lemma only_dirs_added_refl [simp]: "only_dirs_added t t"
  by (simp add: only_dirs_added_def)

lemma only_dirs_added_trans: "only_dirs_added t t' \<Longrightarrow> only_dirs_added t' t'' \<Longrightarrow> only_dirs_added t t''"
  unfolding only_dirs_added_def by metis

lemma mkdir_walk_adds: "look t at = Some (Dir []) \<Longrightarrow> only_dirs_added t (fst (mkdir_walk k t at rest))"
proof (induction k t at rest rule: mkdir_walk.induct)
  case (2 k t at x rest)
  show ?case
  proof (cases "x = ''.'' \<or> x = ''..''")
    case True
    with 2 show ?thesis by (auto simp: mkdir_walk_Cons look_butlast)
  next
    case False
    show ?thesis
    proof (cases rule: look_cases [of t "at @ [x]"])
      case none
      then have p: "look (put_node (at @ [x]) (Dir []) t) = (look t)(at @ [x] \<mapsto> Dir [])"
        using 2 by (intro look_put_leaf) simp_all
      with none have "only_dirs_added t (put_node (at @ [x]) (Dir []) t)" by (auto simp: only_dirs_added_def)
      moreover have "node_at t (at @ [x]) = None" using none by (simp add: look_eq)
      ultimately show ?thesis using False none p 2
        by (auto simp: mkdir_walk_Cons intro: only_dirs_added_trans)
    next
      case dir
      then obtain es where "node_at t (at @ [x]) = Some (Dir es)" by (auto simp: look_eq)
      with False dir 2 show ?thesis by (auto simp: mkdir_walk_Cons)
    next
      case (link l)
      then have "node_at t (at @ [x]) = Some (Link l)" by (simp add: look_eq)
      with False link 2 show ?thesis by (auto simp: mkdir_walk_Cons split: sum.split)
    qed (use False in \<open>auto simp: mkdir_walk_Cons\<close>)
  qed
qed simp

lemma mkdir_all_adds: "look t [] = Some (Dir []) \<Longrightarrow> only_dirs_added t (fst (root_mkdir_all env t p))"
  using mkdir_walk_adds [of t "[]"]
  by (auto simp: root_mkdir_all_def split: sum.split option.split prod.splits) (metis fst_conv)+

text \<open>What a successful write leaves, and what reading it gives.\<close>

lemma write_look:
  assumes "root_write_file env t p data = (t', None)" and "look t [] = Some (Dir [])"
    and "root_resolve env True t p = Inr q" and "look t q \<noteq> Some Special"
  shows "look t' = (look t)(q \<mapsto> Reg data) \<and> q \<noteq> [] \<and> root_resolve env True t' p = Inr q"
proof -
  have q: "q \<noteq> []" using assms by (auto simp: root_write_file_def look_eq)
  have old: "look t q = None \<or> (\<exists>d. look t q = Some (Reg d))"
    using assms(1,3,4)
    by (cases rule: look_cases [of t q]) (auto simp: root_write_file_def look_eq)
  then have t': "t' = put_node q (Reg data) t"
    using assms(1,3) by (auto simp: root_write_file_def look_eq split: option.splits prod.splits)
  obtain ps where ps: "root_parts p = Inr ps" "resolve (re_links env) True t [] ps = Inr q"
    using assms(3) by (auto simp: root_resolve_def split: sum.splits)
  have "look t' = (look t)(q \<mapsto> Reg data)"
    unfolding t' by (cases "look t q") (use old q resolve_parent [OF ps(2) assms(2)] in \<open>auto intro!: look_put_leaf\<close>)
  with resolve_stable [OF ps(2) old this] q ps(1) show ?thesis by (simp add: root_resolve_def)
qed

section \<open>Paths of plain names\<close>

lemma plain_name_dots: "plain_name x \<Longrightarrow> x \<noteq> ''.''" "plain_name x \<Longrightarrow> x \<noteq> ''..''"
  by (simp_all add: plain_name_def)

lemma resolve_plain:
  assumes "list_all plain_name ps" and "ps \<noteq> []" and "look t (at @ butlast ps) = Some (Dir [])"
    and "\<nexists>l. look t (at @ ps) = Some (Link l)"
  shows "resolve k follow t at ps = Inr (at @ ps)"
  using assms
proof (induction ps arbitrary: at)
  case (Cons x ps)
  show ?case
  proof (cases "ps = []")
    case True
    with Cons.prems show ?thesis by (cases rule: look_cases [of t "at @ [x]"]) (auto simp: resolve_Cons plain_name_dots)
  next
    case False
    then have "look t (at @ [x]) = Some (Dir [])"
      using Cons.prems(3) look_prefix_dir [of t "at @ [x]" "butlast ps"] by simp
    with False Cons show ?thesis by (simp add: resolve_Cons plain_name_dots)
  qed
qed simp

lemma mkdir_walk_plain:
  assumes "list_all plain_name ps" and "look t (at @ ps) = Some (Dir [])"
  shows "mkdir_walk k t at (ps @ rest) = mkdir_walk k t (at @ ps) rest"
  using assms
proof (induction ps arbitrary: at)
  case (Cons x ps)
  then have "look t (at @ [x]) = Some (Dir [])" using look_prefix_dir [of t "at @ [x]" ps] by simp
  with Cons show ?case by (simp add: mkdir_walk_Cons plain_name_dots)
qed simp

lemma plain_filter: "list_all plain_name xs \<Longrightarrow> filter (\<lambda>x. x \<noteq> []) xs = xs"
  by (induction xs) (simp_all add: plain_name_def)

lemma root_parts_plain: "xs \<noteq> [] \<Longrightarrow> list_all plain_name xs \<Longrightarrow> root_parts (path_join xs) = Inr xs"
proof -
  assume xs: "xs \<noteq> []" "list_all plain_name xs"
  then have "path_join xs \<noteq> []" using plain_first [OF xs] by auto
  moreover have "filter (\<lambda>x. x \<noteq> []) xs = xs" by (rule plain_filter [OF xs(2)])
  moreover have "last xs \<noteq> []"
  proof -
    have "last xs \<in> set xs" using xs(1) by simp
    with xs(2) show ?thesis by (simp add: list_all_iff plain_name_def)
  qed
  ultimately show ?thesis using xs by (simp add: root_parts_def path_join_not_abs plain_names_parts)
qed

lemma root_parts_dir: "xs \<noteq> [] \<Longrightarrow> list_all plain_name xs \<Longrightarrow> root_parts (path_join xs @ ''/'') = Inr (xs @ [''.''])"
proof -
  assume xs: "xs \<noteq> []" "list_all plain_name xs"
  have "path_parts (path_join xs @ ''/'') = xs @ [[]]" by (rule path_parts_slash [OF xs])
  moreover have "filter (\<lambda>x. x \<noteq> []) xs = xs" by (rule plain_filter [OF xs(2)])
  moreover obtain c s where "path_join xs = c # s" "c \<noteq> CHR ''/''" using plain_first [OF xs] by blast
  ultimately show ?thesis by (simp add: root_parts_def is_abs_def)
qed

lemma root_parts_dot [simp]: "root_parts ''.'' = Inr [''.'']"
  by code_simp

lemma mkdir_walk_dot [simp]: "mkdir_walk k t at [''.''] = (t, None)"
  by (simp add: mkdir_walk_Cons)

lemma mkdir_parent:
  assumes "re_mkdir_fault env = None" and "list_all plain_name (p @ [x])" and "look t p = Some (Dir [])"
  shows "root_mkdir_all env t (path_dir (path_join (p @ [x]))) = (t, None)"
proof (cases "p = []")
  case True
  have "path_dir x = ''.''" using path_dir_plain [OF assms(2)] True by simp
  with True assms show ?thesis by (simp add: root_mkdir_all_def)
next
  case False
  have "root_parts (path_join p) = Inr p" using assms(2) False by (intro root_parts_plain) simp_all
  with False assms path_dir_plain [OF assms(2)] mkdir_walk_plain [of p t "[]" _ "[]"] show ?thesis
    by (simp add: root_mkdir_all_def)
qed

lemma write_plain:
  assumes "re_write_fault env = None" and "list_all plain_name (p @ [x])" and "look t p = Some (Dir [])"
    and "look t (p @ [x]) = None \<or> look t (p @ [x]) = Some (Reg d')"
  obtains t' where "root_write_file env t (path_join (p @ [x])) d = (t', None)" "look t' = (look t)(p @ [x] \<mapsto> Reg d)"
proof -
  have "root_parts (path_join (p @ [x])) = Inr (p @ [x])" using assms(2) by (intro root_parts_plain) simp_all
  moreover have "resolve k True t [] (p @ [x]) = Inr (p @ [x])" for k
    using resolve_plain [of "p @ [x]" t "[]" k True] assms(2,3,4) by auto
  ultimately have r: "root_resolve env True t (path_join (p @ [x])) = Inr (p @ [x])" by (simp add: root_resolve_def)
  have "look (put_node (p @ [x]) (Reg d) t) = (look t)(p @ [x] \<mapsto> Reg d)"
    using assms(3,4) by (intro look_put_leaf) simp_all
  moreover have "root_write_file env t (path_join (p @ [x])) d = (put_node (p @ [x]) (Reg d) t, None)"
    using assms(1,4) r by (auto simp: root_write_file_def look_eq)
  ultimately show thesis using that by blast
qed

end
