(* ===== verification/Json_Roundtrip.thy ===== *)
theory Json_Roundtrip imports Go_Decode begin

text \<open>
  What \<open>Marshal\<close> writes, the parser reads back: the value of a JSON text printed from plain values,
  whatever follows it. Both sides of the execsock (\<open>api-server/main.go\<close> and the executor's handlers)
  and the clients of the tool calls rely on it.
\<close>

section \<open>The value a text stands for\<close>

definition json_text :: "json \<Rightarrow> string" where
  [go_eval]: "json_text j = (case json_marshal j of Inl _ \<Rightarrow> [] | Inr w \<Rightarrow> w)"

primrec value_of :: "json \<Rightarrow> jval" where
  "value_of JNull = VNull"
| "value_of (JBool b) = VBool b"
| "value_of (JInt i) = VNum (itoa i)"
| "value_of (JStr s) = VStr s"
| "value_of (JArr xs) = VArr (map value_of xs)"
| "value_of (JObj kvs) =
     VObj (map2 (\<lambda>kv v. (fst kv, v, json_text (snd kv))) kvs (map snd (map (map_prod id value_of) kvs)))"
| "value_of (JRaw s) = VNull"
| "value_of (JUnsupported e) = VNull"

lemma value_of_obj [simp]: "value_of (JObj kvs) = VObj (map (\<lambda>kv. (fst kv, value_of (snd kv), json_text (snd kv))) kvs)"
  by (simp, induction kvs) simp_all

declare value_of.simps(6) [simp del]

definition number_stops :: "string \<Rightarrow> bool" where
  "number_stops r \<longleftrightarrow> (case r of [] \<Rightarrow> True | c # _ \<Rightarrow> \<not> is_digit c \<and> c \<noteq> CHR ''.'' \<and> c \<noteq> CHR ''e'' \<and> c \<noteq> CHR ''E'')"

lemma number_stops_simps [simp]:
  "number_stops []" "number_stops (CHR '','' # r)" "number_stops (CHR '']'' # r)" "number_stops (CHR ''}'' # r)"
  "number_stops (CHR 0x0A # r)"
  by (simp_all add: number_stops_def is_digit_def)

section \<open>Numbers\<close>

lemma nat_digits_first: "0 < n \<Longrightarrow> \<exists>d ds. nat_digits n = digit_char d # ds \<and> 0 < d \<and> d < 10"
proof (induction n rule: nat_digits.induct)
  case (1 n)
  show ?case
  proof (cases "n < 10")
    case True
    with 1(2) show ?thesis by (intro exI [of _ n]) (simp add: nat_digits.simps [of n])
  next
    case False
    then have "0 < n div 10" by simp
    with 1(1) [OF False] obtain d ds where "nat_digits (n div 10) = digit_char d # ds" "0 < d" "d < 10" by auto
    with False show ?thesis by (auto simp: nat_digits.simps [of n])
  qed
qed

lemma digit_char_nonzero: "0 < d \<Longrightarrow> d < 10 \<Longrightarrow> digit_char d \<noteq> CHR ''0'' \<and> digit_char d \<noteq> CHR ''-''"
proof -
  assume d: "0 < d" "d < 10"
  have "of_char (digit_char d) = 48 + d" using d by (simp add: digit_char_def of_char_of)
  with d show ?thesis by auto
qed

lemma digits_end: "number_stops r \<Longrightarrow> list_all is_digit ds \<Longrightarrow> dropWhile is_digit (ds @ r) = r"
  by (induction ds) (auto simp: number_stops_def split: list.splits)

lemma int_part_digits: "number_stops r \<Longrightarrow> int_part (nat_digits n @ r) = Some r"
proof (cases "n = 0")
  case True
  assume "number_stops r"
  moreover have "digit_char 0 = CHR ''0''" by code_simp
  ultimately show ?thesis using True by (simp add: nat_digits.simps [of 0] int_part_def)
next
  case False
  assume r: "number_stops r"
  from False obtain d ds where d: "nat_digits n = digit_char d # ds" "0 < d" "d < 10" using nat_digits_first by blast
  then have "list_all is_digit ds" using nat_digits_digits [of n] by (auto simp: list_all_iff)
  with d r digit_char_nonzero [of d] show ?thesis by (simp add: int_part_def digits_end)
qed

lemma int_part_itoa: "number_stops r \<Longrightarrow> int_part (itoa i @ r) = Some r"
proof (cases "i < 0")
  case True
  assume r: "number_stops r"
  obtain d ds where d: "nat_digits (nat (- i)) = digit_char d # ds" "0 < d" "d < 10"
    using nat_digits_first [of "nat (- i)"] True by auto
  then show ?thesis using int_part_digits [OF r, of "nat (- i)"] True digit_char_nonzero [of d]
    by (simp add: itoa_def int_part_def)
qed (simp add: itoa_def int_part_digits)

lemma parse_number_itoa: "number_stops r \<Longrightarrow> parse_number (itoa i @ r) = Some (itoa i, r)"
proof -
  assume r: "number_stops r"
  then have "frac_part r = Some r" "exp_part r = Some r"
    by (auto simp: frac_part_def exp_part_def number_stops_def split: list.splits)
  with int_part_itoa [OF r] show ?thesis by (simp add: parse_number_def)
qed

lemma itoa_first: "\<exists>c s. itoa i = c # s \<and> (c = CHR ''-'' \<or> is_digit c)"
proof (cases "i < 0")
  case False
  obtain c s where "nat_digits (nat i) = c # s" by (cases "nat_digits (nat i)") auto
  with nat_digits_digits [of "nat i"] False show ?thesis by (auto simp: itoa_def)
qed (simp add: itoa_def)

section \<open>The parser on printed text\<close>

lemma skip_ws_stop: "s \<noteq> [] \<Longrightarrow> \<not> json_space (hd s) \<Longrightarrow> skip_ws s = s"
  by (cases s) (simp_all add: skip_ws_def)

lemma skip_ws_chars [simp]:
  "skip_ws [] = []"
  "skip_ws (CHR 0x22 # s) = CHR 0x22 # s" "skip_ws (CHR ''['' # s) = CHR ''['' # s" "skip_ws (CHR ''{'' # s) = CHR ''{'' # s"
  "skip_ws (CHR '']'' # s) = CHR '']'' # s" "skip_ws (CHR ''}'' # s) = CHR ''}'' # s"
  "skip_ws (CHR '','' # s) = CHR '','' # s" "skip_ws (CHR '':'' # s) = CHR '':'' # s"
  "skip_ws (CHR ''n'' # s) = CHR ''n'' # s" "skip_ws (CHR ''t'' # s) = CHR ''t'' # s"
  "skip_ws (CHR ''f'' # s) = CHR ''f'' # s"
  by (simp_all add: skip_ws_def json_space_def)

lemma quote_skip [simp]: "skip_ws (json_quote s @ r) = json_quote s @ r"
  by (simp add: json_quote_def)

lemma read_chars_quote: "json_quote s @ r = CHR 0x22 # t \<Longrightarrow> read_chars t = Some (s, r)"
  using read_string_quote [of s r] by (simp add: read_string_def del: read_string_quote)

lemma settles_str: "settles 0 parse_value (json_quote s @ r) (VStr s) r"
proof -
  obtain t where t: "json_quote s @ r = CHR 0x22 # t" by (simp add: json_quote_def)
  show ?thesis
    by (rule settlesI) (use t in \<open>simp_all add: read_chars_quote [OF t]\<close>, use read_chars_length [OF read_chars_quote [OF t]] in simp)
qed

lemma settles_num:
  assumes "number_stops r"
  shows "settles 0 parse_value (itoa i @ r) (VNum (itoa i)) r"
proof -
  obtain c s where c: "itoa i = c # s" "c = CHR ''-'' \<or> is_digit c" using itoa_first by blast
  then have n: "\<not> json_space c" "c \<notin> {CHR 0x22, CHR ''['', CHR ''{'', CHR ''n'', CHR ''t'', CHR ''f''}"
    by (auto simp: is_digit_def json_space_def)
  have sk: "skip_ws (c # s @ r) = c # s @ r" using n(1) by (intro skip_ws_stop) simp_all
  from parse_number_itoa [OF assms, of i] have p: "parse_number (c # s @ r) = Some (c # s, r)" by (simp add: c(1))
  show ?thesis unfolding c(1) by (rule settlesI) (use sk n p in simp_all)
qed

definition prints :: "json \<Rightarrow> bool" where
  "prints j \<longleftrightarrow> json_text j \<noteq> [] \<and> \<not> json_space (hd (json_text j)) \<and> hd (json_text j) \<noteq> CHR '']'' \<and> (\<forall>r. number_stops r \<longrightarrow> settles 0 parse_value (json_text j @ r) (value_of j) r)"

lemma printsD: "prints j \<Longrightarrow> number_stops r \<Longrightarrow> settles 0 parse_value (json_text j @ r) (value_of j) r"
  by (simp add: prints_def)

lemma prints_skip: "prints j \<Longrightarrow> skip_ws (json_text j @ r) = json_text j @ r"
  by (intro skip_ws_stop) (auto simp: prints_def)

lemma elems_settle:
  assumes "xs \<noteq> []" and "\<forall>x \<in> set xs. prints x"
  shows "settles 1 parse_elems (join '','' (map json_text xs) @ CHR '']'' # r) (map value_of xs) r"
  using assms
proof (induction xs rule: list_nonempty_induct)
  case (single x)
  note V = settlesD [OF printsD [of x "CHR '']'' # r"]]
  show ?case by (rule settlesI) (use single V in simp_all)
next
  case (cons x xs)
  define t where "t = join '','' (map json_text xs) @ CHR '']'' # r"
  have j: "join '','' (map json_text (x # xs)) @ CHR '']'' # r = json_text x @ CHR '','' # t"
    using cons.hyps by (cases xs) (simp_all add: t_def)
  note V = settlesD [OF printsD [of x "CHR '','' # t"]]
  note E = settlesD [OF cons.IH, folded t_def]
  show ?case unfolding j
  proof (rule settlesI)
    show "length r < length (json_text x @ CHR '','' # t)" using E(1) cons.prems by simp
    show "parse_elems (Suc n) (json_text x @ CHR '','' # t) = Some (map value_of (x # xs), r)"
      if "2 * (length (json_text x @ CHR '','' # t) - length r) + 1 \<le> Suc n" for n
    proof -
      have "length r < length t" using E(1) cons.prems by simp
      with that have "2 * length (json_text x) \<le> n" "2 * (length t - length r) + 1 \<le> n" by simp_all
      with V(2) [of n] E(2) [of n] cons.prems show ?thesis by simp
    qed
  qed
qed

definition member_text :: "string \<times> json \<Rightarrow> string" where
  "member_text kv = json_quote (fst kv) @ '':'' @ json_text (snd kv)"

lemma members_settle:
  assumes "kvs \<noteq> []" and "\<forall>kv \<in> set kvs. prints (snd kv)"
  shows "settles 1 parse_members (join '','' (map member_text kvs) @ CHR ''}'' # r)
    (map (\<lambda>kv. (fst kv, value_of (snd kv), json_text (snd kv))) kvs) r"
  using assms
proof (induction kvs rule: list_nonempty_induct)
  case (single kv)
  have p: "prints (snd kv)" using single by simp
  note V = settlesD [OF printsD [OF p, of "CHR ''}'' # r"], simplified]
  show ?case
    by (rule settlesI) (use single V prints_skip [OF p] in \<open>simp_all add: member_text_def\<close>)
next
  case (cons kv kvs)
  have p: "prints (snd kv)" using cons.prems by simp
  define t where "t = join '','' (map member_text kvs) @ CHR ''}'' # r"
  have j: "join '','' (map member_text (kv # kvs)) @ CHR ''}'' # r =
      json_quote (fst kv) @ CHR '':'' # json_text (snd kv) @ CHR '','' # t"
    using cons.hyps by (cases kvs) (simp_all add: t_def member_text_def)
  note V = settlesD [OF printsD [OF p, of "CHR '','' # t"], simplified]
  note E = settlesD [OF cons.IH, folded t_def]
  show ?case unfolding j
  proof (rule settlesI)
    show "length r < length (json_quote (fst kv) @ CHR '':'' # json_text (snd kv) @ CHR '','' # t)"
      using E(1) cons.prems by simp
    show "parse_members (Suc n) (json_quote (fst kv) @ CHR '':'' # json_text (snd kv) @ CHR '','' # t) =
        Some (map (\<lambda>kv. (fst kv, value_of (snd kv), json_text (snd kv))) (kv # kvs), r)"
      if "2 * (length (json_quote (fst kv) @ CHR '':'' # json_text (snd kv) @ CHR '','' # t) - length r) + 1 \<le> Suc n" for n
    proof -
      have "length r < length t" using E(1) cons.prems by simp
      with that have "2 * length (json_text (snd kv)) \<le> n" "2 * (length t - length r) + 1 \<le> n" by simp_all
      with V(2) [of n] E(2) [of n] cons.prems prints_skip [OF p] show ?thesis by simp
    qed
  qed
qed

lemma all_ok_map: "(\<And>x. x \<in> set xs \<Longrightarrow> f x = Inr (g x)) \<Longrightarrow> all_ok (map f xs) = Inr (map g xs)"
  by (induction xs) auto

lemma json_text_marshal: "json_ok j \<Longrightarrow> json_marshal j = Inr (json_text j)"
  by (auto simp: json_text_def json_marshal_ok)

lemma json_text_arr: "list_all json_ok xs \<Longrightarrow> json_text (JArr xs) = ''['' @ join '','' (map json_text xs) @ '']''"
proof -
  assume "list_all json_ok xs"
  then have "all_ok (map json_marshal xs) = Inr (map json_text xs)"
    by (intro all_ok_map) (simp add: list_all_iff json_text_marshal)
  then show ?thesis by (simp add: json_text_def)
qed

lemma json_text_obj:
  "list_all (\<lambda>kv. json_ok (snd kv)) kvs \<Longrightarrow> json_text (JObj kvs) = ''{'' @ join '','' (map member_text kvs) @ ''}''"
proof -
  assume ok: "list_all (\<lambda>kv. json_ok (snd kv)) kvs"
  have "all_ok (map (\<lambda>kv. json_member (map_prod id json_marshal kv)) kvs) = Inr (map member_text kvs)"
    by (intro all_ok_map) (use ok in \<open>simp add: list_all_iff json_text_marshal json_member_def member_text_def\<close>)
  then show ?thesis by (simp add: json_text_def o_def)
qed

lemma word_prints:
  "prints JNull" "prints (JBool b)"
  by (auto simp: prints_def json_text_def parse_word_def json_space_def intro!: settlesI)

lemma json_plain_prints: "json_plain j \<Longrightarrow> json_ok j \<Longrightarrow> prints j"
proof (induction j)
  case (JInt i)
  obtain c s where "itoa i = c # s" "c = CHR ''-'' \<or> is_digit c" using itoa_first by blast
  moreover from this have "\<not> json_space c" "c \<noteq> CHR '']''" by (auto simp: is_digit_def json_space_def)
  ultimately show ?case using settles_num [of _ i] by (simp add: prints_def json_text_def)
next
  case (JStr s)
  have "\<not> json_space CHR 0x22" by code_simp
  then show ?case using settles_str [of s] by (simp add: prints_def json_text_def) (simp add: json_quote_def)
next
  case (JArr xs)
  then have p: "\<forall>x \<in> set xs. prints x" and ok: "list_all json_ok xs" by (auto simp: list_all_iff)
  have "settles 0 parse_value (''['' @ join '','' (map json_text xs) @ '']'' @ r) (VArr (map value_of xs)) r" for r
  proof (cases "xs = []")
    case True
    show ?thesis by (rule settlesI) (use True in simp_all)
  next
    case False
    note E = settlesD [OF elems_settle [OF False p, of r]]
    obtain x ys where x: "xs = x # ys" using False by (cases xs) auto
    then obtain t where t: "join '','' (map json_text xs) @ CHR '']'' # r = json_text x @ t" by (cases ys) simp_all
    have "prints x" using p x by simp
    then have "\<not> prefix '']'' (skip_ws (join '','' (map json_text xs) @ CHR '']'' # r))"
      unfolding t by (simp add: prints_skip) (auto simp: prints_def prefix_def neq_Nil_conv)
    with E show ?thesis by (intro settlesI) (simp_all)
  qed
  moreover have "\<not> json_space CHR ''[''" by code_simp
  ultimately show ?case using ok by (simp add: prints_def json_text_arr)
next
  case (JObj kvs)
  then have p: "\<forall>kv \<in> set kvs. prints (snd kv)" and ok: "list_all (\<lambda>kv. json_ok (snd kv)) kvs"
    by (fastforce simp: list_all_iff snds.simps)+
  have "settles 0 parse_value (''{'' @ join '','' (map member_text kvs) @ ''}'' @ r) (value_of (JObj kvs)) r" for r
  proof (cases "kvs = []")
    case True
    show ?thesis by (rule settlesI) (use True in simp_all)
  next
    case False
    note E = settlesD [OF members_settle [OF False p, of r]]
    obtain t where "join '','' (map member_text kvs) @ CHR ''}'' # r = CHR 0x22 # t"
      using False by (cases kvs rule: list.exhaust; cases "tl kvs") (auto simp: member_text_def json_quote_def)
    with E show ?thesis by (intro settlesI) (simp_all)
  qed
  moreover have "\<not> json_space CHR ''{''" by code_simp
  ultimately show ?case using ok by (simp add: prints_def json_text_obj)
qed (simp_all add: word_prints)

text \<open>Both entry points of the parser give the value back, a line feed after it included (\<open>Encode\<close>).\<close>

lemma decode_text:
  assumes "json_plain j" and "json_ok j"
  shows "json_unmarshal (json_text j) = Some (value_of j)" "json_decode (json_text j) = Some (value_of j)"
    "number_stops r \<Longrightarrow> json_decode (json_text j @ r) = Some (value_of j)"
proof -
  have p: "json_first (json_text j @ r) = Some (value_of j, r)" if "number_stops r" for r
    using settlesD(2) [OF printsD [OF json_plain_prints [OF assms] that]] parse_fuel by blast
  show "json_unmarshal (json_text j) = Some (value_of j)" "json_decode (json_text j) = Some (value_of j)"
    using p [of "[]"] by (simp_all add: json_unmarshal_def json_decode_def)
  show "number_stops r \<Longrightarrow> json_decode (json_text j @ r) = Some (value_of j)"
    using p by (simp add: json_decode_def)
qed

lemma unmarshal_line:
  assumes "json_plain j" and "json_ok j"
  shows "json_unmarshal (json_text j @ [CHR 0x0A]) = Some (value_of j)"
proof -
  have "number_stops [CHR 0x0A]" by simp
  from settlesD(2) [OF printsD [OF json_plain_prints [OF assms] this]] parse_fuel
  have "json_first (json_text j @ [CHR 0x0A]) = Some (value_of j, [CHR 0x0A])" by blast
  then show ?thesis by (simp add: json_unmarshal_def skip_ws_def json_space_def)
qed

end
