(* ===== verification/Executor_Files.thy ===== *)
theory Executor_Files imports Go_Root Go_Base64 Json_Roundtrip Gate begin

text \<open>
  The executor's \<open>/read\<close> and \<open>/write\<close>, \<open>executor/main.go\<close>, on the workspace tree. A request is its body;
  the faults of the file system, the texts of its errors, and whether the size limit cut a body that
  was no JSON yet are in the environment.
\<close>

section \<open>Responses\<close>

definition respond_json :: "int \<Rightarrow> json \<Rightarrow> http_response" where
  [go_eval]: "respond_json status v =
     \<lparr>hr_status = status, hr_headers = [(''Content-Type'', ''application/json'')], hr_body = json_text v @ [CHR 0x0A]\<rparr>"

definition respond_error :: "int \<Rightarrow> string \<Rightarrow> http_response" where
  [go_eval]: "respond_error status msg = respond_json status (JObj [(''error'', JStr msg)])"

definition max_request_bytes :: nat where
  [go_eval]: "max_request_bytes = 734003200"

record file_env =
  fv_root :: root_env
  fv_text :: "io_err \<Rightarrow> string"
  fv_limit_hit :: bool

text \<open>What the handlers answer when decoding a limited body fails.\<close>

definition decode_refusal :: "file_env \<Rightarrow> string \<Rightarrow> http_response" where
  [go_eval]: "decode_refusal env body =
     (if length body > max_request_bytes \<and> fv_limit_hit env
      then respond_error 413 (''payload exceeds '' @ itoa (int max_request_bytes) @ '' bytes'')
      else respond_error 400 ''invalid json'')"

section \<open>Paths\<close>

definition workspace_parts :: "string list" where
  [go_eval]: "workspace_parts = [''workspace'']"

definition resolve_p :: "string \<Rightarrow> string + string" where
  [go_eval]: "resolve_p p =
     (if p = [] then Inl ''path is required''
      else if is_abs p then Inr (path_rel workspace_parts p)
      else Inr p)"

section \<open>Reading\<close>

definition read_path :: "(string \<times> jval \<times> string) list \<Rightarrow> string option" where
  [go_eval]: "read_path ms = (if string_field_ok ''path'' ms then Some (string_field ''path'' ms) else None)"

definition decode_read :: "string \<Rightarrow> string option" where
  [go_eval]: "decode_read body = Option.bind (Option.bind (json_decode body) struct_members) read_path"

definition read_response :: "string \<Rightarrow> string \<Rightarrow> json" where
  [go_eval]: "read_response path contents = JObj [(''path'', JStr path), (''contents'', JStr contents)]"

definition handle_read :: "file_env \<Rightarrow> string \<Rightarrow> node \<Rightarrow> http_response" where
  [go_eval]: "handle_read env body t =
     (case decode_read body of
        None \<Rightarrow> respond_error 400 ''invalid json''
      | Some path \<Rightarrow>
          (case resolve_p path of
             Inl e \<Rightarrow> respond_error 400 e
           | Inr rel \<Rightarrow>
               (case root_stat (fv_root env) t rel of
                  Inl e \<Rightarrow>
                    if e = Not_Exist then respond_error 404 (''file not found: '' @ path)
                    else respond_error 500 (fv_text env e)
                | Inr (Dir _) \<Rightarrow> respond_error 400 (''path is a directory: '' @ path)
                | Inr _ \<Rightarrow>
                    (case root_read_file (fv_root env) t rel of
                       Inl e \<Rightarrow> respond_error 500 (fv_text env e)
                     | Inr data \<Rightarrow> respond_json 200 (read_response path (b64_encode data))))))"

section \<open>Writing\<close>

definition write_fields :: "(string \<times> jval \<times> string) list \<Rightarrow> (string \<times> string) option" where
  [go_eval]: "write_fields ms =
     (if string_field_ok ''path'' ms \<and> string_field_ok ''contents'' ms
      then Some (string_field ''path'' ms, string_field ''contents'' ms) else None)"

definition decode_write :: "string \<Rightarrow> (string \<times> string) option" where
  [go_eval]: "decode_write body =
     Option.bind (Option.bind (json_decode (take max_request_bytes body)) struct_members) write_fields"

definition write_response :: "string \<Rightarrow> int \<Rightarrow> json" where
  [go_eval]: "write_response path n = JObj [(''path'', JStr path), (''size'', JInt n)]"

definition handle_write :: "file_env \<Rightarrow> string \<Rightarrow> node \<Rightarrow> node \<times> http_response" where
  [go_eval]: "handle_write env body t =
     (case decode_write body of
        None \<Rightarrow> (t, decode_refusal env body)
      | Some (path, contents) \<Rightarrow>
          (case resolve_p path of
             Inl e \<Rightarrow> (t, respond_error 400 e)
           | Inr rel \<Rightarrow>
               (case b64_decode contents of
                  None \<Rightarrow> (t, respond_error 400 ''invalid base64 contents'')
                | Some data \<Rightarrow>
                    (case root_mkdir_all (fv_root env) t (path_dir rel) of
                       (t1, Some e) \<Rightarrow> (t1, respond_error 500 (fv_text env e))
                     | (t1, None) \<Rightarrow>
                         (case root_write_file (fv_root env) t1 rel data of
                            (t2, Some e) \<Rightarrow> (t2, respond_error 500 (fv_text env e))
                          | (t2, None) \<Rightarrow> (t2, respond_json 200 (write_response path (int (length data)))))))))"

definition exec_health :: http_response where
  [go_eval]: "exec_health = \<lparr>hr_status = 200, hr_headers = [(''Content-Type'', ''application/json'')],
     hr_body = ''{'' @ json_quote ''status'' @ '':'' @ json_quote ''ok'' @ ''}''\<rparr>"

section \<open>Lemmas\<close>

lemma status_respond [simp]:
  "hr_status (respond_json s v) = s" "hr_status (respond_error s m) = s"
  by (simp_all add: respond_json_def respond_error_def)

lemma refusal_status: "hr_status (decode_refusal env body) \<noteq> 200"
  by (simp add: decode_refusal_def)

lemma write_ok:
  assumes "handle_write env body t = (t', resp)" and "hr_status resp = 200"
  obtains path contents rel data t1 where "decode_write body = Some (path, contents)" "resolve_p path = Inr rel"
    "b64_decode contents = Some data" "root_mkdir_all (fv_root env) t (path_dir rel) = (t1, None)"
    "root_write_file (fv_root env) t1 rel data = (t', None)"
    "resp = respond_json 200 (write_response path (int (length data)))"
proof -
  from assms obtain path contents where d: "decode_write body = Some (path, contents)"
    by (cases "decode_write body") (auto simp: handle_write_def refusal_status)
  with assms obtain rel where r: "resolve_p path = Inr rel"
    by (cases "resolve_p path") (auto simp: handle_write_def)
  with assms d obtain data where b: "b64_decode contents = Some data"
    by (cases "b64_decode contents") (auto simp: handle_write_def)
  with assms d r obtain t1 where m: "root_mkdir_all (fv_root env) t (path_dir rel) = (t1, None)"
    by (auto simp: handle_write_def split: prod.splits option.splits)
  with assms d r b have "root_write_file (fv_root env) t1 rel data = (t', None)"
      "resp = respond_json 200 (write_response path (int (length data)))"
    by (auto simp: handle_write_def split: prod.splits option.splits)
  from that [OF d r b m this] show thesis .
qed

lemma read_regular:
  assumes "decode_read body = Some path" and "resolve_p path = Inr rel"
    and "root_resolve (fv_root env) True t rel = Inr q" and "look t q = Some (Reg data)"
    and "re_stat_fault (fv_root env) = None" and "re_read_fault (fv_root env) = None"
  shows "handle_read env body t = respond_json 200 (read_response path (b64_encode data))"
  using assms by (simp add: handle_read_def root_stat_def root_read_file_def look_eq)

text \<open>An absolute path outside the workspace becomes one that starts by leaving the root.\<close>

lemma rel_outside:
  assumes "is_abs p" and "\<not> prefix workspace_parts (clean_parts True (path_parts p))"
  obtains c where "resolve_p p = Inr (path_join (''..'' # c))" "list_all plain_name c"
proof -
  define c where "c = clean_parts True (path_parts p)"
  have "list_all plain_name c"
    unfolding c_def by (intro clean_rooted_plain) (auto simp: path_parts_def dest: split_byte_parts)
  moreover have "strip_common workspace_parts c = (workspace_parts, c)"
    using assms(2) by (cases c) (auto simp: workspace_parts_def c_def [symmetric])
  then have "path_rel workspace_parts p = path_join (''..'' # c)"
    by (simp add: path_rel_def c_def [symmetric] workspace_parts_def)
  moreover have "p \<noteq> []" using assms(1) by (auto simp: is_abs_def)
  ultimately show thesis using that assms(1) by (simp add: resolve_p_def)
qed

lemma up_segments: "list_all plain_name c \<Longrightarrow> list_all segment (''..'' # c)"
  by (simp add: plain_segments segment_def)

lemma up_parts:
  assumes "list_all plain_name c"
  shows "root_parts (path_join (''..'' # c)) = Inr (''..'' # c)"
proof -
  obtain a s where "path_join (''..'' # c) = a # s" using segments_first [OF _ up_segments [OF assms]] by blast
  moreover have "last (''..'' # c) \<noteq> []" using assms by (cases c rule: rev_cases) (auto simp: plain_name_def)
  ultimately show ?thesis
    using segments_parts [OF _ up_segments [OF assms]] segments_not_abs [OF up_segments [OF assms]] plain_filter [OF assms]
    by (simp add: root_parts_def)
qed

lemma up_escapes:
  "list_all plain_name c \<Longrightarrow> root_resolve env follow t (path_join (''..'' # c)) = Inl Path_Escapes"
  by (simp add: root_resolve_def up_parts resolve_Cons)

lemma up_dir:
  assumes "list_all plain_name c"
  shows "path_dir (path_join (''..'' # c)) = (if c = [] then ''.'' else path_join (''..'' # butlast c))"
proof (cases c rule: rev_cases)
  case Nil
  then show ?thesis by (simp, code_simp)
next
  case (snoc b x)
  have "clean_parts False (''..'' # b) = ''..'' # b"
  proof -
    have "fold (clean_step False) b [''..''] = rev b @ [''..'']"
      using assms snoc by (intro fold_clean_plain) simp
    then show ?thesis by (simp add: clean_parts_def) (simp add: clean_step_def)
  qed
  with path_dir_segments [of "''..'' # b" x] up_segments [OF assms] snoc show ?thesis by simp
qed

lemma mkdir_all_same:
  assumes "root_parts p = Inr ps" and "\<And>n. fst (mkdir_walk (re_links env) t [] (take n ps)) = t"
  shows "fst (root_mkdir_all env t p) = t"
proof (cases "re_mkdir_fault env")
  case None
  with assms(1) assms(2) [of "length ps"] show ?thesis by (simp add: root_mkdir_all_def)
next
  case (Some f)
  obtain n e where "f = (n, e)" by fastforce
  moreover obtain t' r where "mkdir_walk (re_links env) t [] (take n ps) = (t', r)" by fastforce
  ultimately show ?thesis
    using Some assms(1) assms(2) [of n] by (cases r) (simp_all add: root_mkdir_all_def)
qed

lemma up_mkdir:
  assumes "list_all plain_name c"
  shows "fst (root_mkdir_all env t (path_dir (path_join (''..'' # c)))) = t"
proof (cases "c = []")
  case True
  have "fst (mkdir_walk k t [] (take n [''.''])) = t" for k n by (cases n) simp_all
  moreover have "path_dir ''..'' = ''.''" using up_dir [of "[]"] by simp
  ultimately show ?thesis using True by (simp add: mkdir_all_same [of _ "[''.'']"])
next
  case False
  define b where "b = butlast c"
  have b: "list_all plain_name b" using assms by (auto simp: b_def list_all_iff dest: in_set_butlastD)
  have p: "root_parts (path_join (''..'' # b)) = Inr (''..'' # b)" by (rule up_parts [OF b])
  have "fst (mkdir_walk k t [] (take n (''..'' # b))) = t" for k n by (cases n) (simp_all add: mkdir_walk_Cons)
  then show ?thesis using False p by (simp add: up_dir [OF assms] b_def [symmetric] mkdir_all_same)
qed

section \<open>Properties\<close>

lemma write_stored:
  assumes "handle_write env body t = (t', resp)" and "hr_status resp = 200" and "look t [] = Some (Dir [])"
  obtains path contents data rel q where "decode_write body = Some (path, contents)" "b64_decode contents = Some data"
    "resp = respond_json 200 (write_response path (int (length data)))" "resolve_p path = Inr rel"
    "root_resolve (fv_root env) True t' rel = Inr q"
    "look t' q = Some Special \<or> look t' q = Some (Reg data) \<and>
       (\<forall>r. r = q \<or> look t' r = look t r \<or> look t r = None \<and> look t' r = Some (Dir []))"
proof -
  obtain path contents rel data t1 where w: "decode_write body = Some (path, contents)" "resolve_p path = Inr rel"
    "b64_decode contents = Some data" "root_mkdir_all (fv_root env) t (path_dir rel) = (t1, None)"
    "root_write_file (fv_root env) t1 rel data = (t', None)"
    "resp = respond_json 200 (write_response path (int (length data)))"
    by (rule write_ok [OF assms(1,2)])
  have added: "only_dirs_added t t1" using mkdir_all_adds [OF assms(3)] w(4) by (metis fst_conv)
  then have root: "look t1 [] = Some (Dir [])" using assms(3) unfolding only_dirs_added_def by (metis option.distinct(1))
  obtain q where q: "root_resolve (fv_root env) True t1 rel = Inr q"
    using w(5) by (cases "root_resolve (fv_root env) True t1 rel") (auto simp: root_write_file_def)
  show thesis
  proof (cases "look t1 q = Some Special")
    case True
    then have "t' = t1" using w(5) q by (simp add: root_write_file_def look_eq)
    with that [OF w(1,3,6,2)] q True show thesis by blast
  next
    case False
    note wl = write_look [OF w(5) root q False]
    have "r = q \<or> look t' r = look t r \<or> look t r = None \<and> look t' r = Some (Dir [])" for r
      using wl added unfolding only_dirs_added_def by (metis fun_upd_other)
    with that [OF w(1,3,6,2)] wl show thesis by auto
  qed
qed

text \<open>
  C26. Writing then reading. A write answered 200 left the decoded bytes at the place the path leads to,
  through links and new directories as it may: any later read of that path, if the file system lets it,
  answers 200 with base64 that decodes to exactly those bytes. Nothing else that was in the workspace
  has changed, apart from directories that were missing. (A fifo or device is not changed by a write.)
\<close>

theorem write_read_roundtrip:
  assumes "handle_write env body t = (t', resp)" and "hr_status resp = 200" and "look t [] = Some (Dir [])"
  shows "\<exists>path contents data rel q. decode_write body = Some (path, contents) \<and> b64_decode contents = Some data \<and>
    resp = respond_json 200 (write_response path (int (length data))) \<and>
    resolve_p path = Inr rel \<and> root_resolve (fv_root env) True t' rel = Inr q \<and>
    (look t' q = Some Special \<or>
      look t' q = Some (Reg data) \<and>
      (\<forall>r. r = q \<or> look t' r = look t r \<or> look t r = None \<and> look t' r = Some (Dir [])) \<and>
      (\<forall>rbody. decode_read rbody = Some path \<and> re_stat_fault (fv_root env) = None \<and> re_read_fault (fv_root env) = None \<longrightarrow>
         handle_read env rbody t' = respond_json 200 (read_response path (b64_encode data)) \<and>
         b64_decode (b64_encode data) = Some data))"
proof -
  obtain path contents data rel q where w: "decode_write body = Some (path, contents)" "b64_decode contents = Some data"
    "resp = respond_json 200 (write_response path (int (length data)))" "resolve_p path = Inr rel"
    "root_resolve (fv_root env) True t' rel = Inr q"
    "look t' q = Some Special \<or> look t' q = Some (Reg data) \<and>
       (\<forall>r. r = q \<or> look t' r = look t r \<or> look t r = None \<and> look t' r = Some (Dir []))"
    by (rule write_stored [OF assms])
  then show ?thesis using read_regular [OF _ w(4,5)] by (cases "look t' q = Some Special") auto
qed

definition sample_files :: file_env where
  [go_eval]: "sample_files = \<lparr>fv_root = \<lparr>re_links = 8, re_stat_fault = None, re_read_fault = None, re_mkdir_fault = None,
     re_write_fault = None, re_remove_fault = None, re_special_read = Inr [], re_special_write = None\<rparr>,
     fv_text = (\<lambda>_. ''io error''), fv_limit_hit = False\<rparr>"

definition sample_write :: json where
  [go_eval]: "sample_write = JObj [(''path'', JStr ''/workspace/a/b.txt''), (''contents'', JStr (b64_encode ''hi''))]"

lemma sample_write_decoded: "decode_write (json_text sample_write) = Some (''/workspace/a/b.txt'', b64_encode ''hi'')"
proof -
  have "length (json_text sample_write) = 47" by code_simp
  then have "take max_request_bytes (json_text sample_write) = json_text sample_write" by (simp add: max_request_bytes_def)
  moreover have "Option.bind (Option.bind (json_decode (json_text sample_write)) struct_members) write_fields =
      Some (''/workspace/a/b.txt'', b64_encode ''hi'')" by code_simp
  ultimately show ?thesis by (simp add: decode_write_def)
qed

lemma sample_write_status: "hr_status (snd (handle_write sample_files (json_text sample_write) (Dir []))) = 200"
proof -
  have "resolve_p ''/workspace/a/b.txt'' = Inr ''a/b.txt''" "b64_decode (b64_encode ''hi'') = Some ''hi''"
      "path_dir ''a/b.txt'' = ''a''" by code_simp+
  moreover have "root_mkdir_all (fv_root sample_files) (Dir []) ''a'' = (Dir [(''a'', Dir [])], None)"
      "root_write_file (fv_root sample_files) (Dir [(''a'', Dir [])]) ''a/b.txt'' ''hi'' =
         (Dir [(''a'', Dir [(''b.txt'', Reg ''hi'')])], None)" by code_simp+
  ultimately show ?thesis by (simp add: handle_write_def sample_write_decoded)
qed

theorem write_read_roundtrip_witness:
  "\<exists>path contents data. decode_write (json_text sample_write) = Some (path, contents) \<and> b64_decode contents = Some data"
proof -
  obtain t' resp where h: "handle_write sample_files (json_text sample_write) (Dir []) = (t', resp)" by fastforce
  with sample_write_status have "hr_status resp = 200" by simp
  moreover have "look (Dir []) [] = Some (Dir [])" by code_simp
  ultimately show ?thesis using write_read_roundtrip [OF h] by blast
qed

text \<open>
  C38. An absolute path outside the workspace is refused by both handlers, whatever links the workspace
  holds: reading answers 500 with the escape error, writing leaves every file and directory as it was.
\<close>

theorem outside_paths_refused:
  assumes "is_abs p" and "\<not> prefix workspace_parts (clean_parts True (path_parts p))"
  shows "(decode_read body = Some p \<longrightarrow> handle_read env body t = respond_error 500 (fv_text env Path_Escapes)) \<and>
    (decode_write body = Some (p, contents) \<longrightarrow>
       fst (handle_write env body t) = t \<and> hr_status (snd (handle_write env body t)) \<in> {400, 500})"
proof -
  obtain c where r: "resolve_p p = Inr (path_join (''..'' # c))" and c: "list_all plain_name c"
    by (rule rel_outside [OF assms])
  have "handle_read env body t = respond_error 500 (fv_text env Path_Escapes)" if "decode_read body = Some p"
    using that r by (simp add: handle_read_def root_stat_def up_escapes [OF c])
  moreover have "fst (handle_write env body t) = t \<and> hr_status (snd (handle_write env body t)) \<in> {400, 500}"
    if d: "decode_write body = Some (p, contents)"
  proof -
    obtain t1 m where m: "root_mkdir_all (fv_root env) t (path_dir (path_join (''..'' # c))) = (t1, m)" by fastforce
    with up_mkdir [OF c, of "fv_root env" t] have "t1 = t" by simp
    moreover have "root_write_file (fv_root env) t (path_join (''..'' # c)) data = (t, Some Path_Escapes)" for data
      by (simp add: root_write_file_def up_escapes [OF c])
    ultimately show ?thesis using d r m
      by (auto simp: handle_write_def split: option.split)
  qed
  ultimately show ?thesis by blast
qed

theorem outside_paths_refused_witness:
  "decode_read (json_text (JObj [(''path'', JStr ''/etc/passwd'')])) = Some ''/etc/passwd'' \<and>
   handle_read sample_files (json_text (JObj [(''path'', JStr ''/etc/passwd'')])) (Dir []) =
     respond_error 500 (fv_text sample_files Path_Escapes)"
proof -
  have "is_abs ''/etc/passwd''" "\<not> prefix workspace_parts (clean_parts True (path_parts ''/etc/passwd''))"
      "decode_read (json_text (JObj [(''path'', JStr ''/etc/passwd'')])) = Some ''/etc/passwd''" by code_simp+
  with outside_paths_refused show ?thesis by blast
qed

end
