(* ===== verification/Tool_Proxy.thy ===== *)
theory Tool_Proxy imports Gate Audit_Chain begin

text \<open>
  The tool-call proxy of \<open>api-server/main.go\<close>: \<open>proxyHandler\<close> gates a request, audits it and
  forwards it to the executor. A request has two atomic phases, before and after the call into the
  executor, between which other requests run: \<open>proxy_begin\<close> ends in a refusal or in a flight, the
  request on its way, and \<open>proxy_finish\<close> takes the executor's answer. What a phase reads from
  outside (clock, salts, ids, failures of the network) is its environment argument.
\<close>

section \<open>Requests, answers, environments\<close>

text \<open>A body as it is read: the chunks that arrive and the error that ends them, if any.\<close>

record stream =
  st_chunks :: "string list"
  st_err :: "string option"

definition read_limited :: "nat \<Rightarrow> stream \<Rightarrow> string + string" where
  [go_eval]: "read_limited n st =
     (let b = concat (st_chunks st) in
      if n \<le> length b then Inr (take n b)
      else (case st_err st of Some e \<Rightarrow> Inl e | None \<Rightarrow> Inr b))"

record tool_request =
  tr_method :: string
  tr_path :: string
  tr_token :: string
  tr_body :: stream

record executor_response =
  er_status :: int
  er_announced :: "string list"
  er_body :: stream
  er_trailer :: "(string \<times> string) list"

datatype do_result = Do_Err string | Do_Ok executor_response

record begin_env =
  be_tick :: tick
  be_salt :: string
  be_exec_id :: string
  be_request_err :: "string option"
  be_fail_tick :: tick
  be_fail_salt :: string

record finish_env =
  fe_tick :: tick
  fe_salt :: string
  fe_millis :: int
  fe_write_err :: "string option"
  fe_write_stop :: "nat option"

record tool_server =
  ts_gate :: gate
  ts_log :: audit_log

record flight =
  fl_path :: string
  fl_req_body :: string
  fl_forward :: stream
  fl_reservation :: "reservation option"
  fl_exec_id :: string

definition max_auditable_body :: nat where
  [go_eval]: "max_auditable_body = 33554432"

definition auditable_request :: "string \<Rightarrow> bool" where
  [go_eval]: "auditable_request path \<longleftrightarrow>
     path \<in> {''/exec'', ''/read'', ''/write'', ''/sync-uploads/manifest'', ''/sync-uploads/blobs''}"

text \<open>A string field after \<open>json.Unmarshal\<close> with its error ignored.\<close>

definition unmarshal_field :: "string \<Rightarrow> string \<Rightarrow> string" where
  [go_eval]: "unmarshal_field f body =
     (case Option.bind (json_unmarshal body) struct_members of None \<Rightarrow> [] | Some ms \<Rightarrow> string_field f ms)"

section \<open>Recording\<close>

definition exec_intent_body :: "string \<Rightarrow> string \<Rightarrow> json" where
  [go_eval]: "exec_intent_body eid command = JObj [(''id'', JStr eid), (''command'', JStr command)]"

definition exec_failure_body :: "string \<Rightarrow> string \<Rightarrow> int \<Rightarrow> json" where
  [go_eval]: "exec_failure_body eid err ms =
     JObj [(''id'', JStr eid), (''error'', JStr err), (''duration_ms'', JInt ms)]"

definition record_exec_failure :: "(string \<Rightarrow> string) \<Rightarrow> tick \<Rightarrow> string \<Rightarrow> reservation option \<Rightarrow> string \<Rightarrow> string \<Rightarrow> int \<Rightarrow>
    audit_log \<Rightarrow> audit_log" where
  [go_eval]: "record_exec_failure H tk salt res eid err ms l =
     (case res of
        None \<Rightarrow> l
      | Some r \<Rightarrow> fst (complete H tk ''exec'' salt (exec_failure_body eid err ms) r l))"

text \<open>The response of \<open>/exec\<close> as \<open>recordToolCall\<close> parses it, and whether it parsed.\<close>

definition exec_fields :: "string \<Rightarrow> (string \<times> string \<times> int) \<times> bool" where
  [go_eval]: "exec_fields body =
     (case Option.bind (json_unmarshal body) struct_members of
        None \<Rightarrow> (([], [], 0), False)
      | Some ms \<Rightarrow>
          ((string_field ''stdout'' ms, string_field ''stderr'' ms, int_field ''exit_code'' ms),
           string_field_ok ''stdout'' ms \<and> string_field_ok ''stderr'' ms \<and> int_field_ok ''exit_code'' ms))"

definition exec_body :: "(string \<Rightarrow> string) \<Rightarrow> string \<Rightarrow> string \<Rightarrow> string \<Rightarrow> int \<Rightarrow> int \<Rightarrow> json" where
  [go_eval]: "exec_body H salt eid resp_body status ms =
     (let ((out, err, code), parsed) = exec_fields resp_body in
      JObj [(''id'', JStr eid), (''exit_code'', JInt code),
            (''stdout_sha256'', JStr (salt_hash H salt out)), (''stdout_bytes'', JInt (int (length out))),
            (''stderr_sha256'', JStr (salt_hash H salt err)), (''stderr_bytes'', JInt (int (length err))),
            (''duration_ms'', JInt ms), (''parsed'', JBool parsed), (''status'', JInt status)])"

definition transfer_body :: "string \<Rightarrow> string \<Rightarrow> int \<Rightarrow> int \<Rightarrow> int \<Rightarrow> json" where
  [go_eval]: "transfer_body path sha bytes status ms =
     JObj [(''path'', JStr path), (''sha256'', JStr sha), (''bytes'', JInt bytes),
           (''status'', JInt status), (''duration_ms'', JInt ms)]"

definition record_tool_call :: "(string \<Rightarrow> string) \<Rightarrow> tick \<Rightarrow> string \<Rightarrow> string \<Rightarrow> string \<Rightarrow> string \<Rightarrow> int \<Rightarrow> int \<Rightarrow>
    reservation option \<Rightarrow> string \<Rightarrow> audit_log \<Rightarrow> audit_log" where
  [go_eval]: "record_tool_call H tk salt path req_body resp_body status ms res eid l =
     (if path = ''/exec'' then
        (case res of
           Some r \<Rightarrow> fst (complete H tk ''exec'' salt (exec_body H salt eid resp_body status ms) r l)
         | None \<Rightarrow> fst (append_log H tk ''exec'' salt (exec_body H salt eid resp_body status ms) l))
      else if path = ''/read'' \<or> path = ''/write'' then
        let (typ, payload) = (if path = ''/write'' then (''file.write'', unmarshal_field ''contents'' req_body)
                              else (''file.read'', resp_body))
        in fst (append_log H tk typ salt
             (transfer_body (unmarshal_field ''path'' req_body) (salt_hash H salt payload) (int (length payload)) status ms) l)
      else
        fst (append_log H tk ''upload'' salt
             (transfer_body path (salt_hash H salt req_body) (int (length req_body)) status ms) l))"

definition record_bulk :: "(string \<Rightarrow> string) \<Rightarrow> tick \<Rightarrow> string \<Rightarrow> string \<Rightarrow> hash_counter \<Rightarrow> int \<Rightarrow> int \<Rightarrow>
    audit_log \<Rightarrow> audit_log" where
  [go_eval]: "record_bulk H tk path salt hc status ms l =
     fst (append_log H tk ''snapshot'' salt (transfer_body path (hc_sum H hc) (hc_count hc) status ms) l)"

section \<open>The handler\<close>

definition proxy_begin :: "(string \<Rightarrow> string) \<Rightarrow> begin_env \<Rightarrow> tool_request \<Rightarrow> tool_server \<Rightarrow>
    tool_server \<times> (http_response + flight)" where
  [go_eval]: "proxy_begin H env req srv =
     (if tr_method req \<noteq> ''POST'' then (srv, Inl (json_error 405 ''method not allowed''))
      else
        let path = tr_path req;
            (g, status, msg, ok) = check path (tr_token req) (ts_gate srv);
            srv1 = srv\<lparr>ts_gate := g\<rparr>
        in if \<not> ok then (srv1, Inl (json_error status msg))
        else
          case (if auditable_request path
                then map_sum id (\<lambda>b. (b, \<lparr>st_chunks = [b], st_err = None\<rparr>)) (read_limited max_auditable_body (tr_body req))
                else Inr ([], tr_body req)) of
            Inl e \<Rightarrow> (srv1, Inl (json_error 400 (''reading request: '' @ e)))
          | Inr (req_body, fwd) \<Rightarrow>
              let (srv2, admission) =
                    (if path = ''/exec'' then
                       let (l, a) = admit H (be_tick env) ''exec.intent'' (be_salt env)
                             (exec_intent_body (be_exec_id env) (unmarshal_field ''command'' req_body)) (ts_log srv1)
                       in (srv1\<lparr>ts_log := l\<rparr>, map_sum id Some a)
                     else (srv1, Inr None))
              in (case admission of
                    Inl e \<Rightarrow> (srv2, Inl (json_error 507 (''cannot audit execution: '' @ e)))
                  | Inr res \<Rightarrow>
                      (case be_request_err env of
                         Some e \<Rightarrow>
                           (srv2\<lparr>ts_log := record_exec_failure H (be_fail_tick env) (be_fail_salt env) res
                                    (be_exec_id env) e 0 (ts_log srv2)\<rparr>,
                            Inl (json_error 500 e))
                       | None \<Rightarrow>
                           (srv2, Inr \<lparr>fl_path = path, fl_req_body = req_body, fl_forward = fwd,
                                       fl_reservation = res, fl_exec_id = (if path = ''/exec'' then be_exec_id env else [])\<rparr>))))"

text \<open>
  \<open>io.Copy\<close> into the client and the hash: a chunk goes to the client first and is hashed only when
  that write succeeds; the write of chunk number \<open>stop\<close> fails.
\<close>

fun copy_hashed :: "nat option \<Rightarrow> string list \<Rightarrow> string option \<Rightarrow> hash_counter \<Rightarrow> hash_counter \<times> string option" where
  "copy_hashed stop [] err hc = (hc, err)"
| "copy_hashed stop (c # cs) err hc =
     (if stop = Some 0 then (hc, Some ''write failed'')
      else copy_hashed (map_option (\<lambda>n. n - 1) stop) cs err (hc_write hc c))"

definition trailer_get :: "string \<Rightarrow> (string \<times> string) list \<Rightarrow> string" where
  [go_eval]: "trailer_get k ts = (case map_of ts k of Some v \<Rightarrow> v | None \<Rightarrow> [])"

definition proxy_finish :: "(string \<Rightarrow> string) \<Rightarrow> finish_env \<Rightarrow> flight \<Rightarrow> do_result \<Rightarrow> tool_server \<Rightarrow>
    tool_server \<times> http_response" where
  [go_eval]: "proxy_finish H env fl result srv =
     (case result of
        Do_Err e \<Rightarrow>
          (srv\<lparr>ts_log := record_exec_failure H (fe_tick env) (fe_salt env) (fl_reservation fl)
                  (fl_exec_id fl) e (fe_millis env) (ts_log srv)\<rparr>,
           json_error 502 (''executor unavailable: '' @ e))
      | Do_Ok resp \<Rightarrow>
          let (l, body, copy_err) =
                (if auditable_request (fl_path fl) then
                   let (resp_body, err) =
                         (case read_limited max_auditable_body (er_body resp) of
                            Inl e \<Rightarrow> (concat (st_chunks (er_body resp)), Some e)
                          | Inr b \<Rightarrow> (b, None))
                   in (record_tool_call H (fe_tick env) (fe_salt env) (fl_path fl) (fl_req_body fl) resp_body
                         (er_status resp) (fe_millis env) (fl_reservation fl) (fl_exec_id fl) (ts_log srv),
                       if err = None then resp_body else [],
                       if err = None then fe_write_err env else err)
                 else
                   let (hc, err) = copy_hashed (fe_write_stop env) (st_chunks (er_body resp)) (st_err (er_body resp))
                         (hasher (fe_salt env))
                   in (record_bulk H (fe_tick env) (fl_path fl) (fe_salt env) hc (er_status resp) (fe_millis env) (ts_log srv),
                       drop (length (fe_salt env)) (hc_fed hc), err));
              complete_snapshot = (fl_path fl = ''/snapshot'' \<and> er_status resp = 200 \<and> copy_err = None \<and>
                 trailer_get ''X-Snapshot-Status'' (er_trailer resp) = ''ok'')
          in (srv\<lparr>ts_log := l, ts_gate := (if complete_snapshot then mark_killed (ts_gate srv) else ts_gate srv)\<rparr>,
              \<lparr>hr_status = er_status resp,
               hr_headers = map (\<lambda>k. (''Trailer'', k)) (er_announced resp) @
                 [(''Content-Type'', ''application/json'')] @ er_trailer resp,
               hr_body = body\<rparr>))"

text \<open>A request that nothing interrupts, with the executor as a function of what is forwarded.\<close>

definition proxy_handler :: "(string \<Rightarrow> string) \<Rightarrow> begin_env \<Rightarrow> finish_env \<Rightarrow> (string \<Rightarrow> stream \<Rightarrow> do_result) \<Rightarrow>
    tool_request \<Rightarrow> tool_server \<Rightarrow> tool_server \<times> http_response" where
  [go_eval]: "proxy_handler H benv fenv executor req srv =
     (case proxy_begin H benv req srv of
        (srv1, Inl resp) \<Rightarrow> (srv1, resp)
      | (srv1, Inr fl) \<Rightarrow> proxy_finish H fenv fl (executor (fl_path fl) (fl_forward fl)) srv1)"

section \<open>Health\<close>

definition executor_healthy :: "do_result \<Rightarrow> bool" where
  [go_eval]: "executor_healthy r = (case r of Do_Err _ \<Rightarrow> False | Do_Ok resp \<Rightarrow> er_status resp = 200)"

definition health_handler :: "do_result \<Rightarrow> string option \<Rightarrow> bool \<Rightarrow> http_response" where
  [go_eval]: "health_handler probe signer_err signer_ready =
     (let ok = executor_healthy probe;
          signer = (case signer_err of
                      Some e \<Rightarrow> ''failed: '' @ e
                    | None \<Rightarrow> if \<not> signer_ready then ''loading'' else ''ready'')
      in \<lparr>hr_status = (if ok then 200 else 503),
          hr_headers = [(''Content-Type'', ''application/json'')],
          hr_body = ''{'' @ json_quote ''executor'' @ '':'' @ go_quote (if ok then ''ok'' else ''unreachable'') @
            '','' @ json_quote ''checkpoint_signer'' @ '':'' @ go_quote signer @ ''}''\<rparr>)"

section \<open>The phases, branch by branch\<close>

lemma map_sum_id:
  "map_sum id f a = Inr r \<longleftrightarrow> (\<exists>x. a = Inr x \<and> r = f x)" "map_sum id f a = Inl e \<longleftrightarrow> a = Inl e"
  by (cases a; auto)+

text \<open>A flight leaves \<open>proxy_begin\<close> only past the gate, and an execution only past its admission.\<close>

lemma proxy_begin_flight:
  assumes "proxy_begin H env req srv = (srv', Inr fl)"
  obtains (Exec) l a where "fl_path fl = ''/exec''" "fl_exec_id fl = be_exec_id env"
      "admit H (be_tick env) ''exec.intent'' (be_salt env)
         (exec_intent_body (be_exec_id env) (unmarshal_field ''command'' (fl_req_body fl))) (ts_log srv) = (l, Inr a)"
      "ts_log srv' = l" "fl_reservation fl = Some a" "fl_forward fl = \<lparr>st_chunks = [fl_req_body fl], st_err = None\<rparr>"
    | (Other) "fl_path fl \<noteq> ''/exec''" "ts_log srv' = ts_log srv" "fl_reservation fl = None"
  using assms
  by (auto simp: proxy_begin_def auditable_request_def Let_def map_sum_id
      split: if_splits prod.splits sum.splits option.splits)

lemma proxy_begin_gate:
  "ts_gate (fst (proxy_begin H env req srv)) =
     (if tr_method req \<noteq> ''POST'' then ts_gate srv else fst (check (tr_path req) (tr_token req) (ts_gate srv)))"
  by (auto simp: proxy_begin_def Let_def split: prod.splits sum.splits option.splits if_splits)

lemma proxy_begin_passed:
  assumes "proxy_begin H env req srv = (srv', Inr fl)"
  shows "snd (snd (snd (check (tr_path req) (tr_token req) (ts_gate srv))))" "fl_path fl = tr_path req"
    "tr_method req = ''POST''"
  using assms
  by (auto simp: proxy_begin_def Let_def split: prod.splits sum.splits option.splits if_splits)

text \<open>A refusal costs the log nothing, or an intent and its completion, or the seal of a full log.\<close>

lemma proxy_begin_refused:
  assumes "proxy_begin H env req srv = (srv', Inl resp)"
  obtains (Unchanged) "ts_log srv' = ts_log srv"
    | (Refused) l body m where "admit H (be_tick env) ''exec.intent'' (be_salt env) body (ts_log srv) = (l, Inl m)"
        "ts_log srv' = l"
    | (Failed) l body body' r where "admit H (be_tick env) ''exec.intent'' (be_salt env) body (ts_log srv) = (l, Inr r)"
        "ts_log srv' = fst (complete H (be_fail_tick env) ''exec'' (be_fail_salt env) body' r l)"
  using assms
  by (auto simp: proxy_begin_def record_exec_failure_def Let_def map_sum_id
      split: if_splits prod.splits sum.splits option.splits)

lemma record_tool_call_exec:
  "record_tool_call H tk salt ''/exec'' req_body resp_body status ms (Some r) eid l =
     fst (complete H tk ''exec'' salt (exec_body H salt eid resp_body status ms) r l)"
  by (simp add: record_tool_call_def)

lemma record_tool_call_other:
  assumes "path \<noteq> ''/exec''"
  obtains ty body where "ty \<in> {''file.read'', ''file.write'', ''upload'', ''snapshot''}"
    "record_tool_call H tk salt path req_body resp_body status ms res eid l = fst (append_log H tk ty salt body l)"
proof -
  consider "path = ''/read''" | "path = ''/write''" | "path \<noteq> ''/read''" "path \<noteq> ''/write''" by blast
  then show ?thesis
    using assms by cases (rule that [rotated], simp add: record_tool_call_def Let_def, simp)+
qed

text \<open>What a finished request does to the log: one completion for an execution, at most one append else.\<close>

lemma proxy_finish_log:
  assumes "proxy_finish H env fl result srv = (srv', resp)"
    and "fl_path fl = ''/exec'' \<longleftrightarrow> fl_reservation fl \<noteq> None"
  obtains (Completed) r body where "fl_reservation fl = Some r"
      "ts_log srv' = fst (complete H (fe_tick env) ''exec'' (fe_salt env) body r (ts_log srv))"
    | (Appended) ty body where "fl_reservation fl = None" "ty \<in> {''file.read'', ''file.write'', ''upload'', ''snapshot''}"
      "ts_log srv' = fst (append_log H (fe_tick env) ty (fe_salt env) body (ts_log srv))"
    | (Unrecorded) "fl_reservation fl = None" "ts_log srv' = ts_log srv"
proof (cases result)
  case (Do_Err e)
  with assms show ?thesis
    by (cases "fl_reservation fl") (auto simp: proxy_finish_def record_exec_failure_def intro: Completed Unrecorded)
next
  case (Do_Ok r)
  show ?thesis
  proof (cases "fl_reservation fl")
    case (Some x)
    with assms(2) have "fl_path fl = ''/exec''" by simp
    with assms(1) Do_Ok Some show ?thesis
      by (intro Completed [OF Some, of "exec_body H (fe_salt env) (fl_exec_id fl)
            (case read_limited max_auditable_body (er_body r) of Inl e \<Rightarrow> concat (st_chunks (er_body r)) | Inr b \<Rightarrow> b)
            (er_status r) (fe_millis env)"])
        (auto simp: proxy_finish_def auditable_request_def record_tool_call_exec Let_def split: sum.splits)
  next
    case None
    with assms(2) have p: "fl_path fl \<noteq> ''/exec''" by simp
    show ?thesis
    proof (cases "auditable_request (fl_path fl)")
      case True
      with assms(1) Do_Ok obtain b where b: "ts_log srv' = record_tool_call H (fe_tick env) (fe_salt env) (fl_path fl)
          (fl_req_body fl) b (er_status r) (fe_millis env) (fl_reservation fl) (fl_exec_id fl) (ts_log srv)"
        by (auto simp: proxy_finish_def Let_def split: sum.splits)
      obtain ty body where "ty \<in> {''file.read'', ''file.write'', ''upload'', ''snapshot''}"
          "ts_log srv' = fst (append_log H (fe_tick env) ty (fe_salt env) body (ts_log srv))"
        unfolding b by (rule record_tool_call_other [OF p])
      with None show ?thesis by (rule Appended)
    next
      case False
      obtain hc err where "copy_hashed (fe_write_stop env) (st_chunks (er_body r)) (st_err (er_body r))
          (hasher (fe_salt env)) = (hc, err)" by fastforce
      with assms(1) Do_Ok None False show ?thesis
        by (intro Appended [OF None, of "''snapshot''" "transfer_body (fl_path fl) (hc_sum H hc) (hc_count hc)
              (er_status r) (fe_millis env)"])
          (auto simp: proxy_finish_def record_bulk_def Let_def)
    qed
  qed
qed

section \<open>Requests in flight together\<close>

type_synonym proxy_sys = "tool_server \<times> flight list"

inductive proxy_step :: "(string \<Rightarrow> string) \<Rightarrow> proxy_sys \<Rightarrow> proxy_sys \<Rightarrow> bool" for H where
  begin_flight: "proxy_begin H env req srv = (srv', Inr fl) \<Longrightarrow> proxy_step H (srv, fs) (srv', fs @ [fl])"
| begin_refused: "proxy_begin H env req srv = (srv', Inl resp) \<Longrightarrow> proxy_step H (srv, fs) (srv', fs)"
| finish_flight: "proxy_finish H env fl result srv = (srv', resp) \<Longrightarrow>
    proxy_step H (srv, fs1 @ fl # fs2) (srv', fs1 @ fs2)"
| other_append: "typ \<notin> {''exec'', ''exec.intent''} \<Longrightarrow>
    proxy_step H (srv, fs) (srv\<lparr>ts_log := fst (append_log H tk typ salt body (ts_log srv))\<rparr>, fs)"
| other_admit: "typ \<notin> {''exec'', ''exec.intent''} \<Longrightarrow>
    proxy_step H (srv, fs) (srv\<lparr>ts_log := fst (admit H tk typ salt body (ts_log srv))\<rparr>, fs)"
| other_complete: "typ \<notin> {''exec'', ''exec.intent''} \<Longrightarrow>
    proxy_step H (srv, fs) (srv\<lparr>ts_log := fst (complete H tk typ salt body r (ts_log srv))\<rparr>, fs)"

inductive_cases proxy_stepE: "proxy_step H s t"

definition exec_flights :: "flight list \<Rightarrow> nat" where
  [go_eval]: "exec_flights fs = length (filter (\<lambda>fl. fl_path fl = ''/exec'') fs)"

definition flight_ok :: "flight \<Rightarrow> bool" where
  [go_eval]: "flight_ok fl \<longleftrightarrow> (case fl_reservation fl of Some r \<Rightarrow> \<not> res_done r | None \<Rightarrow> True) \<and>
     (fl_path fl = ''/exec'' \<longleftrightarrow> fl_reservation fl \<noteq> None)"

text \<open>Every admitted execution is either in flight or completed, whatever else writes to the log.\<close>

definition proxy_ok :: "proxy_sys \<Rightarrow> bool" where
  "proxy_ok s \<longleftrightarrow> list_all flight_ok (snd s) \<and>
     type_count ''exec.intent'' (ts_log (fst s)) = type_count ''exec'' (ts_log (fst s)) + exec_flights (snd s)"

definition proxy_le :: "proxy_sys \<Rightarrow> proxy_sys \<Rightarrow> bool" where
  "proxy_le s t \<longleftrightarrow> log_le (ts_log (fst s)) (ts_log (fst t)) \<and> gate_le (ts_gate (fst s)) (ts_gate (fst t)) \<and>
     (gt_state (ts_gate (fst s)) = Killed \<longrightarrow> length (snd t) \<le> length (snd s))"

lemma fst_complete_count:
  "t \<noteq> ''log.saturated'' \<Longrightarrow> type_count t (fst (complete H tk typ salt body r l)) =
     type_count t l + (if \<not> res_done r \<and> typ = t then 1 else 0)"
  by (cases "complete H tk typ salt body r l") (simp add: type_count_complete)

lemma fst_admit_count:
  "t \<noteq> ''log.saturated'' \<Longrightarrow> typ \<noteq> t \<Longrightarrow> type_count t (fst (admit H tk typ salt body l)) = type_count t l"
  by (cases "admit H tk typ salt body l") (simp add: type_count_admit split: sum.split)

lemma proxy_begin_flight_ok: "proxy_begin H env req srv = (srv', Inr fl) \<Longrightarrow> flight_ok fl"
  by (erule proxy_begin_flight) (auto simp: flight_ok_def dest: admit_effect(3))

lemma step_proxy_ok: "proxy_step H s t \<Longrightarrow> proxy_ok s \<Longrightarrow> proxy_ok t"
proof (induction rule: proxy_step.induct)
  case (begin_flight env req srv srv' fl fs)
  from begin_flight(1) show ?case
    by (rule proxy_begin_flight)
      (use begin_flight proxy_begin_flight_ok [OF begin_flight(1)] in
        \<open>auto simp: proxy_ok_def exec_flights_def type_count_admit\<close>)
next
  case (begin_refused env req srv srv' resp fs)
  from begin_refused(1) show ?case
  proof (rule proxy_begin_refused)
    fix l body body' r
    assume a: "admit H (be_tick env) ''exec.intent'' (be_salt env) body (ts_log srv) = (l, Inr r)"
      and "ts_log srv' = fst (complete H (be_fail_tick env) ''exec'' (be_fail_salt env) body' r l)"
    with begin_refused(2) admit_effect(3) [OF a] show ?thesis
      by (simp add: proxy_ok_def fst_complete_count type_count_admit [OF a])
  qed (use begin_refused(2) in \<open>auto simp: proxy_ok_def type_count_admit\<close>)
next
  case (finish_flight env fl result srv srv' resp fs1 fs2)
  then have "fl_path fl = ''/exec'' \<longleftrightarrow> fl_reservation fl \<noteq> None" "\<forall>r. fl_reservation fl = Some r \<longrightarrow> \<not> res_done r"
    by (auto simp: proxy_ok_def flight_ok_def)
  note ok = this
  from finish_flight(1) ok(1) show ?case
    by (rule proxy_finish_log)
      (use finish_flight(2) ok in \<open>auto simp: proxy_ok_def exec_flights_def fst_complete_count audit_simps\<close>)
qed (auto simp: proxy_ok_def audit_simps fst_admit_count fst_complete_count)

lemma fst_complete_le [simp]: "log_le l (fst (complete H tk typ salt body r l))"
  by (cases "complete H tk typ salt body r l") (simp add: complete_effect(1))

lemma fst_admit_le [simp]: "log_le l (fst (admit H tk typ salt body l))"
  by (cases "admit H tk typ salt body l") (simp add: admit_effect(1))

lemma fst_append_le [simp]: "log_le l (fst (append_log H tk typ salt body l))"
  using append_effect by blast

lemma gate_le_refl [simp]: "gate_le g g"
  by (simp add: gate_le_def)

lemma proxy_finish_gate: "proxy_finish H env fl result srv = (srv', resp) \<Longrightarrow> gate_le (ts_gate srv) (ts_gate srv')"
  by (auto simp: proxy_finish_def mark_killed_def gate_le_def Let_def split: do_result.splits prod.splits)

lemma step_proxy_le: "proxy_step H s t \<Longrightarrow> proxy_ok s \<Longrightarrow> proxy_le s t"
proof (induction rule: proxy_step.induct)
  case (begin_flight env req srv srv' fl fs)
  have "log_le (ts_log srv) (ts_log srv')"
    using begin_flight(1) by (rule proxy_begin_flight) (auto dest: admit_effect(1))
  moreover have "gate_le (ts_gate srv) (ts_gate srv')"
    using proxy_begin_gate [of H env req srv] begin_flight(1) check_le by simp
  moreover have "gt_state (ts_gate srv) \<noteq> Killed"
    using proxy_begin_passed(1) [OF begin_flight(1)] by (auto simp: check_cases)
  ultimately show ?case by (simp add: proxy_le_def)
next
  case (begin_refused env req srv srv' resp fs)
  have "log_le (ts_log srv) (ts_log srv')"
    using begin_refused(1) by (rule proxy_begin_refused) (auto dest: admit_effect(1) intro: log_le_trans)
  moreover have "gate_le (ts_gate srv) (ts_gate srv')"
    using proxy_begin_gate [of H env req srv] begin_refused(1) check_le by simp
  ultimately show ?case by (simp add: proxy_le_def)
next
  case (finish_flight env fl result srv srv' resp fs1 fs2)
  then have "fl_path fl = ''/exec'' \<longleftrightarrow> fl_reservation fl \<noteq> None"
    by (auto simp: proxy_ok_def flight_ok_def)
  with finish_flight(1) have "log_le (ts_log srv) (ts_log srv')"
    by (rule proxy_finish_log) simp_all
  with proxy_finish_gate [OF finish_flight(1)] show ?case by (simp add: proxy_le_def)
qed (simp_all add: proxy_le_def)

interpretation tool_calls: step_system "proxy_step H" proxy_ok proxy_le for H
  by unfold_locales
    (auto simp: step_proxy_ok step_proxy_le, auto simp: proxy_le_def dest: log_le_trans gate_le_trans, auto simp: gate_le_def)

lemma copy_hashed_complete:
  "copy_hashed stop cs err hc = (hc', None) \<Longrightarrow>
     err = None \<and> hc_fed hc' = hc_fed hc @ concat cs \<and> hc_n hc' = hc_n hc + int (length (concat cs))"
  by (induction stop cs err hc rule: copy_hashed.induct) (auto simp: hc_write_def split: if_splits)

lemma copy_hashed_fed:
  "copy_hashed stop cs err hc = (hc', m) \<Longrightarrow> \<exists>b. hc_fed hc' = hc_fed hc @ b \<and> hc_n hc' = hc_n hc + int (length b)"
proof (induction stop cs err hc rule: copy_hashed.induct)
  case (2 stop c cs err hc)
  then show ?case by (fastforce simp: hc_write_def split: if_splits)
qed auto

text \<open>Response bodies over the bound reach the client cut off, with the executor's status.\<close>

lemma long_response_truncated:
  assumes "auditable_request (fl_path fl)" and "max_auditable_body < length (concat (st_chunks (er_body resp)))"
  shows "hr_body (snd (proxy_finish H env fl (Do_Ok resp) srv)) = take max_auditable_body (concat (st_chunks (er_body resp)))"
    "hr_status (snd (proxy_finish H env fl (Do_Ok resp) srv)) = er_status resp"
  using assms by (simp_all add: proxy_finish_def read_limited_def Let_def)

definition sample_server :: tool_server where
  [go_eval]: "sample_server = \<lparr>ts_gate = new_gate, ts_log = new_audit_log ''seg'' ''t''\<rparr>"

definition sample_begin :: begin_env where
  [go_eval]: "sample_begin = \<lparr>be_tick = sample_tick, be_salt = ''salt'', be_exec_id = ''id'', be_request_err = None,
     be_fail_tick = sample_tick, be_fail_salt = ''salt''\<rparr>"

definition sample_finish :: finish_env where
  [go_eval]: "sample_finish = \<lparr>fe_tick = sample_tick, fe_salt = ''salt'', fe_millis = 5, fe_write_err = None, fe_write_stop = None\<rparr>"

definition sample_request :: tool_request where
  [go_eval]: "sample_request = \<lparr>tr_method = ''POST'', tr_path = ''/exec'', tr_token = ''t'',
     tr_body = \<lparr>st_chunks = [''{'' @ json_quote ''command'' @ '':'' @ json_quote ''id'' @ ''}''], st_err = None\<rparr>\<rparr>"

lemma read_limited_short: "length (concat (st_chunks st)) < n \<Longrightarrow>
    read_limited n st = (case st_err st of Some e \<Rightarrow> Inl e | None \<Rightarrow> Inr (concat (st_chunks st)))"
  by (simp add: read_limited_def)

lemma sample_begin_flight:
  obtains srv fl where "proxy_begin (\<lambda>x. ''h'') sample_begin sample_request sample_server = (srv, Inr fl)" "fl_path fl = ''/exec''"
    "fl_req_body fl = concat (st_chunks (tr_body sample_request))"
proof -
  have b: "read_limited max_auditable_body (tr_body sample_request) = Inr (concat (st_chunks (tr_body sample_request)))"
    by (subst read_limited_short) (simp_all add: sample_request_def max_auditable_body_def json_quote_def json_escape_def)
  have c: "check ''/exec'' ''t'' (ts_gate sample_server) = (\<lparr>gt_token = ''t'', gt_state = Active\<rparr>, 0, [], True)" by code_simp
  obtain l a where a: "admit (\<lambda>x. ''h'') (be_tick sample_begin) ''exec.intent'' (be_salt sample_begin)
      (exec_intent_body (be_exec_id sample_begin) ''id'') (ts_log sample_server) = (l, Inr a)"
  proof -
    have "case snd (admit (\<lambda>x. ''h'') (be_tick sample_begin) ''exec.intent'' (be_salt sample_begin)
      (exec_intent_body (be_exec_id sample_begin) ''id'') (ts_log sample_server)) of Inr _ \<Rightarrow> True | Inl _ \<Rightarrow> False" by code_simp
    then show thesis
      by (cases "admit (\<lambda>x. ''h'') (be_tick sample_begin) ''exec.intent'' (be_salt sample_begin)
        (exec_intent_body (be_exec_id sample_begin) ''id'') (ts_log sample_server)")
        (auto split: sum.splits intro: that)
  qed
  have f: "unmarshal_field ''command'' (concat (st_chunks (tr_body sample_request))) = ''id''" by code_simp
  from b c a f show thesis
    by (intro that) (auto simp: proxy_begin_def sample_request_def auditable_request_def Let_def sample_begin_def)
qed

section \<open>Properties\<close>

text \<open>
  C2. No command reaches the executor unrecorded: when a request for \<open>/exec\<close> gets past the first
  phase, the log already holds an \<open>exec.intent\<close> entry with its id and the command read from exactly
  the bytes that are forwarded, room for the completion is reserved, and the gate let the token pass.
\<close>

theorem exec_recorded_before_forwarding:
  assumes "proxy_begin H env req srv = (srv', Inr fl)" and "fl_path fl = ''/exec''"
  shows "(\<exists>e. read_entry (rec_raw (al_records (ts_log srv') ! length (al_records (ts_log srv)))) = Some e \<and>
      en_type e = ''exec.intent'' \<and>
      json_marshal (exec_intent_body (fl_exec_id fl)
        (unmarshal_field ''command'' (concat (st_chunks (fl_forward fl))))) = Inr (en_body e)) \<and>
    al_reserved_entries (ts_log srv') = al_reserved_entries (ts_log srv) + 1 \<and>
    snd (snd (snd (check (tr_path req) (tr_token req) (ts_gate srv))))"
  using assms(1)
proof (cases rule: proxy_begin_flight)
  case (Exec l a)
  have "json_plain (exec_intent_body i c)" for i c by (simp add: exec_intent_body_def)
  from admitted_entry [OF Exec(3) this] Exec admit_effect(2) [OF Exec(3)] proxy_begin_passed(1) [OF assms(1)]
  show ?thesis by auto
qed (use assms(2) in simp)

theorem exec_recorded_before_forwarding_witness:
  "\<exists>srv fl. proxy_begin (\<lambda>x. ''h'') sample_begin sample_request sample_server = (srv, Inr fl) \<and>
     al_reserved_entries (ts_log srv) = al_reserved_entries (ts_log sample_server) + 1"
proof -
  obtain srv fl where f: "proxy_begin (\<lambda>x. ''h'') sample_begin sample_request sample_server = (srv, Inr fl)"
      "fl_path fl = ''/exec''" by (rule sample_begin_flight)
  from exec_recorded_before_forwarding [OF f] f(1) show ?thesis by blast
qed

text \<open>
  C21. Every admitted execution is answered in the log exactly once: over any interleaving of
  requests, executor answers, lost connections and other writers, the \<open>exec.intent\<close> entries are as
  many as the \<open>exec\<close> entries and the executions still in flight.
\<close>

theorem every_execution_completed:
  assumes "reaches (proxy_step H) (\<lparr>ts_gate = g, ts_log = new_audit_log seg now\<rparr>, []) (srv, fs)"
  shows "type_count ''exec.intent'' (ts_log srv) = type_count ''exec'' (ts_log srv) + exec_flights fs"
proof -
  have "proxy_ok (\<lparr>ts_gate = g, ts_log = new_audit_log seg now\<rparr>, [])"
    by (simp add: proxy_ok_def type_count_def exec_flights_def)
  from tool_calls.reaches_inv [OF assms this] show ?thesis by (simp add: proxy_ok_def)
qed

theorem every_execution_completed_witness:
  "\<exists>(srv :: tool_server) (fl :: flight). type_count ''exec.intent'' (ts_log srv) = type_count ''exec'' (ts_log srv) + exec_flights [fl] \<and>
     exec_flights [fl] = 1"
proof -
  obtain srv fl where f: "proxy_begin (\<lambda>x. ''h'') sample_begin sample_request sample_server = (srv, Inr fl)"
      "fl_path fl = ''/exec''" by (rule sample_begin_flight)
  have "reaches (proxy_step (\<lambda>x. ''h'')) (sample_server, []) (srv, [fl])"
    using reaches_one [where step = "proxy_step (\<lambda>x. ''h'')", OF begin_flight [OF f(1), of "[]"]] by simp
  from every_execution_completed [OF this [unfolded sample_server_def]] f(2) show ?thesis
    by (intro exI [of _ srv] exI [of _ fl]) (simp add: exec_flights_def)
qed

lemma kill_is_snapshot:
  assumes "proxy_finish H env fl result srv = (srv', resp)"
    and "gt_state (ts_gate srv) \<noteq> Killed" and "gt_state (ts_gate srv') = Killed"
  shows "\<exists>r. result = Do_Ok r \<and> fl_path fl = ''/snapshot'' \<and> er_status r = 200 \<and> st_err (er_body r) = None \<and>
      trailer_get ''X-Snapshot-Status'' (er_trailer r) = ''ok'' \<and> hr_body resp = concat (st_chunks (er_body r)) \<and>
      ts_log srv' = fst (append_log H (fe_tick env) ''snapshot'' (fe_salt env)
         (transfer_body ''/snapshot'' (salt_hash H (fe_salt env) (hr_body resp)) (int (length (hr_body resp))) 200 (fe_millis env))
         (ts_log srv))"
proof -
  from assms obtain r where r: "result = Do_Ok r" by (cases result) (auto simp: proxy_finish_def)
  have "fl_path fl = ''/snapshot''"
    using assms r by (auto simp: proxy_finish_def Let_def split: prod.splits if_splits)
  then have p: "fl_path fl = ''/snapshot''" "\<not> auditable_request (fl_path fl)" by (simp_all add: auditable_request_def)
  obtain hc err where hc: "copy_hashed (fe_write_stop env) (st_chunks (er_body r)) (st_err (er_body r))
      (hasher (fe_salt env)) = (hc, err)" by fastforce
  from assms r p hc have k: "er_status r = 200" "err = None"
      "trailer_get ''X-Snapshot-Status'' (er_trailer r) = ''ok''"
    by (auto simp: proxy_finish_def Let_def split: if_splits)
  from copy_hashed_complete [OF hc [unfolded k(2)]] have c: "st_err (er_body r) = None"
      "hc_fed hc = fe_salt env @ concat (st_chunks (er_body r))" "hc_n hc = int (length (concat (st_chunks (er_body r))))"
    by (simp_all add: hasher_def)
  from assms(1) r p hc k c show ?thesis
    by (auto simp: proxy_finish_def record_bulk_def salt_hash_def hc_sum_def hc_count_def Let_def)
qed


definition sample_snapshot :: executor_response where
  [go_eval]: "sample_snapshot = \<lparr>er_status = 200, er_announced = [''X-Snapshot-Status''],
     er_body = \<lparr>st_chunks = [''ab'', ''c''], st_err = None\<rparr>, er_trailer = [(''X-Snapshot-Status'', ''ok'')]\<rparr>"

definition sample_flight :: flight where
  [go_eval]: "sample_flight = \<lparr>fl_path = ''/snapshot'', fl_req_body = [], fl_forward = \<lparr>st_chunks = [], st_err = None\<rparr>,
     fl_reservation = None, fl_exec_id = []\<rparr>"


text \<open>
  What the log says of a tool call is what the client got: a recorded \<open>/read\<close> carries the
  salted hash and length of exactly the response body, an \<open>/exec\<close> the hashes and lengths of the
  decoded stdout and stderr of that body and its exit code, whenever the body was read whole.
\<close>

theorem recorded_call_matches_response:
  assumes "proxy_finish H env fl (Do_Ok r) srv = (srv', resp)"
    and "st_err (er_body r) = None" and "fl_path fl = ''/exec'' \<longleftrightarrow> fl_reservation fl \<noteq> None"
  shows "(fl_path fl = ''/read'' \<longrightarrow>
      ts_log srv' = fst (append_log H (fe_tick env) ''file.read'' (fe_salt env)
        (transfer_body (unmarshal_field ''path'' (fl_req_body fl)) (salt_hash H (fe_salt env) (hr_body resp))
          (int (length (hr_body resp))) (hr_status resp) (fe_millis env)) (ts_log srv))) \<and>
    (fl_path fl = ''/exec'' \<longrightarrow>
      ts_log srv' = fst (complete H (fe_tick env) ''exec'' (fe_salt env)
        (exec_body H (fe_salt env) (fl_exec_id fl) (hr_body resp) (hr_status resp) (fe_millis env))
        (the (fl_reservation fl)) (ts_log srv)))"
proof -
  have "\<exists>b. read_limited max_auditable_body (er_body r) = Inr b"
    using assms(2) by (simp add: read_limited_def Let_def)
  then obtain b where b: "read_limited max_auditable_body (er_body r) = Inr b" by blast
  from assms(1,3) b show ?thesis
    by (auto simp: proxy_finish_def auditable_request_def record_tool_call_def Let_def)
qed

theorem recorded_call_matches_response_witness:
  "\<exists>srv resp. proxy_finish (\<lambda>x. ''h'') sample_finish (sample_flight\<lparr>fl_path := ''/read''\<rparr>) (Do_Ok sample_snapshot) sample_server = (srv, resp) \<and>
     ts_log srv = fst (append_log (\<lambda>x. ''h'') (fe_tick sample_finish) ''file.read'' (fe_salt sample_finish)
        (transfer_body (unmarshal_field ''path'' []) (salt_hash (\<lambda>x. ''h'') (fe_salt sample_finish) (hr_body resp))
          (int (length (hr_body resp))) (hr_status resp) (fe_millis sample_finish)) (ts_log sample_server))"
proof -
  obtain srv resp where f: "proxy_finish (\<lambda>x. ''h'') sample_finish (sample_flight\<lparr>fl_path := ''/read''\<rparr>) (Do_Ok sample_snapshot) sample_server = (srv, resp)"
    by fastforce
  from recorded_call_matches_response [OF f] f show ?thesis by (auto simp: sample_snapshot_def sample_flight_def)
qed

text \<open>The audit steps behind the two phases; the reservations of this request stand last in the list.\<close>

definition held :: "flight \<Rightarrow> reservation list" where
  "held fl = (case fl_reservation fl of None \<Rightarrow> [] | Some r \<Rightarrow> [r])"

lemma complete_refines:
  "\<exists>r'. reaches (audit_step H) (l, rs @ [r]) (fst (complete H tk typ salt body r l), rs @ [r'])"
proof -
  obtain l' r' m where c: "complete H tk typ salt body r l = (l', r', m)" by (cases "complete H tk typ salt body r l")
  with reaches_one [where step = "audit_step H", OF step_complete [of "length rs" "rs @ [r]" H tk "typ" salt body l l' r' m]]
  show ?thesis by auto
qed

lemma proxy_begin_refines:
  assumes "proxy_begin H env req srv = (srv', out)"
  shows "\<exists>rs'. reaches (audit_step H) (ts_log srv, rs) (ts_log srv', rs @ rs') \<and> (\<forall>fl. out = Inr fl \<longrightarrow> rs' = held fl)"
proof (cases out)
  case (Inl resp)
  from assms [unfolded Inl] have "\<exists>rs'. reaches (audit_step H) (ts_log srv, rs) (ts_log srv', rs @ rs')"
  proof (cases rule: proxy_begin_refused)
    case Unchanged
    then show ?thesis by (intro exI [of _ "[]"]) (simp add: reaches_refl)
  next
    case (Refused l body m)
    with reaches_one [where step = "audit_step H", OF step_refuse [OF Refused(1), of rs]] show ?thesis
      by (intro exI [of _ "[]"]) simp
  next
    case (Failed l body body' r)
    from complete_refines [of H l rs r "be_fail_tick env" "''exec''" "be_fail_salt env" body']
      reaches_one [where step = "audit_step H", OF step_admit [OF Failed(1), of rs]] Failed(2)
    show ?thesis by (auto intro: reaches_trans)
  qed
  then show ?thesis by (simp add: Inl)
next
  case (Inr fl)
  from assms [unfolded Inr] have "reaches (audit_step H) (ts_log srv, rs) (ts_log srv', rs @ held fl)"
  proof (cases rule: proxy_begin_flight)
    case (Exec l a)
    with reaches_one [where step = "audit_step H", OF step_admit [OF Exec(3), of rs]] show ?thesis by (simp add: held_def)
  qed (simp add: held_def reaches_refl)
  then show ?thesis by (simp add: Inr)
qed

lemma proxy_finish_refines:
  assumes "proxy_finish H env fl result srv = (srv', resp)" and "fl_path fl = ''/exec'' \<longleftrightarrow> fl_reservation fl \<noteq> None"
  shows "\<exists>rs'. reaches (audit_step H) (ts_log srv, rs @ held fl) (ts_log srv', rs @ rs')"
  using assms
proof (cases rule: proxy_finish_log)
  case (Completed r body)
  with complete_refines [of H "ts_log srv" rs r "fe_tick env" "''exec''" "fe_salt env" body] show ?thesis
    by (auto simp: held_def)
next
  case (Appended ty body)
  with reaches_one [where step = "audit_step H", OF step_append [of H "ts_log srv" rs "fe_tick env" ty "fe_salt env" body]]
  show ?thesis by (intro exI [of _ "[]"]) (simp add: held_def)
next
  case Unrecorded
  then show ?thesis by (intro exI [of _ "[]"]) (simp add: held_def reaches_refl)
qed

text \<open>
  The handler refines the shared log: all that a request does to the log, on every branch, is
  a sequence of the log's own atomic calls, so every invariant of the log holds under the server.
\<close>

lemma handler_refines_log:
  "\<exists>rs'. reaches (audit_step H) (ts_log srv, rs) (ts_log (fst (proxy_handler H benv fenv executor req srv)), rs @ rs')"
proof -
  obtain srv1 out where b: "proxy_begin H benv req srv = (srv1, out)" by fastforce
  from proxy_begin_refines [OF b, of rs] obtain rs1 where
    rs1: "reaches (audit_step H) (ts_log srv, rs) (ts_log srv1, rs @ rs1)" "\<forall>fl. out = Inr fl \<longrightarrow> rs1 = held fl" by blast
  show ?thesis
  proof (cases out)
    case (Inl resp)
    with b rs1 show ?thesis by (auto simp: proxy_handler_def)
  next
    case (Inr fl)
    obtain srv2 resp where f: "proxy_finish H fenv fl (executor (fl_path fl) (fl_forward fl)) srv1 = (srv2, resp)" by fastforce
    moreover have "fl_path fl = ''/exec'' \<longleftrightarrow> fl_reservation fl \<noteq> None"
      using proxy_begin_flight_ok [OF b [unfolded Inr]] by (simp add: flight_ok_def)
    ultimately obtain rs2 where "reaches (audit_step H) (ts_log srv1, rs @ held fl) (ts_log srv2, rs @ rs2)"
      using proxy_finish_refines by blast
    with rs1 Inr b f show ?thesis by (auto simp: proxy_handler_def intro: reaches_trans)
  qed
qed

end
