(* ===== verification/Executor_Exec.thy ===== *)
theory Executor_Exec imports Executor_Files Tool_Proxy begin

text \<open>
  \<open>/exec\<close> of the executor, \<open>executor/main.go\<close>: running a command, and killing whatever it leaves behind
  before the answer goes out. Handlers of \<open>/exec\<close> hold \<open>execMu\<close>, so one runs at a time. The command itself
  is an argument, a function of its text, its environment and the workspace; so are the clock, the
  directory \<open>/proc\<close> as each scan finds it, and what each \<open>kill\<close> answers.
\<close>

section \<open>Finding the processes of commands\<close>

definition bash_uid :: nat where
  [go_eval]: "bash_uid = 1001"

text \<open>A status file: whether its last \<open>Uid:\<close> line names the user of commands, and its last \<open>State:\<close> a zombie.\<close>

definition scan_line :: "string \<Rightarrow> bool \<times> bool \<Rightarrow> bool \<times> bool" where
  [go_eval]: "scan_line line uz =
     (case space_fields line of
        k # v # _ \<Rightarrow> (if k = ''Uid:'' then parse_uint32 v = Some bash_uid else fst uz, if k = ''State:'' then v = ''Z'' else snd uz)
      | _ \<Rightarrow> uz)"

definition scan_status :: "string \<Rightarrow> bool \<times> bool" where
  [go_eval]: "scan_status s = fold scan_line (split_byte (CHR 0x0A) s) (False, False)"

text \<open>A directory: names, and the status file under each if it can be read.\<close>

type_synonym proc_dir = "(string \<times> string option) list"

definition entry_pids :: "string \<times> string option \<Rightarrow> int list" where
  [go_eval]: "entry_pids e =
     (case (atoi (fst e), snd e) of
        (Some pid, Some status) \<Rightarrow> (case scan_status status of (uid, zombie) \<Rightarrow> if uid \<and> \<not> zombie then [pid] else [])
      | _ \<Rightarrow> [])"

definition command_pids :: "string + proc_dir \<Rightarrow> string + int list" where
  [go_eval]: "command_pids d = (case d of Inl e \<Rightarrow> Inl e | Inr es \<Rightarrow> Inr (concat (map entry_pids es)))"

section \<open>Killing them\<close>

datatype kill_result = Killed | No_Such_Process | Kill_Error string

record cleanup_env =
  ce_start :: int
  ce_now :: "nat \<Rightarrow> int"
  ce_proc :: "nat \<Rightarrow> string + proc_dir"
  ce_kill :: "nat \<Rightarrow> int \<Rightarrow> kill_result"

fun kill_all :: "(int \<Rightarrow> kill_result) \<Rightarrow> int list \<Rightarrow> string option" where
  "kill_all k [] = None"
| "kill_all k (p # ps) =
     (case k p of
        Kill_Error e \<Rightarrow> Some (''killing pid '' @ itoa p @ '': '' @ e)
      | _ \<Rightarrow> kill_all k ps)"

text \<open>The loop, from round \<open>i\<close>: how many rounds were run in the end, and the error. Times are in nanoseconds.\<close>

partial_function (option) kill_rounds :: "cleanup_env \<Rightarrow> nat \<Rightarrow> nat \<Rightarrow> (nat \<times> string option) option" where
  "kill_rounds env i clean_scans =
     (if \<not> ce_now env i < ce_start env + 1000000000 then Some (i, Some ''command processes remained after SIGKILL'')
      else
        (case command_pids (ce_proc env i) of
           Inl e \<Rightarrow> Some (Suc i, Some e)
         | Inr pids \<Rightarrow>
             if pids = [] then
               (if Suc clean_scans = 2 then Some (Suc i, None) else kill_rounds env (Suc i) (Suc clean_scans))
             else
               (case kill_all (ce_kill env i) pids of
                  Some e \<Rightarrow> Some (Suc i, Some e)
                | None \<Rightarrow> kill_rounds env (Suc i) 0)))"

definition kill_command_processes :: "cleanup_env \<Rightarrow> (nat \<times> string option) option" where
  [go_eval]: "kill_command_processes env = kill_rounds env 0 0"

section \<open>Running a command\<close>

datatype run_error = Exit_Error int | Run_Error string

record run =
  rn_error :: "run_error option"
  rn_timed_out :: bool
  rn_out_seek :: "string option"
  rn_out :: "string + string"
  rn_err_seek :: "string option"
  rn_err :: "string + string"

record exec_env =
  xe_out_temp :: "string option"
  xe_err_temp :: "string option"
  xe_run :: "string \<Rightarrow> string list \<Rightarrow> node \<Rightarrow> node \<times> run"
  xe_cleanup :: cleanup_env

definition read_capture :: "string option \<Rightarrow> string + string \<Rightarrow> string + string" where
  [go_eval]: "read_capture seek contents = (case seek of Some e \<Rightarrow> Inl e | None \<Rightarrow> contents)"

definition command_field :: "(string \<times> jval \<times> string) list \<Rightarrow> string option" where
  [go_eval]: "command_field ms = (if string_field_ok ''command'' ms then Some (string_field ''command'' ms) else None)"

definition decode_exec :: "string \<Rightarrow> string option" where
  [go_eval]: "decode_exec body = Option.bind (Option.bind (json_decode body) struct_members) command_field"

definition exec_response :: "string \<Rightarrow> string \<Rightarrow> int \<Rightarrow> json" where
  [go_eval]: "exec_response out err code = JObj [(''stdout'', JStr out), (''stderr'', JStr err), (''exit_code'', JInt code)]"

text \<open>\<open>%v\<close> of an error that may be nil.\<close>

definition error_text :: "string + string \<Rightarrow> string" where
  [go_eval]: "error_text r = (case r of Inl e \<Rightarrow> e | Inr _ \<Rightarrow> ''<nil>'')"

definition exec_answer :: "run \<Rightarrow> http_response" where
  [go_eval]: "exec_answer rn =
     (let out = read_capture (rn_out_seek rn) (rn_out rn); err = read_capture (rn_err_seek rn) (rn_err rn) in
      case (out, err) of
        (Inr stdout, Inr stderr) \<Rightarrow>
          if rn_timed_out rn then respond_json 200 (exec_response [] ''command timed out (30s)'' (- 1))
          else
            (case rn_error rn of
               None \<Rightarrow> respond_json 200 (exec_response stdout stderr 0)
             | Some (Exit_Error code) \<Rightarrow> respond_json 200 (exec_response stdout stderr code)
             | Some (Run_Error e) \<Rightarrow> respond_error 500 (''exec failed: '' @ e))
      | _ \<Rightarrow> respond_error 500 (''reading command output: stdout='' @ error_text out @ '' stderr='' @ error_text err))"

text \<open>A handler answers, or takes the whole executor down. \<^term>\<open>None\<close> stands for a handler that never ends.\<close>

datatype exec_end = Exec_Answer http_response | Exec_Fatal string

definition handle_exec :: "exec_env \<Rightarrow> string list \<Rightarrow> string \<Rightarrow> node \<Rightarrow> (node \<times> exec_end) option" where
  [go_eval]: "handle_exec env vars body t =
     (case decode_exec body of
        None \<Rightarrow> Some (t, Exec_Answer (respond_error 400 ''invalid json''))
      | Some command \<Rightarrow>
          if command = [] then Some (t, Exec_Answer (respond_error 400 ''command is required''))
          else
            (case xe_out_temp env of
               Some e \<Rightarrow> Some (t, Exec_Answer (respond_error 500 (''creating stdout capture: '' @ e)))
             | None \<Rightarrow>
                 (case xe_err_temp env of
                    Some e \<Rightarrow> Some (t, Exec_Answer (respond_error 500 (''creating stderr capture: '' @ e)))
                  | None \<Rightarrow>
                      (case xe_run env command vars t of
                         (t1, rn) \<Rightarrow>
                           (case kill_command_processes (xe_cleanup env) of
                              None \<Rightarrow> None
                            | Some (n, Some e) \<Rightarrow> Some (t1, Exec_Fatal (''executor: command descendant cleanup failed: '' @ e))
                            | Some (n, None) \<Rightarrow> Some (t1, Exec_Answer (exec_answer rn)))))))"

section \<open>Scans\<close>

text \<open>A status file shows one value under a key: on every line that starts with the key, and on some line.\<close>

definition shows_field :: "string \<Rightarrow> string \<Rightarrow> string \<Rightarrow> bool" where
  "shows_field s key v \<longleftrightarrow>
     (\<exists>l \<in> set (split_byte (CHR 0x0A) s). take 2 (space_fields l) = [key, v]) \<and>
     (\<forall>l \<in> set (split_byte (CHR 0x0A) s). \<forall>w. take 2 (space_fields l) = [key, w] \<longrightarrow> w = v)"

lemma take2: "take 2 xs = [a, b] \<longleftrightarrow> (\<exists>r. xs = a # b # r)"
  by (cases xs rule: remdups_adj.cases) auto

lemma scan_line_keeps:
  assumes "\<forall>l \<in> set ls. \<forall>w. take 2 (space_fields l) \<noteq> [key, w]"
  shows "key = ''Uid:'' \<Longrightarrow> fst (fold scan_line ls uz) = fst uz"
    and "key = ''State:'' \<Longrightarrow> snd (fold scan_line ls uz) = snd uz"
  using assms by (induction ls arbitrary: uz) (auto simp: scan_line_def take2 split: list.split)

lemma scan_line_shows:
  assumes "\<exists>l \<in> set ls. take 2 (space_fields l) = [key, v]" and "\<forall>l \<in> set ls. \<forall>w. take 2 (space_fields l) = [key, w] \<longrightarrow> w = v"
  shows "key = ''Uid:'' \<Longrightarrow> fst (fold scan_line ls uz) = (parse_uint32 v = Some bash_uid)"
    and "key = ''State:'' \<Longrightarrow> snd (fold scan_line ls uz) = (v = ''Z'')"
proof -
  obtain as l bs where ls: "ls = as @ l # bs" "take 2 (space_fields l) = [key, v]" "\<forall>x \<in> set bs. take 2 (space_fields x) \<noteq> [key, v]"
    using split_list_last_prop [OF assms(1)] by blast
  then have "\<forall>x \<in> set bs. \<forall>w. take 2 (space_fields x) \<noteq> [key, w]" using assms(2) by auto
  note keeps = scan_line_keeps [OF this, of "scan_line l (fold scan_line as uz)"]
  obtain r where "space_fields l = key # v # r" using ls(2) by (auto simp: take2)
  then have "key = ''Uid:'' \<Longrightarrow> fst (scan_line l uz') = (parse_uint32 v = Some bash_uid)"
      "key = ''State:'' \<Longrightarrow> snd (scan_line l uz') = (v = ''Z'')" for uz'
    by (simp_all add: scan_line_def)
  with keeps show "key = ''Uid:'' \<Longrightarrow> fst (fold scan_line ls uz) = (parse_uint32 v = Some bash_uid)"
      "key = ''State:'' \<Longrightarrow> snd (fold scan_line ls uz) = (v = ''Z'')"
    by (simp_all add: ls(1))
qed

lemma scan_status_shows:
  assumes "shows_field s ''Uid:'' u" and "shows_field s ''State:'' z"
  shows "scan_status s = (parse_uint32 u = Some bash_uid, z = ''Z'')"
  using scan_line_shows [of "split_byte (CHR 0x0A) s"] assms
  unfolding shows_field_def scan_status_def by (intro prod_eqI; simp; blast)

text \<open>The processes of the user of commands that are alive, in a directory of legible status files.\<close>

definition live_command :: "proc_dir \<Rightarrow> int \<Rightarrow> bool" where
  "live_command es pid \<longleftrightarrow> (\<exists>name s u z. (name, Some s) \<in> set es \<and> atoi name = Some pid \<and>
     shows_field s ''Uid:'' u \<and> shows_field s ''State:'' z \<and> parse_uint32 u = Some bash_uid \<and> z \<noteq> ''Z'')"

lemma live_command_found:
  assumes "live_command es pid" and "command_pids (Inr es) = Inr pids"
  shows "pid \<in> set pids"
proof -
  obtain name s u z where e: "(name, Some s) \<in> set es" "atoi name = Some pid" "shows_field s ''Uid:'' u"
    "shows_field s ''State:'' z" "parse_uint32 u = Some bash_uid" "z \<noteq> ''Z''"
    using assms(1) unfolding live_command_def by blast
  from scan_status_shows [OF e(3,4)] e have "entry_pids (name, Some s) = [pid]" by (simp add: entry_pids_def)
  with e(1) assms(2) show ?thesis unfolding command_pids_def by force
qed

section \<open>The cleanup loop\<close>

definition quiet_scan :: "cleanup_env \<Rightarrow> nat \<Rightarrow> bool" where
  "quiet_scan env i \<longleftrightarrow> command_pids (ce_proc env i) = Inr []"

lemma quiet_scan_no_command: "quiet_scan env i \<Longrightarrow> ce_proc env i = Inr es \<Longrightarrow> \<not> live_command es pid"
  using live_command_found [of es pid "[]"] by (auto simp: quiet_scan_def)

lemma kill_rounds_quiet:
  assumes "kill_rounds env i c = Some (n, None)" and "c = 0 \<or> c = 1 \<and> (\<exists>j. i = Suc j \<and> quiet_scan env j)"
  obtains j where "n = Suc (Suc j)" "quiet_scan env j" "quiet_scan env (Suc j)" "ce_now env (Suc j) < ce_start env + 1000000000"
proof -
  have "\<exists>j. n = Suc (Suc j) \<and> quiet_scan env j \<and> quiet_scan env (Suc j) \<and> ce_now env (Suc j) < ce_start env + 1000000000"
    using assms
  proof (induction env i c "(n, None :: string option)" rule: kill_rounds.raw_induct [rotated, consumes 1, case_names 1])
    case (1 kr env i c)
    have "\<not> \<not> ce_now env i < ce_start env + 1000000000" using "1.hyps"(2) by (auto split: if_splits)
    then have now: "ce_now env i < ce_start env + 1000000000" by simp
    obtain pids where p: "command_pids (ce_proc env i) = Inr pids"
      using "1.hyps"(2) now by (cases "command_pids (ce_proc env i)") auto
    show ?case
    proof (cases "pids = []")
      case True
      then have q: "quiet_scan env i" using p by (simp add: quiet_scan_def)
      show ?thesis
      proof (cases "c = 0")
        case True
        then have "kr env (Suc i) 1 = Some (n, None)" using "1.hyps"(2) now p \<open>pids = []\<close> by simp
        from "1.hyps"(1) [OF this] q show ?thesis by simp
      next
        case False
        with "1.prems" obtain j where "c = 1" "i = Suc j" "quiet_scan env j" by blast
        with "1.hyps"(2) now p \<open>pids = []\<close> q show ?thesis by auto
      qed
    next
      case False
      then have "kr env (Suc i) 0 = Some (n, None)" using "1.hyps"(2) now p by (auto split: option.splits)
      from "1.hyps"(1) [OF this] show ?thesis by simp
    qed
  qed
  with that show thesis by blast
qed

text \<open>Each round sleeps, so the clock reaches the deadline.\<close>

lemma kill_rounds_end:
  assumes "\<forall>j. ce_now env j + 1000000 \<le> ce_now env (Suc j)" and "ce_start env + 1000000000 \<le> ce_now env i + 1000000 * int k"
  shows "\<exists>n r. kill_rounds env i c = Some (n, r) \<and> n \<le> i + k"
  using assms(2)
proof (induction k arbitrary: i c)
  case 0
  then show ?case by (simp add: kill_rounds.simps)
next
  case (Suc k)
  have "ce_now env i + 1000000 \<le> ce_now env (Suc i)" using assms(1) by blast
  with Suc.prems have next_i: "ce_start env + 1000000000 \<le> ce_now env (Suc i) + 1000000 * int k" by simp
  have more: "\<exists>n r. kill_rounds env (Suc i) d = Some (n, r) \<and> n \<le> i + Suc k" for d
    using Suc.IH [OF next_i, of d] by simp
  show ?case
    by (subst kill_rounds.simps) (use more in \<open>auto split: sum.split option.split\<close>)
qed

lemma kill_all_none: "\<forall>p e. k p \<noteq> Kill_Error e \<Longrightarrow> kill_all k ps = None"
  by (induction ps) (auto split: kill_result.split)

lemma kill_rounds_succeed:
  assumes "\<forall>j. \<exists>pids. command_pids (ce_proc env j) = Inr pids" and "\<forall>j p e. ce_kill env j p \<noteq> Kill_Error e"
    and "\<forall>j \<ge> k. quiet_scan env j" and "\<forall>j \<le> Suc k. ce_now env j < ce_start env + 1000000000"
    and "i \<le> k" and "c \<le> 1"
  shows "\<exists>n \<le> k + 2. kill_rounds env i c = Some (n, None)"
  using assms(5,6)
proof (induction "k - i" arbitrary: i c)
  case 0
  then have "i = k" by simp
  have q: "command_pids (ce_proc env k) = Inr []" "command_pids (ce_proc env (Suc k)) = Inr []"
    using assms(3) by (simp_all add: quiet_scan_def)
  have t: "ce_now env k < ce_start env + 1000000000" "ce_now env (Suc k) < ce_start env + 1000000000" using assms(4) by simp_all
  have "kill_rounds env (Suc k) 1 = Some (k + 2, None)" by (subst kill_rounds.simps) (simp add: q t)
  then have "kill_rounds env k c = Some (if c = 0 then k + 2 else k + 1, None)"
  proof (cases "c = 0")
    case True
    with \<open>kill_rounds env (Suc k) 1 = Some (k + 2, None)\<close> q t show ?thesis by (subst kill_rounds.simps) simp
  next
    case False
    with 0(3) q t show ?thesis by (subst kill_rounds.simps) simp
  qed
  with \<open>i = k\<close> show ?case by (cases "c = 0") auto
next
  case (Suc d)
  then have i: "Suc i \<le> k" "d = k - Suc i" by simp_all
  have more: "\<exists>n \<le> k + 2. kill_rounds env (Suc i) c' = Some (n, None)" if "c' \<le> 1" for c'
    by (rule Suc.hyps(1) [OF i(2,1) that])
  obtain pids where p: "command_pids (ce_proc env i) = Inr pids" using assms(1) by blast
  have t: "ce_now env i < ce_start env + 1000000000" using assms(4) i by simp
  have ka: "kill_all (ce_kill env i) pids = None" using assms(2) by (intro kill_all_none) simp
  show ?case
  proof (cases "pids = []")
    case True
    with more [of 1] i Suc.prems p t show ?thesis by (subst kill_rounds.simps) (auto simp: le_Suc_eq)
  next
    case False
    with more [of 0] p t ka show ?thesis by (subst kill_rounds.simps) auto
  qed
qed

lemma handle_exec_run:
  assumes "handle_exec env vars body t = Some (t', Exec_Answer resp)"
  obtains (Refused) "t' = t" "hr_status resp \<in> {400, 500}"
  | (Ran) command rn n where "decode_exec body = Some command" "command \<noteq> []" "xe_run env command vars t = (t', rn)"
      "kill_command_processes (xe_cleanup env) = Some (n, None)" "resp = exec_answer rn"
proof -
  have "(t' = t \<and> hr_status resp \<in> {400, 500}) \<or>
      (\<exists>command rn n. decode_exec body = Some command \<and> command \<noteq> [] \<and> xe_run env command vars t = (t', rn) \<and>
         kill_command_processes (xe_cleanup env) = Some (n, None) \<and> resp = exec_answer rn)"
    using assms by (auto simp: handle_exec_def split: option.splits prod.splits if_splits)
  with that show thesis by blast
qed

section \<open>Properties\<close>

text \<open>
  No answer before the cleanup. A request that ran a command is answered only after two scans of
  \<open>/proc\<close> in a row, the second before the deadline, which show no process of the command user alive. (Any
  other answer is a refusal, and nothing ran.) \<open>Process_Cleanup\<close> says what that means when processes come and
  go while \<open>/proc\<close> is read.
\<close>

theorem exec_answer_after_cleanup:
  assumes "handle_exec env vars body t = Some (t', Exec_Answer resp)"
  shows "(t' = t \<and> hr_status resp \<in> {400, 500}) \<or>
    (\<exists>command rn i es es'. decode_exec body = Some command \<and> xe_run env command vars t = (t', rn) \<and> resp = exec_answer rn \<and>
       ce_proc (xe_cleanup env) i = Inr es \<and> ce_proc (xe_cleanup env) (Suc i) = Inr es' \<and>
       (\<forall>pid. \<not> live_command es pid \<and> \<not> live_command es' pid) \<and>
       ce_now (xe_cleanup env) (Suc i) < ce_start (xe_cleanup env) + 1000000000)"
  using assms
proof (cases rule: handle_exec_run)
  case (Ran command rn n)
  obtain i where i: "quiet_scan (xe_cleanup env) i" "quiet_scan (xe_cleanup env) (Suc i)"
      "ce_now (xe_cleanup env) (Suc i) < ce_start (xe_cleanup env) + 1000000000"
    using kill_rounds_quiet [of "xe_cleanup env" 0 0 n] Ran(4) unfolding kill_command_processes_def by blast
  have scan: "\<exists>es. ce_proc (xe_cleanup env) j = Inr es \<and> (\<forall>pid. \<not> live_command es pid)" if "quiet_scan (xe_cleanup env) j" for j
    using that quiet_scan_no_command [OF that] by (cases "ce_proc (xe_cleanup env) j") (auto simp: quiet_scan_def command_pids_def)
  from scan [OF i(1)] scan [OF i(2)] i(3) Ran show ?thesis by blast
qed blast

text \<open>
  C33. The cleanup ends. A round sleeps a millisecond, so when the clock shows at least that between rounds,
  there are at most a thousand of them, whatever \<open>/proc\<close> shows: \<open>/exec\<close> is answered, or the executor dies.
\<close>

theorem cleanup_terminates:
  assumes "\<forall>j. ce_now (xe_cleanup env) j + 1000000 \<le> ce_now (xe_cleanup env) (Suc j)"
    and "ce_start (xe_cleanup env) \<le> ce_now (xe_cleanup env) 0"
  shows "(\<exists>n r. kill_command_processes (xe_cleanup env) = Some (n, r) \<and> n \<le> 1000) \<and>
    (\<exists>t' r. handle_exec env vars body t = Some (t', r))"
proof -
  have "\<exists>n r. kill_command_processes (xe_cleanup env) = Some (n, r) \<and> n \<le> 1000"
    using kill_rounds_end [OF assms(1), of 0 1000 0] assms(2) by (simp add: kill_command_processes_def)
  then obtain n r where k: "kill_command_processes (xe_cleanup env) = Some (n, r)" "n \<le> 1000" by blast
  then have "\<exists>t' r. handle_exec env vars body t = Some (t', r)"
    by (cases r) (auto simp: handle_exec_def split: option.split prod.split)
  with k show ?thesis by blast
qed

text \<open>
  C34. Killing is enough. If \<open>/proc\<close> can be read, \<open>kill\<close> never fails otherwise than by finding no process, and
  the killed processes are gone from some round on that is not too late, then \<open>/exec\<close> is answered.
\<close>

theorem cleanup_reaches_quiet:
  assumes "\<forall>j. \<exists>pids. command_pids (ce_proc (xe_cleanup env) j) = Inr pids"
    and "\<forall>j p e. ce_kill (xe_cleanup env) j p \<noteq> Kill_Error e"
    and "\<forall>j \<ge> k. command_pids (ce_proc (xe_cleanup env) j) = Inr []"
    and "\<forall>j \<le> Suc k. ce_now (xe_cleanup env) j < ce_start (xe_cleanup env) + 1000000000"
  shows "\<exists>t' resp. handle_exec env vars body t = Some (t', Exec_Answer resp)"
proof -
  have "\<exists>n \<le> k + 2. kill_command_processes (xe_cleanup env) = Some (n, None)"
    unfolding kill_command_processes_def
    by (rule kill_rounds_succeed [OF assms(1,2) _ assms(4)]) (use assms(3) in \<open>simp_all add: quiet_scan_def\<close>)
  then show ?thesis by (auto simp: handle_exec_def split: option.split prod.split)
qed

lemma unmarshal_is_decoded:
  assumes "json_unmarshal body \<noteq> None" and "decode_exec body = Some command"
  shows "unmarshal_field ''command'' body = command"
proof -
  obtain v where v: "json_unmarshal body = Some v" using assms(1) by blast
  from unmarshal_decode [OF v] assms(2) obtain ms where "struct_members v = Some ms" "command_field ms = Some command"
    by (auto simp: decode_exec_def bind_eq_Some_conv)
  with v show ?thesis by (simp add: unmarshal_field_def command_field_def split: if_splits)
qed

text \<open>
  What is recorded is what runs. When the api-server lets an \<open>/exec\<close> request pass whose body is one JSON
  value, the command the executor takes from the forwarded body is, letter for letter, the one of the
  \<open>exec.intent\<close> line that was appended to the log before. (\<open>trailing_data_hides_command\<close> is why the whole body
  has to be JSON.)
\<close>

theorem executed_command_recorded:
  assumes "proxy_begin H penv req srv = (srv', Inr fl)" and "fl_path fl = ''/exec''"
    and "json_unmarshal (fl_req_body fl) \<noteq> None" and "decode_exec (concat (st_chunks (fl_forward fl))) = Some command"
  shows "\<exists>e. read_entry (rec_raw (al_records (ts_log srv') ! length (al_records (ts_log srv)))) = Some e \<and>
    en_type e = ''exec.intent'' \<and> json_marshal (exec_intent_body (fl_exec_id fl) command) = Inr (en_body e)"
  using assms(1)
proof (cases rule: proxy_begin_flight)
  case (Exec l a)
  have c: "unmarshal_field ''command'' (fl_req_body fl) = command"
    using unmarshal_is_decoded [OF assms(3)] assms(4) Exec by simp
  have "json_plain (exec_intent_body i c)" for i c by (simp add: exec_intent_body_def)
  from admitted_entry [OF Exec(3) this] Exec c show ?thesis by auto
qed (use assms(2) in simp)

text \<open>The executor stops reading at the end of the first value, the api-server wants nothing after it.\<close>

definition trailing_body :: string where
  [go_eval]: "trailing_body = json_text (JObj [(''command'', JStr ''id'')]) @ '' x''"

lemma trailing_data_hides_command:
  "decode_exec trailing_body = Some ''id''" "unmarshal_field ''command'' trailing_body = []"
  by code_simp+

section \<open>A concrete run\<close>

definition proc_status :: "string \<Rightarrow> string \<Rightarrow> string" where
  [go_eval]: "proc_status state uid =
     ''Name:'' @ [CHR 0x09] @ ''sleep'' @ [CHR 0x0A] @ ''State:'' @ [CHR 0x09] @ state @ '' (x)'' @ [CHR 0x0A] @
     ''Uid:'' @ [CHR 0x09] @ uid @ [CHR 0x09] @ uid @ [CHR 0x0A]"

text \<open>A detached process is alive in the first round, a zombie in the second and gone then.\<close>

definition sample_proc :: "nat \<Rightarrow> proc_dir" where
  [go_eval]: "sample_proc i = [(''1'', Some (proc_status ''S'' ''1000'')), (''self'', None)] @
     (if i = 0 then [(''77'', Some (proc_status ''S'' ''1001''))]
      else if i = 1 then [(''77'', Some (proc_status ''Z'' ''1001''))] else [])"

definition sample_exec :: exec_env where
  [go_eval]: "sample_exec = \<lparr>xe_out_temp = None, xe_err_temp = None,
     xe_run = (\<lambda>command vars t. (t, \<lparr>rn_error = None, rn_timed_out = False, rn_out_seek = None, rn_out = Inr ''out'',
       rn_err_seek = None, rn_err = Inr []\<rparr>)),
     xe_cleanup = \<lparr>ce_start = 0, ce_now = (\<lambda>i. 1000000 * int i), ce_proc = (\<lambda>i. Inr (sample_proc i)), ce_kill = (\<lambda>_ _. Killed)\<rparr>\<rparr>"

definition sample_exec_body :: string where
  [go_eval]: "sample_exec_body = json_text (JObj [(''command'', JStr ''id'')])"

lemma sample_scans:
  "command_pids (Inr (sample_proc 0)) = Inr [77]" "command_pids (Inr (sample_proc (Suc 0))) = Inr []"
proof -
  show "command_pids (Inr (sample_proc 0)) = Inr [77]" by code_simp
  have "command_pids (Inr (sample_proc 1)) = Inr []" by code_simp
  then show "command_pids (Inr (sample_proc (Suc 0))) = Inr []" by simp
qed

lemma sample_scans_later: "command_pids (Inr (sample_proc (Suc i))) = Inr []"
proof (cases i)
  case (Suc j)
  have "command_pids (Inr (sample_proc 2)) = Inr []" by code_simp
  with Suc show ?thesis by (simp add: sample_proc_def)
qed (use sample_scans in simp)

lemma sample_cleanup:
  "ce_proc (xe_cleanup sample_exec) j = Inr (sample_proc j)" "ce_now (xe_cleanup sample_exec) j = 1000000 * int j"
  "ce_start (xe_cleanup sample_exec) = 0" "ce_kill (xe_cleanup sample_exec) j p = Killed"
  by (simp_all add: sample_exec_def)

theorem cleanup_reaches_quiet_witness:
  "\<exists>t' resp. handle_exec sample_exec [] sample_exec_body (Dir []) = Some (t', Exec_Answer resp)"
proof (rule cleanup_reaches_quiet [where k = 1])
  show "\<forall>j. \<exists>pids. command_pids (ce_proc (xe_cleanup sample_exec) j) = Inr pids"
  proof
    fix j
    show "\<exists>pids. command_pids (ce_proc (xe_cleanup sample_exec) j) = Inr pids"
      unfolding sample_cleanup using sample_scans(1) sample_scans_later by (cases j) blast+
  qed
  show "\<forall>j \<ge> 1. command_pids (ce_proc (xe_cleanup sample_exec) j) = Inr []"
  proof (intro allI impI)
    fix j :: nat
    assume "1 \<le> j"
    then obtain i where "j = Suc i" by (cases j) simp_all
    then show "command_pids (ce_proc (xe_cleanup sample_exec) j) = Inr []" by (simp only: sample_cleanup sample_scans_later)
  qed
  show "\<forall>j p e. ce_kill (xe_cleanup sample_exec) j p \<noteq> Kill_Error e" by (simp add: sample_cleanup)
  show "\<forall>j \<le> Suc 1. ce_now (xe_cleanup sample_exec) j < ce_start (xe_cleanup sample_exec) + 1000000000"
    by (simp add: sample_cleanup)
qed

theorem cleanup_terminates_witness:
  "\<exists>n r. kill_command_processes (xe_cleanup sample_exec) = Some (n, r) \<and> n \<le> 1000"
  using cleanup_terminates [of sample_exec "[]" sample_exec_body "Dir []"] by (simp add: sample_cleanup)

lemma sample_exec_run:
  "handle_exec sample_exec [] sample_exec_body (Dir []) =
     Some (Dir [], Exec_Answer (respond_json 200 (exec_response ''out'' [] 0)))"
proof -
  have d: "decode_exec sample_exec_body = Some ''id''" by code_simp
  have "kill_command_processes (xe_cleanup sample_exec) = Some (3, None)"
    unfolding kill_command_processes_def
    by (subst kill_rounds.simps, simp add: sample_cleanup sample_scans,
        subst kill_rounds.simps, simp add: sample_cleanup sample_scans_later,
        subst kill_rounds.simps, simp add: sample_cleanup sample_scans_later)
  then show ?thesis
    by (simp add: handle_exec_def d exec_answer_def read_capture_def) (simp add: sample_exec_def exec_answer_def read_capture_def)
qed

theorem exec_answer_after_cleanup_witness:
  "\<exists>i es. ce_proc (xe_cleanup sample_exec) (Suc i) = Inr es \<and> \<not> live_command es 77"
proof -
  have "hr_status (respond_json 200 (exec_response ''out'' [] 0)) \<notin> {400, 500}" by simp
  with exec_answer_after_cleanup [OF sample_exec_run] show ?thesis by blast
qed

theorem executed_command_recorded_witness:
  "\<exists>srv fl e. proxy_begin (\<lambda>x. ''h'') sample_begin sample_request sample_server = (srv, Inr fl) \<and>
     read_entry (rec_raw (al_records (ts_log srv) ! length (al_records (ts_log sample_server)))) = Some e \<and>
     json_marshal (exec_intent_body (fl_exec_id fl) ''id'') = Inr (en_body e)"
proof -
  obtain srv fl where f: "proxy_begin (\<lambda>x. ''h'') sample_begin sample_request sample_server = (srv, Inr fl)"
      "fl_path fl = ''/exec''" "fl_req_body fl = concat (st_chunks (tr_body sample_request))" by (rule sample_begin_flight)
  have w: "concat (st_chunks (fl_forward fl)) = fl_req_body fl"
    using f(1) by (cases rule: proxy_begin_flight) (use f(2) in simp_all)
  have "json_unmarshal (fl_req_body fl) \<noteq> None" unfolding f(3) by code_simp
  moreover have "decode_exec (concat (st_chunks (fl_forward fl))) = Some ''id''" unfolding w f(3) by code_simp
  ultimately show ?thesis using executed_command_recorded [OF f(1,2)] f(1) by blast
qed

end
