(* ===== verification/Process_Cleanup.thy ===== *)
theory Process_Cleanup imports Executor_Exec begin

text \<open>
  The cleanup of \<open>/exec\<close> against a process table that does not stand still: \<open>commandPIDs\<close> of
  \<open>executor/main.go\<close> lists \<open>/proc\<close> first and reads the status of each entry later, one after the
  other, while processes fork and exit. \<open>Executor_Exec\<close> says what two quiet scans show; here is what
  they imply of the processes, and what they do not.
\<close>

section \<open>Processes over time, and a scan of them\<close>

text \<open>The status text of every process there is, at every moment.\<close>

type_synonym proc_table = "int \<Rightarrow> string option"

definition alive_command :: "proc_table \<Rightarrow> int \<Rightarrow> bool" where
  "alive_command pt pid \<longleftrightarrow> (\<exists>s u z. pt pid = Some s \<and> shows_field s ''Uid:'' u \<and> shows_field s ''State:'' z \<and>
     parse_uint32 u = Some bash_uid \<and> z \<noteq> ''Z'')"

text \<open>Reading the entries of a listing from moment \<open>t\<close> on, one moment each; a process that is gone has no status.\<close>

fun scan_entries :: "(nat \<Rightarrow> proc_table) \<Rightarrow> nat \<Rightarrow> string list \<Rightarrow> proc_dir" where
  "scan_entries pt t [] = []"
| "scan_entries pt t (name # names) = (name, Option.bind (atoi name) (pt t)) # scan_entries pt (Suc t) names"

text \<open>A listing shows every process of its moment (and entries that are no processes).\<close>

definition lists_processes :: "proc_table \<Rightarrow> string list \<Rightarrow> bool" where
  "lists_processes tab names \<longleftrightarrow> (\<forall>pid. tab pid \<noteq> None \<longrightarrow> (\<exists>name \<in> set names. atoi name = Some pid))"

text \<open>What the rounds of the loop find in \<open>/proc\<close> when round \<open>i\<close> lists \<open>names i\<close> at moment \<open>start i\<close>.\<close>

definition scans_table :: "cleanup_env \<Rightarrow> (nat \<Rightarrow> proc_table) \<Rightarrow> (nat \<Rightarrow> nat) \<Rightarrow> (nat \<Rightarrow> string list) \<Rightarrow> bool" where
  "scans_table env pt start names \<longleftrightarrow> (\<forall>i es. ce_proc env i = Inr es \<longrightarrow>
     lists_processes (pt (start i)) (names i) \<and> es = scan_entries pt (Suc (start i)) (names i) \<and>
     start i + length (names i) < start (Suc i))"

text \<open>The handler holds \<open>execMu\<close>, so no new command starts: a command process has a command process as its parent.\<close>

definition forked_only :: "(nat \<Rightarrow> proc_table) \<Rightarrow> bool" where
  "forked_only pt \<longleftrightarrow> (\<forall>t pid. alive_command (pt (Suc t)) pid \<longrightarrow> (\<exists>parent. alive_command (pt t) parent))"

lemma extinct_for_good:
  assumes "forked_only pt" and "\<And>pid. \<not> alive_command (pt t) pid" and "t \<le> u"
  shows "\<not> alive_command (pt u) pid"
  using assms(3)
proof (induction u arbitrary: pid rule: dec_induct)
  case base
  show ?case by (rule assms(2))
next
  case (step u)
  then show ?case using assms(1) by (auto simp: forked_only_def)
qed

lemma scan_entries_nth:
  "j < length names \<Longrightarrow> scan_entries pt t names ! j = (names ! j, Option.bind (atoi (names ! j)) (pt (t + j)))"
proof (induction names arbitrary: t j)
  case (Cons name names)
  then show ?case by (cases j) simp_all
qed simp

lemma length_scan_entries [simp]: "length (scan_entries pt t names) = length names"
  by (induction names arbitrary: t) simp_all

text \<open>A process that is still there when its status is read is found.\<close>

lemma scan_finds_settled:
  assumes "j < length names" and "atoi (names ! j) = Some pid" and "alive_command (pt (t + j)) pid"
  shows "live_command (scan_entries pt t names) pid"
proof -
  obtain s u z where s: "pt (t + j) pid = Some s" "shows_field s ''Uid:'' u" "shows_field s ''State:'' z"
      "parse_uint32 u = Some bash_uid" "z \<noteq> ''Z''"
    using assms(3) unfolding alive_command_def by blast
  have "(names ! j, Some s) \<in> set (scan_entries pt t names)"
    using nth_mem [of j "scan_entries pt t names"] assms(1,2) s(1) by (simp add: scan_entries_nth)
  with s assms(2) show ?thesis unfolding live_command_def by blast
qed

text \<open>
  A quiet scan: every process alive at the listing is gone by the time its own entry is read.
\<close>

lemma quiet_scan_vanished:
  assumes "command_pids (Inr (scan_entries pt (Suc t) names)) = Inr []" and "lists_processes (pt t) names"
    and "alive_command (pt t) pid"
  shows "\<exists>u \<in> {t<..t + length names}. \<not> alive_command (pt u) pid"
proof -
  have "pt t pid \<noteq> None" using assms(3) by (auto simp: alive_command_def)
  then obtain j where j: "j < length names" "atoi (names ! j) = Some pid"
    using assms(2) unfolding lists_processes_def by (metis in_set_conv_nth)
  have "\<not> alive_command (pt (Suc t + j)) pid"
    using scan_finds_settled [OF j, of pt "Suc t"] live_command_found [OF _ assms(1)] by auto
  with j(1) show ?thesis by (intro bexI [of _ "Suc t + j"]) auto
qed

section \<open>Properties\<close>

text \<open>
  C11. What the answer says of the processes, whatever they do meanwhile: each of the two scans before
  a 200 either found the user of commands without a live process, and then it has none for good, or
  every process that was alive at its listing had exited before its own status was read.
\<close>

theorem answered_exec_left_nothing_settled:
  assumes "handle_exec env vars body t = Some (t', Exec_Answer resp)" and "hr_status resp = 200"
    and "scans_table (xe_cleanup env) pt start names" and "forked_only pt"
  shows "\<exists>i. \<forall>j \<in> {i, Suc i}.
    (\<forall>u \<ge> start j. \<forall>pid. \<not> alive_command (pt u) pid) \<or>
    (\<forall>pid. alive_command (pt (start j)) pid \<longrightarrow>
       (\<exists>u \<in> {start j<..start j + length (names j)}. \<not> alive_command (pt u) pid)) \<and>
    (\<exists>pid. alive_command (pt (start j)) pid)"
  using assms(1)
proof (cases rule: handle_exec_run)
  case (Ran command rn n)
  obtain i where i: "quiet_scan (xe_cleanup env) i" "quiet_scan (xe_cleanup env) (Suc i)"
    using kill_rounds_quiet [of "xe_cleanup env" 0 0 n] Ran(4) unfolding kill_command_processes_def by blast
  have scan: "(\<forall>u \<ge> start j. \<forall>pid. \<not> alive_command (pt u) pid) \<or>
    (\<forall>pid. alive_command (pt (start j)) pid \<longrightarrow>
       (\<exists>u \<in> {start j<..start j + length (names j)}. \<not> alive_command (pt u) pid)) \<and>
    (\<exists>pid. alive_command (pt (start j)) pid)" if q: "quiet_scan (xe_cleanup env) j" for j
  proof -
    obtain es where es: "ce_proc (xe_cleanup env) j = Inr es" "command_pids (Inr es) = Inr []"
      using q by (cases "ce_proc (xe_cleanup env) j") (auto simp: quiet_scan_def command_pids_def)
    with assms(3) have l: "lists_processes (pt (start j)) (names j)" "es = scan_entries pt (Suc (start j)) (names j)"
      by (auto simp: scans_table_def)
    show ?thesis
      using extinct_for_good [OF assms(4), of "start j"] quiet_scan_vanished [OF es(2) [unfolded l(2)] l(1)] by blast
  qed
  from scan [OF i(1)] scan [OF i(2)] show ?thesis by blast
qed (use assms(2) in auto)

section \<open>Concrete tables\<close>

abbreviation sleeping :: string where
  "sleeping \<equiv> proc_status ''S'' ''1001''"

lemma shows_fieldI:
  assumes "list_ex (\<lambda>l. take 2 (space_fields l) = [key, v]) (split_byte (CHR 0x0A) s)"
    and "list_all (\<lambda>l. case take 2 (space_fields l) of [k, w] \<Rightarrow> k \<noteq> key \<or> w = v | _ \<Rightarrow> True) (split_byte (CHR 0x0A) s)"
  shows "shows_field s key v"
  using assms by (fastforce simp: shows_field_def list_ex_iff list_all_iff)

lemma sleeping_alive:
  assumes "pt pid = Some sleeping"
  shows "alive_command pt pid"
proof -
  have "shows_field sleeping ''Uid:'' ''1001''" by (rule shows_fieldI; code_simp)
  moreover have "shows_field sleeping ''State:'' ''S''" by (rule shows_fieldI; code_simp)
  moreover have "parse_uint32 ''1001'' = Some bash_uid" by code_simp
  moreover have "''S'' \<noteq> ''Z''" by simp
  ultimately show ?thesis using assms unfolding alive_command_def by blast
qed

lemma sleeping_found: "command_pids (Inr [(''77'', Some sleeping)]) = Inr [77]"
  by code_simp

lemma no_status: "entry_pids (name, None) = []"
  by (simp add: entry_pids_def split: option.split)

text \<open>
  A process that sleeps until it is killed, and a chain in which each process forks the next and
  exits. Process ids wrap around, as the kernel's do.
\<close>

definition killed_table :: "nat \<Rightarrow> proc_table" where
  "killed_table t = (if t < 3 then [77 \<mapsto> sleeping] else Map.empty)"

definition chain_pid :: "nat \<Rightarrow> nat" where
  "chain_pid t = 300 + t mod 32000"

definition fork_chain :: "nat \<Rightarrow> proc_table" where
  "fork_chain t = [int (chain_pid t) \<mapsto> sleeping]"

text \<open>The rest of \<open>/exec\<close> as in the earlier sample: the command exits with 0 and has printed \<open>out\<close>.\<close>

definition scanned_exec :: "(nat \<Rightarrow> proc_table) \<Rightarrow> (nat \<Rightarrow> nat) \<Rightarrow> (nat \<Rightarrow> string list) \<Rightarrow> exec_env" where
  "scanned_exec pt start names = sample_exec\<lparr>xe_cleanup := \<lparr>ce_start = 0, ce_now = (\<lambda>i. 1000000 * int i),
     ce_proc = (\<lambda>i. Inr (scan_entries pt (Suc (start i)) (names i))), ce_kill = (\<lambda>_ _. Killed)\<rparr>\<rparr>"

definition chain_names :: "nat \<Rightarrow> string list" where
  "chain_names i = [nat_digits (chain_pid (2 * i))]"

definition chain_exec :: exec_env where
  "chain_exec = scanned_exec fork_chain ((*) 2) chain_names"

definition killed_exec :: exec_env where
  "killed_exec = scanned_exec killed_table ((*) 3) (\<lambda>_. [''77''])"

lemma scanned_exec_answer:
  assumes "kill_command_processes (xe_cleanup (scanned_exec pt start names)) = Some (n, None)"
  shows "handle_exec (scanned_exec pt start names) [] sample_exec_body (Dir []) =
    Some (Dir [], Exec_Answer (respond_json 200 (exec_response ''out'' [] 0)))"
proof -
  have d: "decode_exec sample_exec_body = Some ''id''" by code_simp
  have "handle_exec (scanned_exec pt start names) [] sample_exec_body (Dir []) =
      Some (Dir [], Exec_Answer (exec_answer (snd (xe_run sample_exec ''id'' [] (Dir [])))))"
    using assms by (simp add: handle_exec_def d) (simp add: scanned_exec_def sample_exec_def)
  then show ?thesis by (simp add: sample_exec_def exec_answer_def read_capture_def)
qed

lemma atoi_nat_digits: "int n < 2 ^ 63 \<Longrightarrow> atoi (nat_digits n) = Some (int n)"
proof -
  assume n: "int n < 2 ^ 63"
  have d: "\<forall>c \<in> set (nat_digits n). is_digit c" by (rule nat_digits_digits)
  then have "\<not> prefix ''-'' (nat_digits n)" "\<not> prefix ''+'' (nat_digits n)"
    by (auto simp: prefix_def is_digit_def)
  with n d show ?thesis by (simp add: atoi_def list_all_iff)
qed

lemma chain_pid_next: "chain_pid (Suc t) \<noteq> chain_pid t"
  by (simp add: chain_pid_def mod_Suc)

lemma chain_scan_quiet:
  "command_pids (Inr (scan_entries fork_chain (Suc t) [nat_digits (chain_pid t)])) = Inr []"
  using chain_pid_next [of t] no_status [of "nat_digits (chain_pid t)"]
  by (simp add: command_pids_def atoi_nat_digits fork_chain_def chain_pid_def)

lemma chain_alive: "alive_command (fork_chain t) (int (chain_pid t))"
  by (rule sleeping_alive) (simp add: fork_chain_def)

text \<open>
  The scans can be outrun. A command that keeps forking and exiting between the listing of
  \<open>/proc\<close> and the reading of its status is seen by neither of the two scans: \<open>/exec\<close> answers 200 at
  once, though a process of the command user is alive at every moment, then and ever after.
\<close>

theorem fork_chain_outruns_cleanup:
  "handle_exec chain_exec [] sample_exec_body (Dir []) =
     Some (Dir [], Exec_Answer (respond_json 200 (exec_response ''out'' [] 0))) \<and>
   scans_table (xe_cleanup chain_exec) fork_chain ((*) 2) chain_names \<and> forked_only fork_chain \<and>
   (\<forall>t. \<exists>pid. alive_command (fork_chain t) pid)"
proof -
  have quiet: "command_pids (ce_proc (xe_cleanup chain_exec) i) = Inr []" for i
    using chain_scan_quiet [of "2 * i"] by (simp add: chain_exec_def scanned_exec_def chain_names_def)
  have clock: "ce_start (xe_cleanup chain_exec) = 0" "ce_now (xe_cleanup chain_exec) i = 1000000 * int i" for i
    by (simp_all add: chain_exec_def scanned_exec_def)
  have "kill_command_processes (xe_cleanup chain_exec) = Some (2, None)"
    unfolding kill_command_processes_def
    by (subst kill_rounds.simps, simp add: quiet clock, subst kill_rounds.simps, simp add: quiet clock)
  then have "handle_exec chain_exec [] sample_exec_body (Dir []) =
      Some (Dir [], Exec_Answer (respond_json 200 (exec_response ''out'' [] 0)))"
    unfolding chain_exec_def by (rule scanned_exec_answer)
  moreover have "scans_table (xe_cleanup chain_exec) fork_chain ((*) 2) chain_names"
    by (auto simp: scans_table_def chain_exec_def scanned_exec_def lists_processes_def chain_names_def fork_chain_def
        atoi_nat_digits chain_pid_def)
  moreover have "forked_only fork_chain" unfolding forked_only_def using chain_alive by blast
  ultimately show ?thesis using chain_alive by blast
qed

theorem answered_exec_left_nothing_settled_witness:
  "\<exists>i. handle_exec killed_exec [] sample_exec_body (Dir []) =
       Some (Dir [], Exec_Answer (respond_json 200 (exec_response ''out'' [] 0))) \<and>
     \<not> alive_command (killed_table (3 * Suc i)) 77 \<and> 0 < i"
proof -
  have pid: "atoi ''77'' = Some 77" by code_simp
  have first: "command_pids (ce_proc (xe_cleanup killed_exec) 0) = Inr [77]"
    using sleeping_found by (simp add: killed_exec_def scanned_exec_def pid killed_table_def)
  have later: "command_pids (ce_proc (xe_cleanup killed_exec) (Suc i)) = Inr []" for i
    using no_status [of "''77''"] by (simp add: killed_exec_def scanned_exec_def pid killed_table_def command_pids_def)
  have clock: "ce_start (xe_cleanup killed_exec) = 0" "ce_now (xe_cleanup killed_exec) i = 1000000 * int i" "ce_kill (xe_cleanup killed_exec) i p = Killed" for i p
    by (simp_all add: killed_exec_def scanned_exec_def)
  have "kill_command_processes (xe_cleanup killed_exec) = Some (3, None)"
    unfolding kill_command_processes_def
    by (subst kill_rounds.simps, simp add: first clock, subst kill_rounds.simps, simp add: later clock,
        subst kill_rounds.simps, simp add: later clock)
  then have ans: "handle_exec killed_exec [] sample_exec_body (Dir []) =
      Some (Dir [], Exec_Answer (respond_json 200 (exec_response ''out'' [] 0)))"
    unfolding killed_exec_def by (rule scanned_exec_answer)
  have table: "scans_table (xe_cleanup killed_exec) killed_table ((*) 3) (\<lambda>_. [''77''])"
    using pid by (auto simp: scans_table_def killed_exec_def scanned_exec_def lists_processes_def killed_table_def)
  have alive: "alive_command (killed_table t) p \<longleftrightarrow> t < 3 \<and> p = 77" for t p
    using sleeping_alive [of "killed_table t" 77] by (auto simp: killed_table_def alive_command_def)
  have forks: "forked_only killed_table" by (auto simp: forked_only_def alive)
  have ok: "hr_status (respond_json 200 (exec_response ''out'' [] 0)) = 200" by (simp add: respond_json_def)
  from answered_exec_left_nothing_settled [OF ans ok table forks] obtain i where
    "(\<forall>u \<ge> 3 * i. \<forall>pid. \<not> alive_command (killed_table u) pid) \<or>
     (\<forall>pid. alive_command (killed_table (3 * i)) pid \<longrightarrow>
       (\<exists>u \<in> {3 * i<..3 * i + length [''77'']}. \<not> alive_command (killed_table u) pid))"
    by blast
  then have "0 < i" by (cases i) (auto simp: alive dest: spec [of _ 0])
  with ans show ?thesis by (auto simp: alive)
qed

end
