(* ===== verification/Snapshot.thy ===== *)
theory Snapshot imports Executor_Files "HOL-Library.List_Lexorder" "HOL-Library.Char_ord" begin

text \<open>
  \<open>/snapshot\<close> and \<open>/restore\<close> of the executor, \<open>executor/snapshot.go\<close>: the workspace as a tar stream of
  its regular files and directories, and back. The tar format is Go's \<open>archive/tar\<close>, an argument:
  the bytes of one entry, the end of an archive, and reading one. A file read back carries the error
  that cut its data short, if there was one. Both handlers run while nothing else touches the tree.
\<close>

section \<open>Archives\<close>

datatype tar_type = Type_Dir | Type_Reg | Type_Other

record tar_entry =
  te_type :: tar_type
  te_name :: string
  te_data :: string
  te_fault :: "string option"

record tar_lib =
  tl_entry :: "tar_entry \<Rightarrow> string"
  tl_close :: string
  tl_read :: "string \<Rightarrow> tar_entry list \<times> string option"

section \<open>Writing an archive\<close>

text \<open>\<open>fs.WalkDir\<close>: every node but the root, directories before their entries, entries in name order.\<close>

lemma child_size: "(x, m) \<in> set es \<Longrightarrow> size m < Suc (size_list (size_prod (\<lambda>_. 0) size) es)"
proof -
  assume "(x, m) \<in> set es"
  then have "size_prod (\<lambda>_. 0) size (x, m) \<le> size_list (size_prod (\<lambda>_. 0) size) es"
    by (intro size_list_estimation' [where x = "(x, m)"]) simp_all
  then show ?thesis by simp
qed

function walk_tree :: "string list \<Rightarrow> node \<Rightarrow> (string list \<times> node) list" where
  "walk_tree p (Dir es) =
     concat (map (\<lambda>(x, m). (p @ [x], shape m) # walk_tree (p @ [x]) m) (sort_key fst es))"
| "walk_tree p (Reg d) = []"
| "walk_tree p (Link l) = []"
| "walk_tree p Special = []"
  by pat_completeness auto

termination
  by (relation "measure (\<lambda>(p, n). size n)") (auto intro: child_size)

definition tar_of :: "string list \<times> node \<Rightarrow> tar_entry list" where
  [go_eval]: "tar_of pn =
     (case snd pn of
        Dir _ \<Rightarrow> [\<lparr>te_type = Type_Dir, te_name = path_join (fst pn) @ ''/'', te_data = [], te_fault = None\<rparr>]
      | Reg d \<Rightarrow> [\<lparr>te_type = Type_Reg, te_name = path_join (fst pn), te_data = d, te_fault = None\<rparr>]
      | _ \<Rightarrow> [])"

definition tar_entries :: "node \<Rightarrow> tar_entry list" where
  [go_eval]: "tar_entries t = concat (map tar_of (walk_tree [] t))"

text \<open>A fault comes at some entry, of which some bytes may be out: what has been written, and the error.\<close>

definition tar_workspace :: "tar_lib \<Rightarrow> (nat \<times> string \<times> string) option \<Rightarrow> node \<Rightarrow> string \<times> string option" where
  [go_eval]: "tar_workspace lib fault t =
     (case fault of
        None \<Rightarrow> (concat (map (tl_entry lib) (tar_entries t)) @ tl_close lib, None)
      | Some (n, part, e) \<Rightarrow> (concat (map (tl_entry lib) (take n (tar_entries t))) @ part, Some e))"

text \<open>A base64 stream that is not closed has only its whole groups out.\<close>

definition b64_stream :: "string \<Rightarrow> string" where
  [go_eval]: "b64_stream s = b64_encode (take (3 * (length s div 3)) s)"

text \<open>The body, and the trailer \<open>X-Snapshot-Status\<close>.\<close>

definition handle_snapshot :: "tar_lib \<Rightarrow> (nat \<times> string \<times> string) option \<Rightarrow> bool \<Rightarrow> node \<Rightarrow> string \<times> string" where
  [go_eval]: "handle_snapshot lib fault close_ok t =
     (let start = ''{'' @ json_quote ''tar'' @ '':'' @ [CHR 0x22] in
      case tar_workspace lib fault t of
        (b, Some _) \<Rightarrow> (start @ b64_stream b, [])
      | (b, None) \<Rightarrow>
          if \<not> close_ok then (start @ b64_stream b, [])
          else (start @ b64_encode b @ [CHR 0x22] @ ''}'', ''ok''))"

section \<open>Reading one\<close>

text \<open>The environment of every operation in turn; the faults differ from one to the next.\<close>

fun clear_names :: "(nat \<Rightarrow> root_env) \<Rightarrow> nat \<Rightarrow> string list \<Rightarrow> node \<Rightarrow> node \<times> io_err option" where
  "clear_names envs i [] t = (t, None)"
| "clear_names envs i (x # xs) t =
     (case root_remove_all (envs i) t x of
        (t', Some e) \<Rightarrow> (t', Some e)
      | (t', None) \<Rightarrow> clear_names envs (Suc i) xs t')"

fun child_names :: "node \<Rightarrow> string list" where
  "child_names (Dir es) = map fst es"
| "child_names n = []"

definition clear_root :: "(nat \<Rightarrow> root_env) \<Rightarrow> string option \<Rightarrow> node \<Rightarrow> node \<times> io_err option" where
  [go_eval]: "clear_root envs list_err t =
     (case list_err of
        Some e \<Rightarrow> (t, Some (Fault e))
      | None \<Rightarrow> clear_names envs 0 (child_names t) t)"

definition untar_entry :: "root_env \<Rightarrow> tar_entry \<Rightarrow> node \<Rightarrow> node \<times> io_err option" where
  [go_eval]: "untar_entry env e t =
     (case te_type e of
        Type_Dir \<Rightarrow> root_mkdir_all env t (te_name e)
      | Type_Reg \<Rightarrow>
          (case root_mkdir_all env t (path_dir (te_name e)) of
             (t1, Some err) \<Rightarrow> (t1, Some err)
           | (t1, None) \<Rightarrow>
               (case root_write_file env t1 (te_name e) (te_data e) of
                  (t2, Some err) \<Rightarrow> (t2, Some err)
                | (t2, None) \<Rightarrow> (t2, map_option Fault (te_fault e))))
      | Type_Other \<Rightarrow> (t, None))"

fun untar_entries :: "(nat \<Rightarrow> root_env) \<Rightarrow> nat \<Rightarrow> tar_entry list \<Rightarrow> node \<Rightarrow> node \<times> io_err option" where
  "untar_entries envs i [] t = (t, None)"
| "untar_entries envs i (e # es) t =
     (case untar_entry (envs i) e t of
        (t', Some err) \<Rightarrow> (t', Some err)
      | (t', None) \<Rightarrow> untar_entries envs (Suc i) es t')"

definition untar_into :: "tar_lib \<Rightarrow> (nat \<Rightarrow> root_env) \<Rightarrow> string \<Rightarrow> node \<Rightarrow> node \<times> io_err option" where
  [go_eval]: "untar_into lib envs data t =
     (case tl_read lib data of
        (es, err) \<Rightarrow>
          (case untar_entries envs 0 es t of
             (t', Some e) \<Rightarrow> (t', Some e)
           | (t', None) \<Rightarrow> (t', map_option Fault err)))"

record restore_env =
  rv_lib :: tar_lib
  rv_clear :: "nat \<Rightarrow> root_env"
  rv_untar :: "nat \<Rightarrow> root_env"
  rv_list_err :: "string option"
  rv_files :: file_env

definition restore_into :: "restore_env \<Rightarrow> string \<Rightarrow> node \<Rightarrow> node \<times> io_err option" where
  [go_eval]: "restore_into env data t =
     (case clear_root (rv_clear env) (rv_list_err env) t of
        (t', Some e) \<Rightarrow> (t', Some e)
      | (t', None) \<Rightarrow> untar_into (rv_lib env) (rv_untar env) data t')"

definition tar_field :: "(string \<times> jval \<times> string) list \<Rightarrow> string option" where
  [go_eval]: "tar_field ms = (if string_field_ok ''tar'' ms then Some (string_field ''tar'' ms) else None)"

definition decode_restore :: "string \<Rightarrow> string option" where
  [go_eval]: "decode_restore body =
     Option.bind (Option.bind (json_decode (take max_request_bytes body)) struct_members) tar_field"

definition restore_response :: json where
  [go_eval]: "restore_response = JObj [(''status'', JStr ''ok'')]"

definition handle_restore :: "restore_env \<Rightarrow> string \<Rightarrow> node \<Rightarrow> node \<times> http_response" where
  [go_eval]: "handle_restore env body t =
     (case decode_restore body of
        None \<Rightarrow> (t, decode_refusal (rv_files env) body)
      | Some tar \<Rightarrow>
          if tar = [] then (t, respond_error 400 ''tar is required'')
          else
            (case b64_decode tar of
               None \<Rightarrow> (t, respond_error 400 ''tar is not valid base64'')
             | Some data \<Rightarrow>
                 (case restore_into env data t of
                    (t', Some e) \<Rightarrow> (t', respond_error 500 (fv_text (rv_files env) e))
                  | (t', None) \<Rightarrow> (t', respond_json 200 restore_response))))"

section \<open>Lemmas\<close>

text \<open>A tree as a file system has it: directories with distinct names that are plain and without a zero byte.\<close>

fun tree_ok :: "node \<Rightarrow> bool" where
  "tree_ok (Dir es) \<longleftrightarrow> distinct (map fst es) \<and> list_all (\<lambda>e. plain_name (fst e) \<and> CHR 0x00 \<notin> set (fst e) \<and> tree_ok (snd e)) es"
| "tree_ok n \<longleftrightarrow> True"

text \<open>What a snapshot keeps: files and directories, no links and no special files.\<close>

fun kept :: "node option \<Rightarrow> node option" where
  "kept (Some (Reg d)) = Some (Reg d)"
| "kept (Some (Dir es)) = Some (Dir es)"
| "kept n = None"

definition fault_free :: "root_env \<Rightarrow> bool" where
  [go_eval]: "fault_free env \<longleftrightarrow> re_mkdir_fault env = None \<and> re_write_fault env = None \<and> re_remove_fault env = None"

lemma untar_append:
  assumes "untar_entries envs i as t = (t', None)"
  shows "untar_entries envs i (as @ bs) t = untar_entries envs (i + length as) bs t'"
  using assms by (induction as arbitrary: i t) (auto split: prod.splits option.splits)

lemma kept_simps [simp]:
  "kept (look t p) = Some (Dir []) \<longleftrightarrow> look t p = Some (Dir [])"
  by (cases rule: look_cases [of t p]) simp_all

lemma untar_dir:
  assumes "fault_free env" and "list_all plain_name (p @ [x])" and "look t p = Some (Dir [])" and "look t (p @ [x]) = None"
  obtains t' where "untar_entry env \<lparr>te_type = Type_Dir, te_name = path_join (p @ [x]) @ ''/'', te_data = [], te_fault = None\<rparr> t = (t', None)"
    "look t' = (look t)(p @ [x] \<mapsto> Dir [])"
proof -
  have r: "root_parts (path_join (p @ [x]) @ ''/'') = Inr ((p @ [x]) @ [''.''])"
    using assms(2) by (intro root_parts_dir) simp_all
  have "mkdir_walk k t [] ((p @ [x]) @ [''.'']) = mkdir_walk k t p [x, ''.'']" for k
    using mkdir_walk_plain [of p t "[]" k "[x, ''.'']"] assms(2,3) by simp
  then have m: "root_mkdir_all env t (path_join (p @ [x]) @ ''/'') = (put_node (p @ [x]) (Dir []) t, None)"
    using assms(1,2,4) r by (simp add: root_mkdir_all_def fault_free_def mkdir_walk_Cons plain_name_dots)
  have "look (put_node (p @ [x]) (Dir []) t) = (look t)(p @ [x] \<mapsto> Dir [])"
    using assms(3,4) by (intro look_put_leaf) simp_all
  with m that show thesis by (simp add: untar_entry_def)
qed

lemma untar_file:
  assumes "fault_free env" and "list_all plain_name (p @ [x])" and "look t p = Some (Dir [])" and "look t (p @ [x]) = None"
  obtains t' where "untar_entry env \<lparr>te_type = Type_Reg, te_name = path_join (p @ [x]), te_data = d, te_fault = None\<rparr> t = (t', None)"
    "look t' = (look t)(p @ [x] \<mapsto> Reg d)"
proof -
  obtain t' where t': "root_write_file env t (path_join (p @ [x])) d = (t', None)" "look t' = (look t)(p @ [x] \<mapsto> Reg d)"
    using write_plain [of env p x t _ d] assms by (auto simp: fault_free_def)
  have "root_mkdir_all env t (path_dir (path_join (p @ [x]))) = (t, None)"
    using assms by (intro mkdir_parent) (simp_all add: fault_free_def)
  with t' that show thesis by (simp add: untar_entry_def)
qed

definition child_entries :: "string list \<Rightarrow> string \<times> node \<Rightarrow> tar_entry list" where
  "child_entries p c = concat (map tar_of ((p @ [fst c], shape (snd c)) # walk_tree (p @ [fst c]) (snd c)))"

text \<open>Unpacking the entries below a path gives what the tree shows there, and nothing else changes.\<close>

definition unpacks :: "(nat \<Rightarrow> root_env) \<Rightarrow> string list \<Rightarrow> node \<Rightarrow> bool" where
  "unpacks envs p n \<longleftrightarrow> (\<forall>i t. look t p = Some (Dir []) \<and> (\<forall>x q. look t (p @ x # q) = None) \<longrightarrow>
     (\<exists>t'. untar_entries envs i (concat (map tar_of (walk_tree p n))) t = (t', None) \<and>
        (\<forall>x q. look t' (p @ x # q) = kept (look n (x # q))) \<and> look t' p = Some (Dir []) \<and>
        (\<forall>r. \<not> prefix p r \<longrightarrow> look t' r = look t r)))"

lemma kept_leaf: "kept (look (Link l) q) = None" "kept (look Special q) = None"
  by (cases q; simp add: look_def)+

lemma unpack_child:
  assumes ff: "\<And>i. fault_free (envs i)" and ih: "\<And>es. m = Dir es \<Longrightarrow> unpacks envs (p @ [x]) m"
    and pl: "list_all plain_name (p @ [x])" and d: "look t p = Some (Dir [])" and e: "\<forall>q. look t (p @ x # q) = None"
  shows "\<exists>t'. untar_entries envs i (child_entries p (x, m)) t = (t', None) \<and>
    (\<forall>q. look t' (p @ x # q) = kept (look m q)) \<and> (\<forall>r. \<not> prefix (p @ [x]) r \<longrightarrow> look t' r = look t r)"
proof (cases m)
  case (Reg c)
  obtain t' where t': "untar_entry (envs i) \<lparr>te_type = Type_Reg, te_name = path_join (p @ [x]), te_data = c, te_fault = None\<rparr> t = (t', None)"
      "look t' = (look t)(p @ [x] \<mapsto> Reg c)"
    by (rule untar_file [OF ff pl d]) (use e in simp_all)
  have "look t' (p @ x # q) = kept (look m q)" for q
    using e by (cases q) (simp_all add: t'(2) Reg look_def)
  with t' show ?thesis by (auto simp: child_entries_def Reg tar_of_def)
next
  case (Dir es)
  obtain t1 where t1: "untar_entry (envs i) \<lparr>te_type = Type_Dir, te_name = path_join (p @ [x]) @ ''/'', te_data = [], te_fault = None\<rparr> t = (t1, None)"
      "look t1 = (look t)(p @ [x] \<mapsto> Dir [])"
    by (rule untar_dir [OF ff pl d]) (use e in simp_all)
  have "look t1 (p @ [x]) = Some (Dir [])" "\<forall>y q. look t1 ((p @ [x]) @ y # q) = None" using e t1(2) by simp_all
  with ih [OF Dir] obtain t' where t': "untar_entries envs (Suc i) (concat (map tar_of (walk_tree (p @ [x]) m))) t1 = (t', None)"
      "\<forall>y q. look t' ((p @ [x]) @ y # q) = kept (look m (y # q))" "look t' (p @ [x]) = Some (Dir [])"
      "\<forall>r. \<not> prefix (p @ [x]) r \<longrightarrow> look t' r = look t1 r"
    unfolding unpacks_def by blast
  have "untar_entries envs i (child_entries p (x, m)) t = (t', None)"
    using t1(1) t'(1) by (simp add: child_entries_def tar_of_def Dir)
  moreover have "look t' (p @ x # q) = kept (look m q)" for q
    using t'(2,3) by (cases q) (simp_all add: Dir look_def)
  moreover have "look t' r = look t r" if "\<not> prefix (p @ [x]) r" for r
    using t'(4) t1(2) that by auto
  ultimately show ?thesis by blast
next
  case (Link l)
  have "untar_entries envs i (child_entries p (x, m)) t = (t, None)" by (simp add: child_entries_def tar_of_def Link)
  with e show ?thesis by (auto simp: Link kept_leaf)
next
  case Special
  have "untar_entries envs i (child_entries p (x, m)) t = (t, None)" by (simp add: child_entries_def tar_of_def Special)
  with e show ?thesis by (auto simp: Special kept_leaf)
qed

lemma unpack_children:
  assumes ff: "\<And>i. fault_free (envs i)" and ih: "\<And>x m es. (x, m) \<in> set cs \<Longrightarrow> m = Dir es \<Longrightarrow> unpacks envs (p @ [x]) m"
    and pl: "list_all plain_name p" "list_all (\<lambda>c. plain_name (fst c)) cs" and dist: "distinct (map fst cs)"
    and d: "look t p = Some (Dir [])" and e: "\<forall>x \<in> fst ` set cs. \<forall>q. look t (p @ x # q) = None"
  shows "\<exists>t'. untar_entries envs i (concat (map (child_entries p) cs)) t = (t', None) \<and>
    (\<forall>x q. look t' (p @ x # q) = (case map_of cs x of Some m \<Rightarrow> kept (look m q) | None \<Rightarrow> look t (p @ x # q))) \<and>
    look t' p = Some (Dir []) \<and> (\<forall>r. \<not> prefix p r \<longrightarrow> look t' r = look t r)"
  using assms(2-)
proof (induction cs arbitrary: i t)
  case (Cons c cs)
  obtain x m where c: "c = (x, m)" by fastforce
  obtain t1 where t1: "untar_entries envs i (child_entries p (x, m)) t = (t1, None)"
      "\<forall>q. look t1 (p @ x # q) = kept (look m q)" "\<forall>r. \<not> prefix (p @ [x]) r \<longrightarrow> look t1 r = look t r"
    using unpack_child [where envs = envs and p = p and x = x and m = m and t = t and i = i, OF ff] Cons.prems c by auto
  have other: "look t1 (p @ y # q) = look t (p @ y # q)" if "y \<noteq> x" for y q using t1(3) that by simp
  have d1: "look t1 p = Some (Dir [])" using t1(3) Cons.prems(5) by simp
  have e1: "\<forall>y \<in> fst ` set cs. \<forall>q. look t1 (p @ y # q) = None"
    using Cons.prems(4,6) other c by (metis distinct.simps(2) fst_conv image_iff insert_iff list.set(2) list.simps(9) set_map)
  obtain t2 where t2: "untar_entries envs (i + length (child_entries p (x, m))) (concat (map (child_entries p) cs)) t1 = (t2, None)"
      "\<forall>y q. look t2 (p @ y # q) = (case map_of cs y of Some m \<Rightarrow> kept (look m q) | None \<Rightarrow> look t1 (p @ y # q))"
      "look t2 p = Some (Dir [])" "\<forall>r. \<not> prefix p r \<longrightarrow> look t2 r = look t1 r"
  proof -
    have "\<exists>t'. untar_entries envs (i + length (child_entries p (x, m))) (concat (map (child_entries p) cs)) t1 = (t', None) \<and>
      (\<forall>y q. look t' (p @ y # q) = (case map_of cs y of Some m \<Rightarrow> kept (look m q) | None \<Rightarrow> look t1 (p @ y # q))) \<and>
      look t' p = Some (Dir []) \<and> (\<forall>r. \<not> prefix p r \<longrightarrow> look t' r = look t1 r)"
      by (rule Cons.IH) (use Cons.prems d1 e1 in auto)
    then show thesis using that by blast
  qed
  have "untar_entries envs i (concat (map (child_entries p) (c # cs))) t = (t2, None)"
    using untar_append [OF t1(1)] t2(1) c by simp
  moreover have "look t2 (p @ y # q) = (case map_of (c # cs) y of Some m \<Rightarrow> kept (look m q) | None \<Rightarrow> look t (p @ y # q))" for y q
  proof (cases "y = x")
    case True
    have "map_of cs x = None" using Cons.prems(4) c by (simp add: map_of_eq_None_iff)
    with True t1(2) t2(2) c show ?thesis by simp
  next
    case False
    with t2(2) other c show ?thesis by (simp split: option.split)
  qed
  moreover have "look t2 r = look t r" if "\<not> prefix p r" for r
    using t2(4) t1(3) that append_prefixD by metis
  ultimately show ?case using t2(3) by blast
qed (use d in \<open>auto intro: exI [of _ t]\<close>)

lemma concat_map_concat: "concat (map f (concat xss)) = concat (map (\<lambda>xs. concat (map f xs)) xss)"
  by (induction xss) simp_all

lemma walk_children:
  "concat (map tar_of (walk_tree p (Dir es))) = concat (map (child_entries p) (sort_key fst es))"
proof -
  have "child_entries p = (\<lambda>x. tar_of (p @ [fst x], shape (snd x)) @ concat (map tar_of (walk_tree (p @ [fst x]) (snd x))))"
    by (rule ext) (simp add: child_entries_def)
  then show ?thesis by (simp add: concat_map_concat o_def case_prod_unfold)
qed

lemma unpack_tree:
  assumes ff: "\<And>i. fault_free (envs i)"
  shows "tree_ok n \<Longrightarrow> list_all plain_name p \<Longrightarrow> n = Dir es \<Longrightarrow> unpacks envs p n"
proof (induction p n arbitrary: es rule: walk_tree.induct)
  case (1 p fs)
  have dist: "distinct (map fst (sort_key fst fs))" using 1(2) by (simp add: distinct_map)
  have mo: "map_of (sort_key fst fs) = map_of fs"
    using 1(2) dist by (intro map_of_inject_set [THEN iffD2]) simp_all
  have look: "look (Dir fs) (x # q) = (case map_of fs x of Some m \<Rightarrow> look m q | None \<Rightarrow> None)" for x q
    by (simp add: look_def split: option.split)
  have ih: "unpacks envs (p @ [x]) m" if "(x, m) \<in> set (sort_key fst fs)" "m = Dir ms" for x m ms
  proof -
    have "tree_ok m" "plain_name x" using 1(2) that(1) by (auto simp: list_all_iff)
    with 1(1) [OF that(1) refl _ _ that(2)] 1(3) show ?thesis by simp
  qed
  show ?case unfolding unpacks_def walk_children
  proof (intro allI impI)
    fix i t
    assume t: "look t p = Some (Dir []) \<and> (\<forall>x q. look t (p @ x # q) = None)"
    have "\<exists>t'. untar_entries envs i (concat (map (child_entries p) (sort_key fst fs))) t = (t', None) \<and>
      (\<forall>x q. look t' (p @ x # q) = (case map_of (sort_key fst fs) x of Some m \<Rightarrow> kept (look m q) | None \<Rightarrow> look t (p @ x # q))) \<and>
      look t' p = Some (Dir []) \<and> (\<forall>r. \<not> prefix p r \<longrightarrow> look t' r = look t r)"
      by (rule unpack_children [OF ff]) (use ih 1(2,3) dist t in \<open>auto simp: list_all_iff\<close>)
    then obtain t' where t': "untar_entries envs i (concat (map (child_entries p) (sort_key fst fs))) t = (t', None)"
        "\<forall>x q. look t' (p @ x # q) = (case map_of fs x of Some m \<Rightarrow> kept (look m q) | None \<Rightarrow> look t (p @ x # q))"
        "look t' p = Some (Dir [])" "\<forall>r. \<not> prefix p r \<longrightarrow> look t' r = look t r"
      unfolding mo by blast
    have "look t' (p @ x # q) = kept (look (Dir fs) (x # q))" for x q
      using t'(2) t by (cases "map_of fs x") (simp_all add: look)
    with t' show "\<exists>t'. untar_entries envs i (concat (map (child_entries p) (sort_key fst fs))) t = (t', None) \<and>
        (\<forall>x q. look t' (p @ x # q) = kept (look (Dir fs) (x # q))) \<and> look t' p = Some (Dir []) \<and>
        (\<forall>r. \<not> prefix p r \<longrightarrow> look t' r = look t r)" by blast
  qed
qed simp_all

lemma clear_names_look:
  assumes "\<And>i. fault_free (envs i)" and "list_all plain_name xs"
  shows "\<exists>t'. clear_names envs i xs t = (t', None) \<and>
    (\<forall>r. look t' r = (if r \<noteq> [] \<and> hd r \<in> set xs then None else look t r))"
  using assms(2)
proof (induction xs arbitrary: i t)
  case (Cons x xs)
  have "root_parts x = Inr [x]" using root_parts_plain [of "[x]"] Cons.prems by simp
  moreover have "resolve k False t [] [x] = Inr [x]" for k
    using Cons.prems by (cases rule: look_cases [of t "[x]"]) (auto simp: resolve_Cons plain_name_dots)
  ultimately have "root_remove_all (envs i) t x = (drop_node [x] t, None)"
    using assms(1) [of i] by (simp add: root_remove_all_def root_resolve_def fault_free_def)
  moreover obtain t' where "clear_names envs (Suc i) xs (drop_node [x] t) = (t', None)"
      "\<forall>r. look t' r = (if r \<noteq> [] \<and> hd r \<in> set xs then None else look (drop_node [x] t) r)"
    using Cons.IH [of "Suc i" "drop_node [x] t"] Cons.prems by auto
  moreover have "look (drop_node [x] t) r = (if r \<noteq> [] \<and> hd r = x then None else look t r)" for r
    by (cases r) (auto simp: look_drop)
  ultimately show ?case by auto
qed simp

lemma clear_root_look:
  assumes "\<And>i. fault_free (envs i)" and "tree_ok (Dir es)"
  shows "\<exists>t'. clear_root envs None (Dir es) = (t', None) \<and> look t' [] = Some (Dir []) \<and> (\<forall>x q. look t' (x # q) = None)"
proof -
  have "list_all plain_name (map fst es)" using assms(2) by (auto simp: list_all_iff)
  from clear_names_look [where envs = envs and i = 0 and t = "Dir es", OF assms(1) this] obtain t' where
    "clear_names envs 0 (map fst es) (Dir es) = (t', None)"
    "\<forall>r. look t' r = (if r \<noteq> [] \<and> hd r \<in> set (map fst es) then None else look (Dir es) r)" by blast
  moreover have "look (Dir es) (x # q) = None" if "x \<notin> fst ` set es" for x q
    proof -
    have "map_of es x = None" using that by (simp add: map_of_eq_None_iff)
    then show ?thesis by (simp add: look_def)
  qed
  ultimately show ?thesis by (auto simp: clear_root_def) (simp add: look_def)
qed

text \<open>Base64 has no character that JSON escapes, and no semicolon.\<close>

lemma safe_char:
  fixes c :: char
  defines "m \<equiv> of_char c :: nat"
  assumes "m = 43 \<or> 47 \<le> m \<and> m \<le> 57 \<or> 65 \<le> m \<and> m \<le> 90 \<or> 97 \<le> m \<and> m \<le> 122"
  shows "json_escape c = [c] \<and> c \<noteq> CHR '';''"
proof -
  have "c \<noteq> CHR 0x22" "c \<noteq> CHR 0x5C" "c \<noteq> CHR 0x08" "c \<noteq> CHR 0x0C" "c \<noteq> CHR 0x0A" "c \<noteq> CHR 0x0D" "c \<noteq> CHR 0x09"
      "c \<noteq> CHR ''<''" "c \<noteq> CHR ''>''" "c \<noteq> CHR ''&''" "c \<noteq> CHR '';''" "\<not> m < 32"
    using assms(2) by (force simp: m_def)+
  then show ?thesis by (simp add: json_escape_def m_def)
qed

lemma b64_char_range: "n < 64 \<Longrightarrow> json_escape (b64_char n) = [b64_char n] \<and> b64_char n \<noteq> CHR '';''"
  by (rule safe_char) (auto simp: b64_char_def of_char_of)

definition b64_letter :: "char \<Rightarrow> bool" where
  "b64_letter c \<longleftrightarrow> json_escape c = [c] \<and> c \<noteq> CHR '';''"

lemma b64_group_letters:
  assumes "a < 256" "b < 256" "c < 256"
  shows "list_all b64_letter (b64_group a b c)"
proof -
  have "b64_letter (b64_char n)" if "n < 64" for n unfolding b64_letter_def by (rule b64_char_range [OF that])
  note l = this [OF b64_group_digits(1) [OF assms]] this [OF b64_group_digits(2) [OF assms]]
    this [OF b64_group_digits(3) [OF assms]] this [OF b64_group_digits(4) [OF assms]]
  show ?thesis unfolding b64_group_def list.pred_inject using l by simp
qed

lemma b64_letters: "list_all b64_letter (b64_encode s)"
proof (induction s rule: b64_encode.induct)
  case (2 a)
  have "list_all b64_letter (take 2 (b64_group (of_char a) 0 0))"
    using b64_group_letters [of "of_char a" 0 0] of_char_less_256 [of a] by (auto simp: list_all_iff dest: in_set_takeD)
  moreover have "b64_letter CHR ''=''" by (simp add: b64_letter_def json_escape_def)
  ultimately show ?case by simp
next
  case (3 a b)
  have "list_all b64_letter (take 3 (b64_group (of_char a) (of_char b) 0))"
    using b64_group_letters [of "of_char a" "of_char b" 0] of_char_less_256 [of a] of_char_less_256 [of b]
    by (auto simp: list_all_iff dest: in_set_takeD)
  moreover have "b64_letter CHR ''=''" by (simp add: b64_letter_def json_escape_def)
  ultimately show ?case by simp
next
  case (4 a b c s)
  then show ?case
    using b64_group_letters [of "of_char a" "of_char b" "of_char c"] of_char_less_256 by simp
qed simp

lemma b64_quote: "json_quote (b64_encode s) = CHR 0x22 # b64_encode s @ [CHR 0x22]"
proof -
  have "concat (map json_escape w) = w" if "list_all b64_letter w" for w
    using that by (induction w) (simp_all add: b64_letter_def)
  with b64_letters [of s] show ?thesis by (simp add: json_quote_def)
qed

lemma b64_encode_Nil: "b64_encode s = [] \<longleftrightarrow> s = []"
  using b64_decode_encode [of s] by (cases "s = []") (auto simp: b64_decode_def)

text \<open>The body of a complete snapshot is the JSON the restore handler takes.\<close>

lemma snapshot_body_json: "''{'' @ json_quote ''tar'' @ '':'' @ [CHR 0x22] @ b64_encode b @ [CHR 0x22] @ ''}'' =
    json_text (JObj [(''tar'', JStr (b64_encode b))])"
  by (simp add: json_text_def json_member_def b64_quote)

lemma snapshot_body_decodes:
  assumes "length (json_text (JObj [(''tar'', JStr (b64_encode b))])) \<le> max_request_bytes"
  shows "decode_restore (json_text (JObj [(''tar'', JStr (b64_encode b))])) = Some (b64_encode b)"
proof -
  have "json_decode (json_text (JObj [(''tar'', JStr (b64_encode b))])) = Some (value_of (JObj [(''tar'', JStr (b64_encode b))]))"
    by (rule decode_text) simp_all
  with assms show ?thesis
    by (simp add: decode_restore_def struct_members_def tar_field_def string_field_ok_def string_field_def field_values_def
        to_lower_char_def)
qed

section \<open>Properties\<close>

definition written_entry :: "tar_entry \<Rightarrow> bool" where
  [go_eval]: "written_entry e \<longleftrightarrow> te_fault e = None \<and> te_name e \<noteq> [] \<and> CHR 0x00 \<notin> set (te_name e) \<and>
     (case te_type e of
        Type_Dir \<Rightarrow> last (te_name e) = CHR ''/'' \<and> te_data e = []
      | Type_Reg \<Rightarrow> last (te_name e) \<noteq> CHR ''/''
      | Type_Other \<Rightarrow> False)"

text \<open>What is relied on of \<open>archive/tar\<close>: an archive it wrote is read back, entry by entry.\<close>

definition tar_faithful :: "tar_lib \<Rightarrow> bool" where
  "tar_faithful lib \<longleftrightarrow> tl_close lib \<noteq> [] \<and>
     (\<forall>es. list_all written_entry es \<longrightarrow> tl_read lib (concat (map (tl_entry lib) es) @ tl_close lib) = (es, None))"

lemma tar_of_written:
  assumes "list_all plain_name (fst pn)" and "fst pn \<noteq> []" and "\<forall>x \<in> set (fst pn). CHR 0x00 \<notin> set x"
  shows "list_all written_entry (tar_of pn)"
proof -
  have nz: "CHR 0x00 \<notin> set (path_join xs)" if "\<forall>x \<in> set xs. CHR 0x00 \<notin> set x" for xs
    using that
  proof (induction xs)
    case (Cons x xs)
    then show ?case by (cases "xs = []") (simp_all add: path_join_Cons)
  qed simp
  have l: "last (path_join xs) \<noteq> CHR ''/'' \<and> path_join xs \<noteq> []" if "xs \<noteq> []" "list_all plain_name xs" for xs
    using that
  proof (induction xs rule: list_nonempty_induct)
    case (single x)
    then have "last x \<noteq> CHR ''/''" by (metis last_in_set list.pred_inject(2) plain_name_def)
    with single show ?case by (simp add: plain_name_def)
  qed (simp add: path_join_Cons)
  show ?thesis
    using assms nz [of "fst pn"] l [of "fst pn"] by (cases "snd pn") (simp_all add: tar_of_def written_entry_def)
qed

lemma walk_names:
  assumes "tree_ok n" and "list_all plain_name p" and "\<forall>x \<in> set p. CHR 0x00 \<notin> set x"
  shows "\<forall>qn \<in> set (walk_tree p n). list_all plain_name (fst qn) \<and> fst qn \<noteq> [] \<and> (\<forall>x \<in> set (fst qn). CHR 0x00 \<notin> set x)"
  using assms
proof (induction p n rule: walk_tree.induct)
  case (1 p es)
  have "\<forall>qn \<in> set ((p @ [x], shape m) # walk_tree (p @ [x]) m).
      list_all plain_name (fst qn) \<and> fst qn \<noteq> [] \<and> (\<forall>x \<in> set (fst qn). CHR 0x00 \<notin> set x)" if "(x, m) \<in> set es" for x m
  proof -
    have ok: "plain_name x" "CHR 0x00 \<notin> set x" "tree_ok m" using 1(2) that by (auto simp: list_all_iff)
    have s: "(x, m) \<in> set (sort_key fst es)" using that by simp
    from 1(1) [OF s refl ok(3)] 1(3,4) ok show ?thesis by simp
  qed
  then show ?case by fastforce
qed simp_all

lemma tar_entries_written: "tree_ok (Dir es) \<Longrightarrow> list_all written_entry (tar_entries (Dir es))"
proof -
  assume "tree_ok (Dir es)"
  then have w: "\<forall>qn \<in> set (walk_tree [] (Dir es)). list_all plain_name (fst qn) \<and> fst qn \<noteq> [] \<and>
      (\<forall>x \<in> set (fst qn). CHR 0x00 \<notin> set x)" by (intro walk_names) simp_all
  have "list_all written_entry (concat (map tar_of qs))"
    if "\<forall>qn \<in> set qs. list_all plain_name (fst qn) \<and> fst qn \<noteq> [] \<and> (\<forall>x \<in> set (fst qn). CHR 0x00 \<notin> set x)" for qs
    using that by (induction qs) (simp_all add: tar_of_written)
  from this [OF w] show ?thesis by (simp only: tar_entries_def)
qed

lemma ok_snapshot:
  assumes "handle_snapshot lib fault close_ok t = (body, ''ok'')"
  shows "fault = None" "body = json_text (JObj [(''tar'', JStr (b64_encode (concat (map (tl_entry lib) (tar_entries t)) @ tl_close lib)))])"
proof -
  have f: "fault = None" "close_ok"
    using assms by (auto simp: handle_snapshot_def tar_workspace_def Let_def split: option.splits if_splits)
  then show "fault = None" "body = json_text (JObj [(''tar'', JStr (b64_encode (concat (map (tl_entry lib) (tar_entries t)) @ tl_close lib)))])"
    using assms snapshot_body_json [of "concat (map (tl_entry lib) (tar_entries t)) @ tl_close lib"]
    by (simp_all add: handle_snapshot_def tar_workspace_def Let_def)
qed

lemma snapshot_restores:
  assumes "handle_snapshot (rv_lib env) fault close_ok (Dir es) = (body, ''ok'')"
    and "tar_faithful (rv_lib env)" and "tree_ok (Dir es)" and "tree_ok (Dir ws)" and "length body \<le> max_request_bytes"
    and "\<forall>i. fault_free (rv_clear env i) \<and> fault_free (rv_untar env i)" and "rv_list_err env = None"
  obtains t' where "handle_restore env body (Dir ws) = (t', respond_json 200 restore_response)"
    "\<forall>p. look t' p = kept (look (Dir es) p)"
proof -
  define b where "b = concat (map (tl_entry (rv_lib env)) (tar_entries (Dir es))) @ tl_close (rv_lib env)"
  note body = ok_snapshot(2) [OF assms(1), folded b_def]
  have dec: "decode_restore body = Some (b64_encode b)"
    using snapshot_body_decodes assms(5) unfolding body by blast
  have nb: "b64_encode b \<noteq> []" using assms(2) by (auto simp: b64_encode_Nil b_def tar_faithful_def)
  have rd: "tl_read (rv_lib env) b = (tar_entries (Dir es), None)"
    using assms(2) tar_entries_written [OF assms(3)] by (simp add: tar_faithful_def b_def)
  obtain t1 where t1: "clear_root (rv_clear env) None (Dir ws) = (t1, None)" "look t1 [] = Some (Dir [])"
      "\<forall>x q. look t1 (x # q) = None"
    using clear_root_look [of "rv_clear env" ws] assms(4,6) by auto
  have "unpacks (rv_untar env) [] (Dir es)"
    by (rule unpack_tree [OF _ assms(3) _ refl]) (use assms(6) in simp_all)
  with t1(2,3) obtain t' where t': "untar_entries (rv_untar env) 0 (tar_entries (Dir es)) t1 = (t', None)"
      "\<forall>x q. look t' (x # q) = kept (look (Dir es) (x # q))" "look t' [] = Some (Dir [])"
    by (fastforce simp: unpacks_def tar_entries_def)
  have "handle_restore env body (Dir ws) = (t', respond_json 200 restore_response)"
    using dec nb rd t1(1) t'(1) assms(7) by (simp add: handle_restore_def restore_into_def untar_into_def)
  moreover have "look t' p = kept (look (Dir es) p)" for p
    using t'(2,3) by (cases p) (simp_all add: look_def)
  ultimately show thesis using that by blast
qed

text \<open>
  C12. The round trip of the workspace. Only a snapshot of the whole tree carries the trailer \<open>ok\<close>, and
  the body of such a snapshot, given to \<open>/restore\<close> on any workspace, is accepted and leaves exactly the
  files and directories of the tree it was taken from, byte for byte: everything that was there before
  is gone, and links and special files are not carried over.
\<close>

theorem snapshot_restore_roundtrip:
  assumes "handle_snapshot (rv_lib env) fault close_ok (Dir es) = (body, ''ok'')"
    and "tar_faithful (rv_lib env)" and "tree_ok (Dir es)" and "tree_ok (Dir ws)"
    and "length body \<le> max_request_bytes"
    and "\<forall>i. fault_free (rv_clear env i) \<and> fault_free (rv_untar env i)" and "rv_list_err env = None"
  shows "fault = None \<and> (\<exists>t'. handle_restore env body (Dir ws) = (t', respond_json 200 restore_response) \<and>
    (\<forall>p. look t' p = kept (look (Dir es) p)))"
  using snapshot_restores [OF assms] ok_snapshot(1) [OF assms(1)] by blast

text \<open>An archive format for the witness: each entry framed by semicolons, names and data in base64.\<close>

definition frame :: "tar_entry \<Rightarrow> string" where
  [go_eval]: "frame e = (case te_type e of Type_Dir \<Rightarrow> CHR ''d'' | Type_Reg \<Rightarrow> CHR ''f'' | Type_Other \<Rightarrow> CHR ''o'') #
     b64_encode (te_name e) @ CHR '';'' # b64_encode (te_data e) @ '';''"

fun read_frames :: "nat \<Rightarrow> string \<Rightarrow> tar_entry list \<times> string option" where
  "read_frames 0 s = ([], Some ''cut'')"
| "read_frames (Suc n) [] = ([], Some ''cut'')"
| "read_frames (Suc n) (c # s) =
     (if c = CHR ''.'' then ([], None)
      else
        (case cut_byte CHR '';'' s of
           (a, s1) \<Rightarrow>
             (case cut_byte CHR '';'' s1 of
                (d, s2) \<Rightarrow>
                  (case read_frames n s2 of
                     (es, err) \<Rightarrow>
                       (\<lparr>te_type = (if c = CHR ''d'' then Type_Dir else if c = CHR ''f'' then Type_Reg else Type_Other),
                         te_name = (case b64_decode a of None \<Rightarrow> [] | Some w \<Rightarrow> w),
                         te_data = (case b64_decode d of None \<Rightarrow> [] | Some w \<Rightarrow> w), te_fault = None\<rparr> # es, err)))))"

definition sample_tar :: tar_lib where
  "sample_tar = \<lparr>tl_entry = frame, tl_close = ''.'', tl_read = (\<lambda>s. read_frames (length s) s)\<rparr>"

lemma cut_b64: "cut_byte CHR '';'' (b64_encode s @ CHR '';'' # r) = (b64_encode s, r)"
proof -
  have "CHR '';'' \<notin> set (b64_encode s)" using b64_letters [of s] by (auto simp: list_all_iff b64_letter_def)
  then show ?thesis by (simp add: cut_byte_def takeWhile_append_stop dropWhile_append_stop)
qed

lemma sample_tar_faithful: "tar_faithful sample_tar"
proof -
  have "read_frames n (concat (map frame es) @ ''.'') = (es, None)" if "length es < n" "list_all written_entry es" for n es
    using that
  proof (induction es arbitrary: n)
    case Nil
    then show ?case by (cases n) simp_all
  next
    case (Cons e es)
    then obtain m where n: "n = Suc m" "length es < m" by (cases n) auto
    have w: "te_fault e = None" "te_type e \<noteq> Type_Other" using Cons.prems by (cases "te_type e"; simp add: written_entry_def)+
    show ?case using Cons.IH [OF n(2)] Cons.prems(2) w
      by (cases "te_type e") (simp_all add: n frame_def cut_b64)
  qed
  moreover have "length es < length (concat (map frame es) @ ''.'')" for es
    by (induction es) (auto simp: frame_def)
  ultimately show ?thesis by (simp add: tar_faithful_def sample_tar_def)
qed

definition sample_restore :: restore_env where
  "sample_restore = \<lparr>rv_lib = sample_tar, rv_clear = (\<lambda>_. fv_root sample_files), rv_untar = (\<lambda>_. fv_root sample_files),
     rv_list_err = None, rv_files = sample_files\<rparr>"

theorem snapshot_restore_roundtrip_witness:
  "\<exists>body t'. handle_snapshot sample_tar None True (Dir [(''a'', Reg ''hi'')]) = (body, ''ok'') \<and>
    handle_restore sample_restore body (Dir [(''b'', Reg ''old'')]) = (t', respond_json 200 restore_response) \<and>
    look t' [''a''] = Some (Reg ''hi'') \<and> look t' [''b''] = None"
proof -
  define body where "body = fst (handle_snapshot sample_tar None True (Dir [(''a'', Reg ''hi'')]))"
  have h: "handle_snapshot (rv_lib sample_restore) None True (Dir [(''a'', Reg ''hi'')]) = (body, ''ok'')"
    by (simp add: body_def handle_snapshot_def tar_workspace_def sample_restore_def)
  have "length body = 26" unfolding body_def sample_tar_def by code_simp
  then have len: "length body \<le> max_request_bytes" by (simp add: max_request_bytes_def)
  have ok: "tree_ok (Dir [(''a'', Reg ''hi'')])" "tree_ok (Dir [(''b'', Reg ''old'')])" by code_simp+
  have "fault_free (fv_root sample_files)" by code_simp
  then have env: "\<forall>i. fault_free (rv_clear sample_restore i) \<and> fault_free (rv_untar sample_restore i)"
      "rv_list_err sample_restore = None" "tar_faithful (rv_lib sample_restore)"
    by (simp_all add: sample_restore_def sample_tar_faithful)
  from snapshot_restore_roundtrip [OF h env(3) ok len env(1,2)] obtain t' where
      t': "handle_restore sample_restore body (Dir [(''b'', Reg ''old'')]) = (t', respond_json 200 restore_response)"
      "\<forall>p. look t' p = kept (look (Dir [(''a'', Reg ''hi'')]) p)" by blast
  have "kept (look (Dir [(''a'', Reg ''hi'')]) [''a'']) = Some (Reg ''hi'')" "kept (look (Dir [(''a'', Reg ''hi'')]) [''b'']) = None"
    by code_simp+
  with t' h show ?thesis by (auto simp: sample_restore_def)
qed

end
