(* ===== verification/Uploads.thy ===== *)
theory Uploads imports Executor_Files "HOL-Library.Multiset" begin

text \<open>
  \<open>/sync-uploads/*\<close> of the executor, \<open>executor/uploads.go\<close>: the tree of uploaded files and the record of
  what is on it, name to hexadecimal SHA-256. Each handler holds \<open>uploadsMu\<close> while it touches them. The
  hash is the argument \<open>H\<close>. Maps are association lists; the order Go iterates one in is an argument
  \<open>ord\<close>, as every range may differ. The file system faults of each operation are numbered as they come.
\<close>

section \<open>Requests\<close>

record upload_blob =
  ub_name :: string
  ub_sha :: string
  ub_contents :: string

record uploads =
  up_root :: node
  up_state :: "(string \<times> string) list"

text \<open>A field that is a slice of structs: its elements' members, when each has the fields asked for as strings.\<close>

definition structs_field :: "string \<Rightarrow> (string \<times> jval \<times> string) list \<Rightarrow> jval list" where
  [go_eval]: "structs_field f ms =
     fold (\<lambda>v a. case fst v of VArr vs \<Rightarrow> vs | VNull \<Rightarrow> [] | _ \<Rightarrow> a) (field_values f ms) []"

definition strings_struct_ok :: "string list \<Rightarrow> jval \<Rightarrow> bool" where
  [go_eval]: "strings_struct_ok fs v =
     (case struct_members v of None \<Rightarrow> False | Some ms \<Rightarrow> list_all (\<lambda>f. string_field_ok f ms) fs)"

definition structs_field_ok :: "string \<Rightarrow> string list \<Rightarrow> (string \<times> jval \<times> string) list \<Rightarrow> bool" where
  [go_eval]: "structs_field_ok f fs ms =
     list_all (\<lambda>v. case fst v of VArr vs \<Rightarrow> list_all (strings_struct_ok fs) vs | VNull \<Rightarrow> True | _ \<Rightarrow> False)
       (field_values f ms)"

definition member_string :: "string \<Rightarrow> jval \<Rightarrow> string" where
  [go_eval]: "member_string f v = (case struct_members v of None \<Rightarrow> [] | Some ms \<Rightarrow> string_field f ms)"

definition manifest_of :: "(string \<times> jval \<times> string) list \<Rightarrow> (string \<times> string) list option" where
  [go_eval]: "manifest_of ms =
     (if structs_field_ok ''manifest'' [''filename'', ''sha256''] ms
      then Some (map (\<lambda>v. (member_string ''filename'' v, member_string ''sha256'' v)) (structs_field ''manifest'' ms))
      else None)"

definition decode_manifest :: "string \<Rightarrow> (string \<times> string) list option" where
  [go_eval]: "decode_manifest body = Option.bind (Option.bind (json_decode body) struct_members) manifest_of"

definition blobs_of :: "(string \<times> jval \<times> string) list \<Rightarrow> upload_blob list option" where
  [go_eval]: "blobs_of ms =
     (if structs_field_ok ''files'' [''filename'', ''sha256'', ''contents''] ms
      then Some (map (\<lambda>v. \<lparr>ub_name = member_string ''filename'' v, ub_sha = member_string ''sha256'' v,
                             ub_contents = member_string ''contents'' v\<rparr>) (structs_field ''files'' ms))
      else None)"

definition decode_blobs :: "string \<Rightarrow> upload_blob list option" where
  [go_eval]: "decode_blobs body =
     Option.bind (Option.bind (json_decode (take max_request_bytes body)) struct_members) blobs_of"

text \<open>The error of a name that is refused.\<close>

definition validate_upload_filename :: "string \<Rightarrow> string option" where
  [go_eval]: "validate_upload_filename name =
     (if name = [] \<or> name = ''.'' then Some ''filename is required''
      else if \<not> is_local name then Some (''filename must be a local relative path: '' @ name)
      else if clean name \<noteq> name then Some (''filename is not canonical: '' @ name)
      else None)"

section \<open>The manifest\<close>

fun build_desired :: "(string \<times> string) list \<Rightarrow> (string \<times> string) list \<Rightarrow> string + (string \<times> string) list" where
  "build_desired [] acc = Inr acc"
| "build_desired ((name, sha) # es) acc =
     (case validate_upload_filename name of
        Some e \<Rightarrow> Inl e
      | None \<Rightarrow>
          if sha = [] then Inl (''sha256 is required for '' @ name)
          else build_desired es (AList.update name sha acc))"

text \<open>The first loop: the entries of the record as they were when it began.\<close>

fun drop_stale :: "(nat \<Rightarrow> root_env) \<Rightarrow> nat \<Rightarrow> (string \<times> string) list \<Rightarrow> (string \<times> string) list \<Rightarrow> uploads \<Rightarrow>
    uploads \<times> (string \<times> io_err) option" where
  "drop_stale envs i desired [] st = (st, None)"
| "drop_stale envs i desired ((name, sha) # es) st =
     (if map_of desired name = Some sha then drop_stale envs (Suc i) desired es st
      else
        (case root_remove_all (envs i) (up_root st) name of
           (t, Some e) \<Rightarrow>
             if e \<noteq> Not_Exist then (st\<lparr>up_root := t\<rparr>, Some (name, e))
             else drop_stale envs (Suc i) desired es (st\<lparr>up_root := t, up_state := AList.delete name (up_state st)\<rparr>)
         | (t, None) \<Rightarrow>
             drop_stale envs (Suc i) desired es (st\<lparr>up_root := t, up_state := AList.delete name (up_state st)\<rparr>)))"

definition recorded :: "uploads \<Rightarrow> string \<Rightarrow> string" where
  [go_eval]: "recorded st name = (case map_of (up_state st) name of None \<Rightarrow> [] | Some sha \<Rightarrow> sha)"

definition missing_entries :: "(string \<times> string) list \<Rightarrow> uploads \<Rightarrow> (string \<times> string) list" where
  [go_eval]: "missing_entries desired st = filter (\<lambda>(name, sha). recorded st name \<noteq> sha) desired"

definition missing_json :: "(string \<times> string) list \<Rightarrow> json" where
  [go_eval]: "missing_json ms = JObj [(''missing'', JArr (map (\<lambda>(name, sha).
     JObj [(''filename'', JStr name), (''sha256'', JStr sha)]) ms))]"

definition handle_manifest :: "(nat \<Rightarrow> (string \<times> string) list \<Rightarrow> (string \<times> string) list) \<Rightarrow> (nat \<Rightarrow> root_env) \<Rightarrow> file_env \<Rightarrow> string \<Rightarrow> uploads \<Rightarrow> uploads \<times> http_response" where
  [go_eval]: "handle_manifest ord envs env body st =
     (case decode_manifest body of
        None \<Rightarrow> (st, respond_error 400 ''invalid json'')
      | Some entries \<Rightarrow>
          (case build_desired entries [] of
             Inl e \<Rightarrow> (st, respond_error 400 e)
           | Inr desired \<Rightarrow>
               (case drop_stale envs 0 desired (ord 0 (up_state st)) st of
                  (st1, Some (name, e)) \<Rightarrow> (st1, respond_error 500 (''delete '' @ name @ '': '' @ fv_text env e))
                | (st1, None) \<Rightarrow> (st1, respond_json 200 (missing_json (missing_entries (ord 1 desired) st1))))))"

section \<open>The files\<close>

definition write_blob :: "(string \<Rightarrow> string) \<Rightarrow> root_env \<Rightarrow> file_env \<Rightarrow> upload_blob \<Rightarrow> uploads \<Rightarrow> uploads \<times> http_response option" where
  [go_eval]: "write_blob H renv env b st =
     (case validate_upload_filename (ub_name b) of
        Some e \<Rightarrow> (st, Some (respond_error 400 e))
      | None \<Rightarrow>
          (case b64_decode (ub_contents b) of
             None \<Rightarrow> (st, Some (respond_error 400 (''invalid base64 for '' @ ub_name b)))
           | Some data \<Rightarrow>
               let got = H data in
               if ub_sha b \<noteq> [] \<and> ub_sha b \<noteq> got then
                 (st, Some (respond_error 400 (''sha mismatch for '' @ ub_name b @ '': claimed '' @ ub_sha b @ '', got '' @ got)))
               else
                 let dir = path_dir (ub_name b);
                     (t1, e1) = (if dir \<noteq> ''.'' then root_mkdir_all renv (up_root st) dir else (up_root st, None))
                 in (case e1 of
                       Some e \<Rightarrow> (st\<lparr>up_root := t1\<rparr>, Some (respond_error 500 (fv_text env e)))
                     | None \<Rightarrow>
                         (case root_write_file renv t1 (ub_name b) data of
                            (t2, Some e) \<Rightarrow> (st\<lparr>up_root := t2\<rparr>, Some (respond_error 500 (fv_text env e)))
                          | (t2, None) \<Rightarrow>
                              (st\<lparr>up_root := t2, up_state := AList.update (ub_name b) got (up_state st)\<rparr>, None)))))"

fun write_blobs :: "(string \<Rightarrow> string) \<Rightarrow> (nat \<Rightarrow> root_env) \<Rightarrow> nat \<Rightarrow> file_env \<Rightarrow> upload_blob list \<Rightarrow> uploads \<Rightarrow>
    uploads \<times> http_response option" where
  "write_blobs H envs i env [] st = (st, None)"
| "write_blobs H envs i env (b # bs) st =
     (case write_blob H (envs i) env b st of
        (st1, Some resp) \<Rightarrow> (st1, Some resp)
      | (st1, None) \<Rightarrow> write_blobs H envs (Suc i) env bs st1)"

definition handle_blobs :: "(string \<Rightarrow> string) \<Rightarrow> (nat \<Rightarrow> root_env) \<Rightarrow> file_env \<Rightarrow> string \<Rightarrow> uploads \<Rightarrow> uploads \<times> http_response" where
  [go_eval]: "handle_blobs H envs env body st =
     (case decode_blobs body of
        None \<Rightarrow> (st, decode_refusal env body)
      | Some files \<Rightarrow>
          (case write_blobs H envs 0 env files st of
             (st1, Some resp) \<Rightarrow> (st1, resp)
           | (st1, None) \<Rightarrow> (st1, respond_json 200 (JObj [(''written'', JInt (int (length files)))]))))"

section \<open>Names\<close>

text \<open>A cleaned relative path climbs first and names after.\<close>

lemma fold_clean_relative:
  assumes "\<forall>x \<in> set xs. CHR ''/'' \<notin> set x" and "out = rev ps @ replicate k ''..''" and "list_all plain_name ps"
  shows "\<exists>qs j. fold (clean_step False) xs out = rev qs @ replicate j ''..'' \<and> list_all plain_name qs"
  using assms
proof (induction xs arbitrary: out ps k)
  case (Cons x xs)
  have "\<exists>ps' k'. clean_step False x out = rev ps' @ replicate k' ''..'' \<and> list_all plain_name ps'"
  proof (cases "x = [] \<or> x = ''.''")
    case True
    with Cons.prems show ?thesis by (auto simp: clean_step_def)
  next
    case False
    show ?thesis
    proof (cases "x = ''..''")
      case True
      show ?thesis
      proof (cases ps rule: rev_cases)
        case Nil
        then have "clean_step False x out = rev [] @ replicate (Suc k) ''..''"
          using True Cons.prems by (cases k) (simp_all add: clean_step_def)
        then show ?thesis by (metis list.pred_inject(1))
      next
        case (snoc qs y)
        then have "clean_step False x out = rev qs @ replicate k ''..''"
          using True Cons.prems by (auto simp: clean_step_def plain_name_def)
        then show ?thesis using Cons.prems(3) snoc by auto
      qed
    next
      case plain: False
      then have "clean_step False x out = rev (ps @ [x]) @ replicate k ''..''"
        using False Cons.prems by (simp add: clean_step_def)
      moreover have "plain_name x" using False plain Cons.prems(1) by (simp add: plain_name_def)
      then have "list_all plain_name (ps @ [x])" using Cons.prems(3) by simp
      ultimately show ?thesis by blast
    qed
  qed
  with Cons show ?case by auto
qed auto

lemma valid_name:
  assumes "validate_upload_filename name = None"
  shows "list_all plain_name (path_parts name)" "path_join (path_parts name) = name" "path_parts name \<noteq> []"
proof -
  have v: "name \<noteq> []" "name \<noteq> ''.''" "is_local name" "clean name = name"
    using assms by (auto simp: validate_upload_filename_def split: if_splits)
  have na: "\<not> is_abs name" using v(3) by (auto simp: is_local_def split: if_splits)
  define ps where "ps = clean_parts False (path_parts name)"
  have ns: "\<forall>x \<in> set (path_parts name). CHR ''/'' \<notin> set x" by (auto simp: path_parts_def dest: split_byte_parts)
  obtain qs j where q: "ps = replicate j ''..'' @ qs" "list_all plain_name qs"
    using fold_clean_relative [OF ns, of "[]" "[]" 0] by (auto simp: ps_def clean_parts_def)
  have join: "path_join ps = name" and ne: "ps \<noteq> []"
  proof -
    have "clean name = (if ps = [] then ''.'' else path_join ps)" using na by (simp add: clean_def ps_def Let_def)
    with v(2,4) show "path_join ps = name" "ps \<noteq> []" by (cases "ps = []"; simp)+
  qed
  have dd: "segment ''..''" by (simp add: segment_def)
  have seg: "list_all segment ps"
    unfolding q(1) list_all_append using plain_segments [OF q(2)] dd by (simp add: list_all_iff)
  have "j = 0"
  proof (rule ccontr)
    assume "j \<noteq> 0"
    then obtain i where "ps = ''..'' # replicate i ''..'' @ qs" using q(1) by (cases j) auto
    then have "name = ''..'' \<or> prefix ''../'' name" using join by (cases "replicate i ''..'' @ qs = []") (auto simp: path_join_Cons)
    with v(3,4) na show False by (auto simp: is_local_def Let_def split: if_splits)
  qed
  with q have "list_all plain_name ps" by simp
  moreover have "path_parts name = ps" using segments_parts [OF ne seg] join by simp
  ultimately show "list_all plain_name (path_parts name)" "path_join (path_parts name) = name" "path_parts name \<noteq> []"
    using join ne by simp_all
qed

section \<open>Trees without links\<close>

definition plain_files :: "node \<Rightarrow> bool" where
  "plain_files t \<longleftrightarrow> look t [] = Some (Dir []) \<and>
     (\<forall>p. look t p = None \<or> look t p = Some (Dir []) \<or> (\<exists>d. look t p = Some (Reg d)))"

lemma plain_files_cases: "plain_files t \<Longrightarrow> look t p = None \<or> look t p = Some (Dir []) \<or> (\<exists>d. look t p = Some (Reg d))"
  by (simp only: plain_files_def)

lemma plain_files_added: "plain_files t \<Longrightarrow> only_dirs_added t t' \<Longrightarrow> plain_files t'"
  unfolding plain_files_def only_dirs_added_def by (metis option.distinct(1))

lemma plain_files_update: "plain_files t \<Longrightarrow> look t' = (look t)(p \<mapsto> m) \<Longrightarrow> p \<noteq> [] \<Longrightarrow> m = Dir [] \<or> (\<exists>d. m = Reg d) \<Longrightarrow> plain_files t'"
  unfolding plain_files_def by auto

lemma plain_files_drop: "plain_files t \<Longrightarrow> p \<noteq> [] \<Longrightarrow> plain_files (drop_node p t)"
  unfolding plain_files_def by (auto simp: look_drop)

lemma resolve_plain_files:
  assumes "plain_files t" and "list_all plain_name ps" and "resolve k follow t at ps = Inr q"
  shows "q = at @ ps"
  using assms(2,3)
proof (induction ps arbitrary: at)
  case (Cons x ps)
  consider "look t (at @ [x]) = None" | "look t (at @ [x]) = Some (Dir [])" | d where "look t (at @ [x]) = Some (Reg d)"
    using plain_files_cases [OF assms(1), of "at @ [x]"] by (elim disjE exE)
  then show ?case
    using Cons.prems Cons.IH [of "at @ [x]"] by cases (simp_all add: resolve_Cons plain_name_dots split: if_splits)
qed simp

lemma resolve_parent_dir:
  assumes "plain_files t" and "list_all plain_name (p @ [x])" and "look t p = Some (Dir [])"
  shows "root_resolve env follow t (path_join (p @ [x])) = Inr (p @ [x])"
proof -
  have "\<nexists>l. look t (p @ [x]) = Some (Link l)" using assms(1) unfolding plain_files_def by (metis node.distinct(3) node.distinct(7) option.distinct(1) option.inject)
  then have "resolve k follow t [] (p @ [x]) = Inr (p @ [x])" for k
    using assms resolve_plain [of "p @ [x]" t "[]" k follow] by simp
  then show ?thesis using root_parts_plain [of "p @ [x]"] assms(2) by (simp add: root_resolve_def)
qed

lemma mkdir_walk_makes:
  assumes "plain_files t" and "look t at = Some (Dir [])" and "list_all plain_name ps" and "mkdir_walk k t at ps = (t', None)"
  shows "look t' (at @ ps) = Some (Dir [])"
  using assms
proof (induction ps arbitrary: t at)
  case (Cons x ps)
  consider (new) "look t (at @ [x]) = None" | (old) "look t (at @ [x]) = Some (Dir [])" | (reg) d where "look t (at @ [x]) = Some (Reg d)"
    using plain_files_cases [OF Cons.prems(1), of "at @ [x]"] by (elim disjE exE)
  then show ?case
  proof cases
    case new
    have l: "look (put_node (at @ [x]) (Dir []) t) = (look t)(at @ [x] \<mapsto> Dir [])"
      using Cons.prems(2) new by (intro look_put_leaf) simp_all
    have "plain_files (put_node (at @ [x]) (Dir []) t)" by (rule plain_files_update [OF Cons.prems(1) l]) simp_all
    with Cons.IH [of "put_node (at @ [x]) (Dir []) t" "at @ [x]"] Cons.prems new l show ?thesis
      by (simp add: mkdir_walk_Cons plain_name_dots)
  next
    case old
    with Cons.prems Cons.IH [of t "at @ [x]"] show ?thesis by (simp add: mkdir_walk_Cons plain_name_dots)
  next
    case reg
    with Cons.prems show ?thesis by (simp add: mkdir_walk_Cons plain_name_dots)
  qed
qed simp

lemma mkdir_all_makes:
  assumes "plain_files t" and "list_all plain_name ps" and "ps \<noteq> []" and "root_mkdir_all env t (path_join ps) = (t', None)"
  shows "look t' ps = Some (Dir [])"
proof -
  have "mkdir_walk (re_links env) t [] ps = (t', None)"
    using assms(4) root_parts_plain [OF assms(3,2)] by (auto simp: root_mkdir_all_def split: option.splits prod.splits)
  with mkdir_walk_makes [of t "[]" ps] assms(1,2) show ?thesis by (auto simp: plain_files_def)
qed

section \<open>The record matches the disk\<close>

definition holds_blob :: "(string \<Rightarrow> string) \<Rightarrow> node \<Rightarrow> string \<times> string \<Rightarrow> bool" where
  "holds_blob H t e \<longleftrightarrow> validate_upload_filename (fst e) = None \<and>
     (\<exists>d. look t (path_parts (fst e)) = Some (Reg d) \<and> H d = snd e)"

definition uploads_ok :: "(string \<Rightarrow> string) \<Rightarrow> uploads \<Rightarrow> bool" where
  "uploads_ok H st \<longleftrightarrow> plain_files (up_root st) \<and> distinct (map fst (up_state st)) \<and>
     (\<forall>e \<in> set (up_state st). holds_blob H (up_root st) e) \<and>
     (\<forall>p d. look (up_root st) p = Some (Reg d) \<longrightarrow> p \<in> path_parts ` fst ` set (up_state st))"

lemma names_apart: "validate_upload_filename f = None \<Longrightarrow> validate_upload_filename g = None \<Longrightarrow> path_parts f = path_parts g \<Longrightarrow> f = g"
  using valid_name(2) by metis

text \<open>Two recorded files are not one inside the other.\<close>

lemma files_not_nested:
  assumes "holds_blob H t e" and "holds_blob H t e'" and "prefix (path_parts (fst e)) (path_parts (fst e'))"
  shows "fst e = fst e'"
proof (rule ccontr)
  assume "fst e \<noteq> fst e'"
  with assms names_apart have "path_parts (fst e) \<noteq> path_parts (fst e')" by (auto simp: holds_blob_def)
  with assms(3) obtain zs where "path_parts (fst e') = path_parts (fst e) @ zs" "zs \<noteq> []" by (auto simp: prefix_def)
  then obtain x q where "path_parts (fst e') = path_parts (fst e) @ x # q" by (cases zs) auto
  with assms look_below [of t "path_parts (fst e)" x q] show False by (auto simp: holds_blob_def)
qed

lemma remove_recorded:
  assumes "uploads_ok H st" and "(name, sha) \<in> set (up_state st)"
  shows "(\<exists>e. root_remove_all env (up_root st) name = (up_root st, Some (Fault e))) \<or>
    (\<exists>t. root_remove_all env (up_root st) name = (t, None) \<and>
       uploads_ok H (st\<lparr>up_root := t, up_state := AList.delete name (up_state st)\<rparr>))"
proof -
  define p where "p = path_parts name"
  have h: "holds_blob H (up_root st) (name, sha)" and pf: "plain_files (up_root st)"
    using assms by (auto simp: uploads_ok_def)
  then have v: "validate_upload_filename name = None" by (simp add: holds_blob_def)
  obtain q x where px: "p = q @ [x]" using valid_name(3) [OF v] by (cases p rule: rev_cases) (auto simp: p_def)
  have "look (up_root st) q = Some (Dir [])"
    using h look_below [of "up_root st" q x "[]"] by (auto simp: holds_blob_def p_def [symmetric] px)
  then have r: "root_resolve env False (up_root st) name = Inr p"
    using resolve_parent_dir [OF pf, of q x env False] valid_name(1,2) [OF v] by (simp add: p_def [symmetric] px)
  show ?thesis
  proof (cases "re_remove_fault env")
    case None
    have keep: "holds_blob H (drop_node p (up_root st)) e" if "e \<in> set (up_state st)" "fst e \<noteq> name" for e
    proof -
      have e: "holds_blob H (up_root st) e" using assms(1) that(1) by (simp add: uploads_ok_def)
      then have "\<not> prefix p (path_parts (fst e))" using files_not_nested [OF h e] that(2) by (auto simp: p_def)
      with e px show ?thesis by (simp add: holds_blob_def look_drop)
    qed
    have "uploads_ok H (st\<lparr>up_root := drop_node p (up_root st), up_state := AList.delete name (up_state st)\<rparr>)"
    proof -
      have "distinct (map fst (AList.delete name (up_state st)))" using assms(1) by (simp add: uploads_ok_def distinct_delete)
      moreover have "holds_blob H (drop_node p (up_root st)) e" if "e \<in> set (AList.delete name (up_state st))" for e
        using that keep by (auto simp: AList.delete_eq)
      moreover have "p' \<in> path_parts ` fst ` set (AList.delete name (up_state st))"
        if l: "look (drop_node p (up_root st)) p' = Some (Reg d)" for p' d
      proof -
        have "look (up_root st) p' = Some (Reg d)" "p' \<noteq> p" using l px by (auto simp: look_drop split: if_splits)
        then obtain f where "f \<in> fst ` set (up_state st)" "p' = path_parts f" "f \<noteq> name"
          using assms(1) unfolding uploads_ok_def p_def by blast
        then have "f \<in> fst ` set (AList.delete name (up_state st))" by (auto simp: AList.delete_eq)
        with \<open>p' = path_parts f\<close> show ?thesis by blast
      qed
      ultimately show ?thesis using plain_files_drop [OF pf] px by (simp add: uploads_ok_def)
    qed
    with None r show ?thesis by (simp add: root_remove_all_def)
  next
    case (Some e)
    with r show ?thesis by (simp add: root_remove_all_def)
  qed
qed

lemma drop_stale_ok:
  assumes "drop_stale envs i desired es st = (st', r)" and "uploads_ok H st" and "set es \<subseteq> set (up_state st)"
    and "distinct (map fst es)"
  shows "uploads_ok H st' \<and> (r = None \<longrightarrow> (\<forall>f. map_of (up_state st') f =
    (if f \<in> fst ` set es \<and> map_of desired f \<noteq> map_of es f then None else map_of (up_state st) f)))"
  using assms
proof (induction es arbitrary: i st)
  case (Cons e es)
  obtain name sha where e: "e = (name, sha)" by fastforce
  have notin: "name \<notin> fst ` set es" using Cons.prems(4) e by simp
  then have mo: "map_of es name = None" by (simp add: map_of_eq_None_iff)
  show ?case
  proof (cases "map_of desired name = Some sha")
    case True
    then have "drop_stale envs (Suc i) desired es st = (st', r)" using Cons.prems(1) e by simp
    from Cons.IH [OF this Cons.prems(2)] Cons.prems(3,4) e notin True show ?thesis by auto
  next
    case False
    from Cons.prems(3) e have "(name, sha) \<in> set (up_state st)" by simp
    from remove_recorded [OF Cons.prems(2) this, of "envs i"] show ?thesis
    proof (elim disjE exE conjE)
      fix err
      assume "root_remove_all (envs i) (up_root st) name = (up_root st, Some (Fault err))"
      with False Cons.prems e show ?thesis by auto
    next
      fix t
      assume t: "root_remove_all (envs i) (up_root st) name = (t, None)"
        and ok: "uploads_ok H (st\<lparr>up_root := t, up_state := AList.delete name (up_state st)\<rparr>)"
      have d: "drop_stale envs (Suc i) desired es (st\<lparr>up_root := t, up_state := AList.delete name (up_state st)\<rparr>) = (st', r)"
        using Cons.prems(1) False t e by simp
      have sub: "set es \<subseteq> set (AList.delete name (up_state st))"
        using Cons.prems(3) notin e by (force simp: AList.delete_eq)
      have dist: "distinct (map fst es)" using Cons.prems(4) by simp
      from Cons.IH [OF d ok] sub dist False notin mo e show ?thesis by (auto simp: delete_conv')
    qed
  qed
qed simp

lemma uploads_ok_added:
  assumes "uploads_ok H st" and "only_dirs_added (up_root st) t"
  shows "uploads_ok H (st\<lparr>up_root := t\<rparr>)"
proof -
  have same: "look t p = Some (Reg d) \<longleftrightarrow> look (up_root st) p = Some (Reg d)" for p d
  proof -
    have "look t p = look (up_root st) p \<or> look (up_root st) p = None \<and> look t p = Some (Dir [])"
      using assms(2) by (simp only: only_dirs_added_def)
    then show ?thesis by auto
  qed
  have "plain_files t" using assms plain_files_added by (auto simp: uploads_ok_def)
  moreover have "\<forall>e \<in> set (up_state st). holds_blob H t e"
    using assms(1) by (simp add: uploads_ok_def holds_blob_def same)
  moreover have "\<forall>p d. look t p = Some (Reg d) \<longrightarrow> p \<in> path_parts ` fst ` set (up_state st)"
    using assms(1) by (simp add: uploads_ok_def same)
  ultimately show ?thesis using assms(1) by (simp add: uploads_ok_def)
qed

text \<open>No write is cut short: either it fails before the file is opened, or it is complete.\<close>

definition uncut :: "root_env \<Rightarrow> bool" where
  [go_eval]: "uncut env \<longleftrightarrow> (case re_write_fault env of Some (Some _, _) \<Rightarrow> False | _ \<Rightarrow> True)"

lemma uploads_ok_written:
  assumes "uploads_ok H st" and "validate_upload_filename name = None" and "look t = (look (up_root st))(path_parts name \<mapsto> Reg data)"
  shows "uploads_ok H (st\<lparr>up_root := t, up_state := AList.update name (H data) (up_state st)\<rparr>)"
proof -
  have pf: "plain_files t"
    using assms(1) by (intro plain_files_update [OF _ assms(3) valid_name(3) [OF assms(2)]]) (simp_all add: uploads_ok_def)
  have dist: "distinct (map fst (AList.update name (H data) (up_state st)))"
    using assms(1) by (simp add: uploads_ok_def distinct_update)
  have "holds_blob H t e" if e: "e \<in> set (AList.update name (H data) (up_state st))" for e
  proof -
    have "map_of (AList.update name (H data) (up_state st)) (fst e) = Some (snd e)"
      using dist e by (metis map_of_eq_Some_iff prod.collapse)
    then consider "e = (name, H data)" | "fst e \<noteq> name" "map_of (up_state st) (fst e) = Some (snd e)"
      by (cases "fst e = name"; cases e) (auto simp: update_conv')
    then show ?thesis
    proof cases
      case 1
      with assms(2,3) show ?thesis by (simp add: holds_blob_def)
    next
      case 2
      then have "e \<in> set (up_state st)" by (metis map_of_SomeD prod.collapse)
      then have h: "holds_blob H (up_root st) e" using assms(1) by (simp add: uploads_ok_def)
      then have "path_parts (fst e) \<noteq> path_parts name" using 2(1) names_apart assms(2) by (auto simp: holds_blob_def)
      with h assms(3) show ?thesis by (simp add: holds_blob_def)
    qed
  qed
  moreover have "p \<in> path_parts ` fst ` set (AList.update name (H data) (up_state st))" if "look t p = Some (Reg d)" for p d
  proof (cases "p = path_parts name")
    case True
    have "name \<in> fst ` set (AList.update name (H data) (up_state st))"
      using dom_update [of name "H data" "up_state st"] by blast
    with True show ?thesis by blast
  next
    case False
    with that assms(3) have "look (up_root st) p = Some (Reg d)" by simp
    then have "p \<in> path_parts ` fst ` set (up_state st)" using assms(1) by (simp add: uploads_ok_def)
    moreover have "fst ` set (up_state st) \<subseteq> fst ` set (AList.update name (H data) (up_state st))"
      using dom_update [of name "H data" "up_state st"] by blast
    ultimately show ?thesis by blast
  qed
  ultimately show ?thesis using pf dist by (simp add: uploads_ok_def)
qed

lemma write_blob_ok:
  assumes "write_blob H renv env b st = (st', r)" and "uploads_ok H st" and "uncut renv"
  shows "uploads_ok H st' \<and>
    (case r of
       Some _ \<Rightarrow> up_state st' = up_state st
     | None \<Rightarrow> \<exists>data. b64_decode (ub_contents b) = Some data \<and> (ub_sha b = [] \<or> ub_sha b = H data) \<and>
         up_state st' = AList.update (ub_name b) (H data) (up_state st))"
proof (cases "validate_upload_filename (ub_name b) \<noteq> None \<or> b64_decode (ub_contents b) = None \<or>
    (\<exists>data. b64_decode (ub_contents b) = Some data \<and> ub_sha b \<noteq> [] \<and> ub_sha b \<noteq> H data)")
  case True
  with assms(1,2) show ?thesis by (auto simp: write_blob_def Let_def split: option.splits if_splits)
next
  case False
  then obtain data where v: "validate_upload_filename (ub_name b) = None" and data: "b64_decode (ub_contents b) = Some data"
    and sha: "ub_sha b = [] \<or> ub_sha b = H data" by auto
  define t where "t = up_root st"
  have pf: "plain_files t" using assms(2) by (simp add: uploads_ok_def t_def)
  obtain q x where p: "path_parts (ub_name b) = q @ [x]" using valid_name(3) [OF v] by (cases "path_parts (ub_name b)" rule: rev_cases) auto
  have pl: "list_all plain_name (q @ [x])" and name: "ub_name b = path_join (q @ [x])" using valid_name(1,2) [OF v] p by simp_all
  have dir: "path_dir (ub_name b) = (if q = [] then ''.'' else path_join q)" unfolding name by (rule path_dir_plain [OF pl])
  have nd: "path_join q \<noteq> ''.''" if "q \<noteq> []"
  proof
    assume "path_join q = ''.''"
    then have "q = path_parts ''.''" using plain_names_parts [OF that] pl by auto
    with pl show False by (simp add: path_parts_def plain_name_def)
  qed
  obtain t1 e1 where m: "(if path_dir (ub_name b) \<noteq> ''.'' then root_mkdir_all renv t (path_dir (ub_name b)) else (t, None)) = (t1, e1)"
    by fastforce
  have added: "only_dirs_added t t1"
    using m mkdir_all_adds [of t renv "path_dir (ub_name b)"] pf by (auto simp: plain_files_def split: if_splits)
  have ok1: "uploads_ok H (st\<lparr>up_root := t1\<rparr>)" using uploads_ok_added [OF assms(2)] added by (simp add: t_def)
  have w: "write_blob H renv env b st =
      (case e1 of
         Some e \<Rightarrow> (st\<lparr>up_root := t1\<rparr>, Some (respond_error 500 (fv_text env e)))
       | None \<Rightarrow>
           (case root_write_file renv t1 (ub_name b) data of
              (t2, Some e) \<Rightarrow> (st\<lparr>up_root := t2\<rparr>, Some (respond_error 500 (fv_text env e)))
            | (t2, None) \<Rightarrow>
                (st\<lparr>up_root := t2, up_state := AList.update (ub_name b) (H data) (up_state st)\<rparr>, None)))"
    using v data sha m by (auto simp: write_blob_def Let_def t_def split: prod.split)
  show ?thesis
  proof (cases e1)
    case (Some e)
    with w assms(1) ok1 show ?thesis by auto
  next
    case None
    have pf1: "plain_files t1" using plain_files_added [OF pf added] .
    have parent: "look t1 q = Some (Dir [])"
      using m None mkdir_all_makes [OF pf _ _, of q renv t1] pl dir nd pf by (cases "q = []") (auto simp: plain_files_def)
    have r: "root_resolve renv True t1 (ub_name b) = Inr (q @ [x])" unfolding name by (rule resolve_parent_dir [OF pf1 pl parent])
    show ?thesis
    proof (cases "root_write_file renv t1 (ub_name b) data")
      case (Pair t2 e2)
      show ?thesis
      proof (cases e2)
        case (Some e)
        then have "t2 = t1"
          using Pair r assms(3) by (auto simp: root_write_file_def uncut_def split: option.splits node.splits)
        with w None Pair Some assms(1) ok1 show ?thesis by auto
      next
        case n2: None
        have root: "look t1 [] = Some (Dir [])" using pf1 by (simp add: plain_files_def)
        have ns: "look t1 (q @ [x]) \<noteq> Some Special" using plain_files_cases [OF pf1, of "q @ [x]"] by auto
        have "look t2 = (look t1)(q @ [x] \<mapsto> Reg data)"
          using write_look [OF Pair [unfolded n2] root r ns] by simp
        then have "uploads_ok H (st\<lparr>up_root := t2, up_state := AList.update (ub_name b) (H data) (up_state st)\<rparr>)"
          using uploads_ok_written [OF ok1 v, of t2 data] p by simp
        with w None Pair n2 assms(1) data sha show ?thesis by auto
      qed
    qed
  qed
qed

text \<open>A range over a map visits every entry once.\<close>

definition fair :: "(nat \<Rightarrow> 'a list \<Rightarrow> 'a list) \<Rightarrow> bool" where
  "fair ord \<longleftrightarrow> (\<forall>i xs. mset (ord i xs) = mset xs)"

lemma fair_set: "fair ord \<Longrightarrow> set (ord i xs) = set xs"
  unfolding fair_def by (metis set_mset_mset)

lemma fair_distinct: "fair ord \<Longrightarrow> distinct (map fst xs) \<Longrightarrow> distinct (map fst (ord i xs))"
proof -
  assume f: "fair ord" and d: "distinct (map fst xs)"
  have "mset (map fst (ord i xs)) = mset (map fst xs)" using f by (simp add: fair_def)
  from mset_eq_imp_distinct_iff [OF this] d show ?thesis by simp
qed

lemma map_of_same_set:
  assumes "set xs = set ys" and "distinct (map fst ys)"
  shows "map_of xs = map_of ys"
proof
  fix f
  show "map_of xs f = map_of ys f"
  proof (cases "map_of ys f")
    case None
    then have "map_of xs f = None" using assms(1) by (simp add: map_of_eq_None_iff)
    with None show ?thesis by simp
  next
    case (Some v)
    then have "(f, v) \<in> set ys" by (rule map_of_SomeD)
    then have "f \<in> fst ` set xs" using assms(1) by (metis fst_conv image_eqI)
    then obtain w where w: "map_of xs f = Some w" by (metis map_of_eq_None_iff not_None_eq)
    then have "(f, w) \<in> set ys" using map_of_SomeD assms(1) by fastforce
    with assms(2) Some w show ?thesis by simp
  qed
qed

lemma manifest_keeps_ok:
  assumes "handle_manifest ord envs env body st = (st', resp)" and "uploads_ok H st" and "fair ord"
  shows "uploads_ok H st'"
proof (cases "decode_manifest body")
  case (Some entries)
  show ?thesis
  proof (cases "build_desired entries []")
    case (Inr desired)
    obtain st1 r where d: "drop_stale envs 0 desired (ord 0 (up_state st)) st = (st1, r)" by fastforce
    have dist: "distinct (map fst (up_state st))" using assms(2) by (simp add: uploads_ok_def)
    have "uploads_ok H st1"
      using drop_stale_ok [OF d assms(2)] fair_set [OF assms(3)] fair_distinct [OF assms(3) dist] by simp
    moreover have "st' = st1" using assms(1) Some Inr d by (auto simp: handle_manifest_def split: option.splits)
    ultimately show ?thesis by simp
  qed (use Some assms in \<open>simp add: handle_manifest_def\<close>)
qed (use assms in \<open>simp add: handle_manifest_def\<close>)

lemma write_blobs_keep_ok:
  assumes "write_blobs H envs i env bs st = (st', r)" and "uploads_ok H st" and "\<forall>i. uncut (envs i)"
  shows "uploads_ok H st'"
  using assms
proof (induction bs arbitrary: i st)
  case (Cons b bs)
  obtain st1 r1 where w: "write_blob H (envs i) env b st = (st1, r1)" by fastforce
  with write_blob_ok [OF w Cons.prems(2)] Cons.prems(3) have "uploads_ok H st1" by simp
  with w Cons show ?case by (cases r1) auto
qed simp

lemma blobs_keep_ok:
  assumes "handle_blobs H envs env body st = (st', resp)" and "uploads_ok H st" and "\<forall>i. uncut (envs i)"
  shows "uploads_ok H st'"
proof (cases "decode_blobs body")
  case (Some files)
  obtain st1 r where w: "write_blobs H envs 0 env files st = (st1, r)" by fastforce
  have "st' = st1" using assms(1) Some w by (auto simp: handle_blobs_def split: option.splits)
  with write_blobs_keep_ok [OF w assms(2,3)] show ?thesis by simp
qed (use assms in \<open>simp add: handle_blobs_def\<close>)

section \<open>The requests as steps\<close>

inductive upload_step :: "(string \<Rightarrow> string) \<Rightarrow> uploads \<Rightarrow> uploads \<Rightarrow> bool" for H where
  step_manifest: "fair ord \<Longrightarrow> handle_manifest ord envs env body st = (st', resp) \<Longrightarrow> upload_step H st st'"
| step_blobs: "\<forall>i. uncut (envs i) \<Longrightarrow> handle_blobs H envs env body st = (st', resp) \<Longrightarrow> upload_step H st st'"

definition no_uploads :: uploads where
  [go_eval]: "no_uploads = \<lparr>up_root = Dir [], up_state = []\<rparr>"

interpretation sync_requests: step_system "upload_step H" "uploads_ok H" "\<lambda>_ _. True" for H
  by unfold_locales (auto elim!: upload_step.cases intro: manifest_keeps_ok blobs_keep_ok)

lemma look_empty: "look (Dir []) p = (if p = [] then Some (Dir []) else None)"
  by (cases p) (simp_all add: look_def)

lemma no_uploads_ok: "uploads_ok H no_uploads"
  by (auto simp: uploads_ok_def no_uploads_def plain_files_def look_empty)

lemma reached_uploads_ok: "reaches (upload_step H) no_uploads st \<Longrightarrow> uploads_ok H st"
  using sync_requests.reaches_inv no_uploads_ok by blast

section \<open>Both requests together\<close>

lemma build_desired_ok:
  assumes "build_desired es acc = Inr desired" and "\<forall>f sha. map_of acc f = Some sha \<longrightarrow> validate_upload_filename f = None \<and> sha \<noteq> []"
    and "distinct (map fst acc)"
  shows "(\<forall>f sha. map_of desired f = Some sha \<longrightarrow> validate_upload_filename f = None \<and> sha \<noteq> []) \<and> distinct (map fst desired)"
  using assms
proof (induction es acc rule: build_desired.induct)
  case (2 name sha es acc)
  from "2.prems"(1) have v: "validate_upload_filename name = None" "sha \<noteq> []" "build_desired es (AList.update name sha acc) = Inr desired"
    by (cases "validate_upload_filename name"; simp split: if_splits)+
  show ?case
  proof (rule "2.IH" [OF v(1,2,3)])
    show "\<forall>f sha'. map_of (AList.update name sha acc) f = Some sha' \<longrightarrow> validate_upload_filename f = None \<and> sha' \<noteq> []"
      using "2.prems"(2) v(1,2) by (auto simp: update_conv')
    show "distinct (map fst (AList.update name sha acc))" using "2.prems"(3) by (rule distinct_update)
  qed
qed auto

lemma write_blobs_record:
  assumes "write_blobs H envs i env bs st = (st', None)" and "uploads_ok H st" and "\<forall>i. uncut (envs i)"
    and "\<forall>b \<in> set bs. ub_sha b \<noteq> []"
  shows "map_of (up_state st') = map_of (rev (map (\<lambda>b. (ub_name b, ub_sha b)) bs) @ up_state st)"
  using assms
proof (induction bs arbitrary: i st)
  case (Cons b bs)
  obtain st1 r1 where w: "write_blob H (envs i) env b st = (st1, r1)" by fastforce
  with Cons.prems(1) have "r1 = None" and ws: "write_blobs H envs (Suc i) env bs st1 = (st', None)" by (auto split: option.splits)
  with write_blob_ok [OF w Cons.prems(2)] Cons.prems(3,4)
  have ok: "uploads_ok H st1" and u: "up_state st1 = AList.update (ub_name b) (ub_sha b) (up_state st)" by auto
  have "map_of (up_state st') = map_of (rev (map (\<lambda>b. (ub_name b, ub_sha b)) bs) @ up_state st1)"
    using Cons.IH [OF ws ok Cons.prems(3)] Cons.prems(4) by simp
  also have "\<dots> = map_of (rev (map (\<lambda>b. (ub_name b, ub_sha b)) (b # bs)) @ up_state st)"
    by (simp only: u map_of_append update_conv' list.map rev.simps) simp
  finally show ?case .
qed simp

lemma manifest_accepted:
  assumes "handle_manifest ord envs env body st = (st', resp)" and "hr_status resp = 200" and "uploads_ok H st" and "fair ord"
  obtains entries desired where "decode_manifest body = Some entries" "build_desired entries [] = Inr desired"
    "resp = respond_json 200 (missing_json (missing_entries (ord 1 desired) st'))"
    "map_of (up_state st') = (\<lambda>f. if map_of desired f = map_of (up_state st) f then map_of (up_state st) f else None)"
proof -
  from assms(1,2) obtain entries where e: "decode_manifest body = Some entries"
    by (cases "decode_manifest body") (auto simp: handle_manifest_def)
  with assms(1,2) obtain desired where d: "build_desired entries [] = Inr desired"
    by (cases "build_desired entries []") (auto simp: handle_manifest_def)
  from assms(1,2) e d have s: "drop_stale envs 0 desired (ord 0 (up_state st)) st = (st', None)"
    and r: "resp = respond_json 200 (missing_json (missing_entries (ord 1 desired) st'))"
    by (auto simp: handle_manifest_def split: prod.splits option.splits)
  have dist: "distinct (map fst (up_state st))" using assms(3) by (simp add: uploads_ok_def)
  have m: "map_of (ord 0 (up_state st)) = map_of (up_state st)"
    using fair_set [OF assms(4)] by (rule map_of_same_set [OF _ dist])
  have "map_of (up_state st') f = (if map_of desired f = map_of (up_state st) f then map_of (up_state st) f else None)" for f
  proof (cases "f \<in> fst ` set (up_state st)")
    case False
    then have "map_of (up_state st) f = None" by (simp add: map_of_eq_None_iff)
    with False m drop_stale_ok [OF s assms(3)] fair_set [OF assms(4)] fair_distinct [OF assms(4) dist] show ?thesis by simp
  next
    case True
    with m drop_stale_ok [OF s assms(3)] fair_set [OF assms(4)] fair_distinct [OF assms(4) dist] show ?thesis by simp
  qed
  with that [OF e d r] show thesis by blast
qed

section \<open>Properties\<close>

lemma uploads_ok_disk:
  assumes "uploads_ok H st"
  shows "\<And>f sha. map_of (up_state st) f = Some sha \<Longrightarrow> \<exists>d. look (up_root st) (path_parts f) = Some (Reg d) \<and> H d = sha"
    and "\<And>p d. look (up_root st) p = Some (Reg d) \<Longrightarrow> \<exists>f. p = path_parts f \<and> map_of (up_state st) f = Some (H d)"
proof -
  show blob: "\<exists>d. look (up_root st) (path_parts f) = Some (Reg d) \<and> H d = sha" if "map_of (up_state st) f = Some sha" for f sha
    using assms map_of_SomeD [OF that] by (auto simp: uploads_ok_def holds_blob_def)
  fix p d
  assume l: "look (up_root st) p = Some (Reg d)"
  with assms have "p \<in> path_parts ` fst ` set (up_state st)" by (simp add: uploads_ok_def)
  then obtain f where f: "p = path_parts f" "f \<in> fst ` set (up_state st)" by blast
  then obtain sha where "map_of (up_state st) f = Some sha" by (metis map_of_eq_None_iff not_None_eq)
  with blob [OF this] f l show "\<exists>f. p = path_parts f \<and> map_of (up_state st) f = Some (H d)" by auto
qed

lemma write_blobs_refused: "write_blobs H envs i env bs st = (st', Some resp) \<Longrightarrow> hr_status resp \<noteq> 200"
proof (induction bs arbitrary: i st)
  case (Cons b bs)
  obtain st1 r1 where w: "write_blob H (envs i) env b st = (st1, r1)" by fastforce
  show ?case
  proof (cases r1)
    case None
    with w Cons show ?thesis by simp
  next
    case (Some resp')
    then have "hr_status resp' \<noteq> 200"
      using w by (auto simp: write_blob_def Let_def split: option.splits if_splits prod.splits)
    with w Some Cons.prems show ?thesis by simp
  qed
qed simp

lemma blobs_accepted:
  assumes "handle_blobs H envs env body st = (st', resp)" and "hr_status resp = 200" and "decode_blobs body = Some files"
  shows "write_blobs H envs 0 env files st = (st', None)"
proof -
  obtain st1 r where w: "write_blobs H envs 0 env files st = (st1, r)" by fastforce
  with assms write_blobs_refused [of H envs 0 env files st st1] show ?thesis
    by (cases r) (auto simp: handle_blobs_def)
qed


lemma listed_files:
  assumes "map_of (up_state st1) = (\<lambda>f. if map_of desired f = map_of m f then map_of m f else None)"
    and "\<forall>f sha. map_of desired f = Some sha \<longrightarrow> sha \<noteq> []" and "distinct (map fst desired)" and "fair ord"
    and "set (map (\<lambda>b. (ub_name b, ub_sha b)) files) = set (missing_entries (ord i desired) st1)"
  shows "\<forall>b \<in> set files. ub_sha b \<noteq> []"
    and "map_of (rev (map (\<lambda>b. (ub_name b, ub_sha b)) files) @ up_state st1) = map_of desired"
proof -
  let ?missing = "missing_entries (ord i desired) st1"
  have in_missing: "(f, sha) \<in> set ?missing \<longleftrightarrow> map_of desired f = Some sha \<and> recorded st1 f \<noteq> sha" for f sha
    using assms(3) by (auto simp: missing_entries_def fair_set [OF assms(4)])
  show "\<forall>b \<in> set files. ub_sha b \<noteq> []"
  proof
    fix b
    assume "b \<in> set files"
    then have "(ub_name b, ub_sha b) \<in> set ?missing" unfolding assms(5) [symmetric] by simp
    with in_missing assms(2) show "ub_sha b \<noteq> []" by blast
  qed
  have "distinct (map fst ?missing)"
    unfolding missing_entries_def by (intro distinct_map_filter fair_distinct [OF assms(4,3)])
  then have "map_of (rev (map (\<lambda>b. (ub_name b, ub_sha b)) files)) = map_of ?missing"
    using assms(5) by (intro map_of_same_set) simp_all
  moreover have "(map_of (up_state st1) ++ map_of ?missing) f = map_of desired f" for f
  proof (cases "map_of ?missing f")
    case None
    then have "(f, sha) \<notin> set ?missing" for sha by (metis map_of_eq_None_iff fst_conv image_eqI)
    then have rec: "recorded st1 f = sha" if "map_of desired f = Some sha" for sha using in_missing that by blast
    have "map_of (up_state st1) f = map_of desired f"
    proof (cases "map_of desired f")
      case (Some sha)
      with rec [OF Some] assms(2) show ?thesis by (auto simp: recorded_def split: option.splits)
    qed (simp add: assms(1))
    with None show ?thesis by (simp add: map_add_def)
  next
    case (Some sha)
    then have "map_of desired f = Some sha" using map_of_SomeD [OF Some] in_missing by blast
    with Some show ?thesis by (simp add: map_add_def)
  qed
  ultimately show "map_of (rev (map (\<lambda>b. (ub_name b, ub_sha b)) files) @ up_state st1) = map_of desired" by auto
qed


text \<open>A concrete synchronisation: one file, in a directory that is not there yet.\<close>

definition sample_hash :: "string \<Rightarrow> string" where
  [go_eval]: "sample_hash d = ''h'' @ d"

definition sample_manifest :: json where
  [go_eval]: "sample_manifest = JObj [(''manifest'', JArr [JObj [(''filename'', JStr ''a/b.txt''), (''sha256'', JStr ''hhi'')]])]"

definition sample_blobs :: json where
  [go_eval]: "sample_blobs = JObj [(''files'', JArr [JObj [(''filename'', JStr ''a/b.txt''), (''sha256'', JStr ''hhi''),
     (''contents'', JStr (b64_encode ''hi''))]])]"

definition sample_synced :: uploads where
  [go_eval]: "sample_synced = \<lparr>up_root = Dir [(''a'', Dir [(''b.txt'', Reg ''hi'')])], up_state = [(''a/b.txt'', ''hhi'')]\<rparr>"

lemma sample_manifest_decoded: "decode_manifest (json_text sample_manifest) = Some [(''a/b.txt'', ''hhi'')]"
  by code_simp

lemma sample_blobs_decoded:
  "decode_blobs (json_text sample_blobs) = Some [\<lparr>ub_name = ''a/b.txt'', ub_sha = ''hhi'', ub_contents = b64_encode ''hi''\<rparr>]"
proof -
  have "length (json_text sample_blobs) = 67" by code_simp
  then have "take max_request_bytes (json_text sample_blobs) = json_text sample_blobs" by (simp add: max_request_bytes_def)
  moreover have "Option.bind (Option.bind (json_decode (json_text sample_blobs)) struct_members) blobs_of =
      Some [\<lparr>ub_name = ''a/b.txt'', ub_sha = ''hhi'', ub_contents = b64_encode ''hi''\<rparr>]" by code_simp
  ultimately show ?thesis by (simp add: decode_blobs_def)
qed

lemma sample_desired: "build_desired [(''a/b.txt'', ''hhi'')] [] = Inr [(''a/b.txt'', ''hhi'')]"
  by code_simp

lemma sample_manifest_run:
  "handle_manifest (\<lambda>_ xs. xs) (\<lambda>_. fv_root sample_files) sample_files (json_text sample_manifest) no_uploads =
     (no_uploads, respond_json 200 (missing_json [(''a/b.txt'', ''hhi'')]))"
  unfolding handle_manifest_def sample_manifest_decoded option.case sample_desired sum.case
  by (simp add: no_uploads_def missing_entries_def recorded_def)

lemma sample_blobs_run:
  "handle_blobs sample_hash (\<lambda>_. fv_root sample_files) sample_files (json_text sample_blobs) no_uploads =
     (sample_synced, respond_json 200 (JObj [(''written'', JInt 1)]))"
proof -
  have "write_blob sample_hash (fv_root sample_files) sample_files
      \<lparr>ub_name = ''a/b.txt'', ub_sha = ''hhi'', ub_contents = b64_encode ''hi''\<rparr> no_uploads = (sample_synced, None)" by code_simp
  then show ?thesis by (simp add: handle_blobs_def sample_blobs_decoded)
qed

lemma sample_uncut: "\<forall>i::nat. uncut ((\<lambda>_. fv_root sample_files) i)"
  by (simp add: uncut_def sample_files_def)



section \<open>What the record does not say\<close>

text \<open>Dropping a file leaves the directories made for it, and a file by the name of such a directory is refused.\<close>

lemma leftover_directory_blocks:
  "drop_stale (\<lambda>_. fv_root sample_files) 0 [(''a'', ''hx'')] (up_state sample_synced) sample_synced =
     (\<lparr>up_root = Dir [(''a'', Dir [])], up_state = []\<rparr>, None)"
  "write_blob sample_hash (fv_root sample_files) sample_files \<lparr>ub_name = ''a'', ub_sha = ''hx'', ub_contents = b64_encode ''x''\<rparr>
     \<lparr>up_root = Dir [(''a'', Dir [])], up_state = []\<rparr> =
     (\<lparr>up_root = Dir [(''a'', Dir [])], up_state = []\<rparr>, Some (respond_error 500 (fv_text sample_files Is_Dir)))"
  by code_simp+

text \<open>A write that is cut short has already changed the file, and leaves its old hash on record.\<close>

lemma cut_write_keeps_record:
  "write_blob sample_hash ((fv_root sample_files)\<lparr>re_write_fault := Some (Some 1, ''no space'')\<rparr>) sample_files
     \<lparr>ub_name = ''a/b.txt'', ub_sha = ''hyo'', ub_contents = b64_encode ''yo''\<rparr> sample_synced =
     (\<lparr>up_root = Dir [(''a'', Dir [(''b.txt'', Reg ''y'')])], up_state = [(''a/b.txt'', ''hhi'')]\<rparr>,
      Some (respond_error 500 (fv_text sample_files (Fault ''no space''))))"
  by code_simp

end
