(* ===== verification/Go_Net.thy ===== *)
theory Go_Net imports Go_Url Json_Roundtrip Go_Path "HOL-Library.Word" begin

text \<open>
  IPv4 addresses and networks as Go's \<open>net\<close> package reads and prints them: \<open>ParseCIDR\<close>, \<open>IP.String\<close>,
  \<open>IPNet.Contains\<close>, \<open>IsLoopback\<close>. An address is a 32-bit word. IPv6 texts are not read here: an IPv6
  network contains no IPv4 address, and IPv4 is all that both sides of the session look for (the form that
  maps IPv4 into IPv6 is left out).
\<close>

unbundle bit_operations_syntax

type_synonym ip4 = "32 word"

section \<open>Definitions\<close>

definition octets :: "ip4 \<Rightarrow> nat list" where
  [go_eval]: "octets w =
     (let n = uint w in map nat [n div 16777216, n div 65536 mod 256, n div 256 mod 256, n mod 256])"

definition of_octets :: "nat list \<Rightarrow> ip4" where
  [go_eval]: "of_octets ds = word_of_int (foldl (\<lambda>a d. 256 * a + int d) 0 ds)"

definition ip_string :: "ip4 \<Rightarrow> string" where
  [go_eval]: "ip_string w = join ''.'' (map nat_digits (octets w))"

definition parse_ip4 :: "string \<Rightarrow> ip4 option" where
  [go_eval]: "parse_ip4 s =
     (if ip4_fields_ok s then Some (of_octets (map digits_val (split_byte CHR ''.'' s))) else None)"

definition cidr_mask :: "nat \<Rightarrow> ip4" where
  [go_eval]: "cidr_mask n = push_bit (32 - n) (- 1)"

text \<open>\<open>IPNet.Contains\<close> of the network that \<open>ParseCIDR\<close> makes of an address and a length.\<close>

definition same_net :: "nat \<Rightarrow> ip4 \<Rightarrow> ip4 \<Rightarrow> bool" where
  [go_eval]: "same_net n a b \<longleftrightarrow> a AND cidr_mask n = b AND cidr_mask n"

definition is_loopback :: "ip4 \<Rightarrow> bool" where
  [go_eval]: "is_loopback a \<longleftrightarrow> drop_bit 24 a = 127"

definition parse_cidr :: "string \<Rightarrow> (ip4 \<times> nat) option" where
  [go_eval]: "parse_cidr s =
     (if CHR ''/'' \<notin> set s then None
      else
        (case cut_byte CHR ''/'' s of
           (addr, len) \<Rightarrow>
             (case parse_ip4 addr of
                None \<Rightarrow> None
              | Some ip \<Rightarrow>
                  if len \<noteq> [] \<and> list_all is_digit len \<and> digits_val len \<le> 32 then Some (ip, digits_val len) else None)))"

definition cidr_string :: "ip4 \<Rightarrow> nat \<Rightarrow> string" where
  [go_eval]: "cidr_string ip n = ip_string ip @ ''/'' @ nat_digits n"

section \<open>Printed addresses are read back\<close>

lemma uint_ip4: "0 \<le> uint (w :: ip4)" "uint (w :: ip4) < 4294967296"
  using uint_lt2p [of w] by simp_all

lemma octets_small: "\<forall>d \<in> set (octets w). d < 256"
proof -
  have "uint w div 16777216 < 256" using uint_ip4(2) [of w] by linarith
  moreover have "x mod 256 < 256" for x :: int by simp
  ultimately have "\<forall>x \<in> set [uint w div 16777216, uint w div 65536 mod 256, uint w div 256 mod 256, uint w mod 256]. x < 256"
    by (simp only: list.set ball_simps)
  then show ?thesis by (simp only: octets_def Let_def set_map ball_simps) (simp add: nat_less_iff)
qed

lemma of_octets_octets: "of_octets (octets w) = w"
proof -
  define n where "n = uint w"
  have n: "0 \<le> n" by (simp add: n_def)
  have "256 * (256 * (256 * (n div 16777216) + n div 65536 mod 256) + n div 256 mod 256) + n mod 256 = n"
  proof -
    have "n div 16777216 = n div 65536 div 256" "n div 65536 = n div 256 div 256"
      using zdiv_zmult2_eq [of 256 n 65536] zdiv_zmult2_eq [of 256 n 256] by simp_all
    then show ?thesis by (simp only: mult_div_mod_eq)
  qed
  moreover have "int (nat (n div 16777216)) = n div 16777216" "int (nat (n div 65536 mod 256)) = n div 65536 mod 256"
      "int (nat (n div 256 mod 256)) = n div 256 mod 256" "int (nat (n mod 256)) = n mod 256"
    using n by (simp_all add: div_int_pos_iff)
  ultimately have "foldl (\<lambda>a d. 256 * a + int d) 0 (octets w) = n"
    by (simp only: octets_def Let_def n_def [symmetric] list.map foldl.simps mult_zero_right add_0)
  then show ?thesis by (simp add: of_octets_def n_def)
qed

lemma octet_ok_digits: "d < 256 \<Longrightarrow> octet_ok (nat_digits d)"
proof -
  assume d: "d < 256"
  have "length (nat_digits d) = 1 \<or> hd (nat_digits d) \<noteq> CHR ''0''"
  proof (cases "d = 0")
    case False
    then obtain x xs where "nat_digits d = digit_char x # xs" "0 < x" "x < 10" using nat_digits_first by blast
    then show ?thesis using digit_char_nonzero [of x] by simp
  qed (simp add: nat_digits.simps)
  then show ?thesis using d nat_digits_digits [of d] by (simp add: octet_ok_def list_all_iff)
qed

lemma digits_no_stop: "\<not> is_digit c \<Longrightarrow> c \<notin> set (nat_digits d)"
  using nat_digits_digits by blast

lemma dot_no_digit: "\<not> is_digit CHR ''.''" "\<not> is_digit CHR ''/''"
  by code_simp+

lemma split_dots: "split_byte CHR ''.'' (ip_string w) = map nat_digits (octets w)"
proof -
  obtain a b c d where o: "octets w = [a, b, c, d]" by (simp add: octets_def Let_def)
  have n: "CHR ''.'' \<notin> set (nat_digits x)" for x by (rule digits_no_stop [OF dot_no_digit(1)])
  show ?thesis by (simp add: ip_string_def o split_byte_Cons_stop n split_byte_notin)
qed

lemma parse_ip_string: "parse_ip4 (ip_string w) = Some w"
proof -
  have "list_all octet_ok (map nat_digits (octets w))"
    using octets_small [of w] octet_ok_digits by (simp add: list_all_iff)
  moreover have "length (octets w) = 4" by (simp add: octets_def Let_def)
  moreover have "map digits_val (map nat_digits (octets w)) = octets w" by (simp add: comp_def)
  ultimately show ?thesis by (simp add: parse_ip4_def ip4_fields_ok_def split_dots of_octets_octets Let_def)
qed

lemma slash_not_in_ip: "CHR ''/'' \<notin> set (ip_string w)"
proof -
  obtain a b c d where o: "octets w = [a, b, c, d]" by (simp add: octets_def Let_def)
  show ?thesis using digits_no_stop [OF dot_no_digit(2)] by (simp add: ip_string_def o)
qed

lemma parse_cidr_string: "n \<le> 32 \<Longrightarrow> parse_cidr (cidr_string ip n) = Some (ip, n)"
  using slash_not_in_ip [of ip] nat_digits_digits [of n]
  by (simp add: parse_cidr_def cidr_string_def cut_byte_def takeWhile_append_stop dropWhile_append_stop parse_ip_string list_all_iff)

lemma same_net_sym: "same_net n a b \<longleftrightarrow> same_net n b a"
  by (auto simp: same_net_def)

end
