(* ===== verification/Session.thy ===== *)
theory Session imports Go_Net Executor_Files begin

text \<open>
  How the executor learns its egress proxy: \<open>proxyCandidates\<close> and \<open>pushSessionInit\<close> of
  \<open>api-server/main.go\<close> on one side of the socket, \<open>handleSessionInit\<close>, \<open>selectProxy\<close> and
  \<open>commandEnv\<close> of \<open>executor/session.go\<close> on the other. What \<open>net.InterfaceAddrs\<close> lists on each side,
  the fate of the file write and of each attempt to push are arguments.
\<close>

section \<open>Interfaces\<close>

text \<open>An interface's IPv4 address with the length of its mask, or an address of any other kind.\<close>

datatype if_addr = If_Net4 ip4 nat | If_Other

section \<open>The executor\<close>

fun usable_local :: "nat \<Rightarrow> ip4 \<Rightarrow> if_addr \<Rightarrow> bool" where
  "usable_local n ip (If_Net4 mine k) \<longleftrightarrow> \<not> is_loopback mine \<and> same_net n ip mine"
| "usable_local n ip If_Other \<longleftrightarrow> False"

fun first_match :: "if_addr list \<Rightarrow> string list \<Rightarrow> ip4 option" where
  "first_match local [] = None"
| "first_match local (c # cs) =
     (case parse_cidr c of
        None \<Rightarrow> first_match local cs
      | Some (ip, n) \<Rightarrow> if list_ex (usable_local n ip) local then Some ip else first_match local cs)"

definition proxy_url :: "ip4 \<Rightarrow> string \<Rightarrow> string" where
  [go_eval]: "proxy_url ip port = ''http://'' @ ip_string ip @ '':'' @ port"

definition select_proxy :: "string + if_addr list \<Rightarrow> string list \<Rightarrow> string \<Rightarrow> string + string" where
  [go_eval]: "select_proxy ifs candidates port =
     (case ifs of
        Inl e \<Rightarrow> Inl (''listing interfaces: '' @ e)
      | Inr local \<Rightarrow>
          (case first_match local candidates of
             Some ip \<Rightarrow> Inr (proxy_url ip port)
           | None \<Rightarrow> Inl (''no candidate in ['' @ join '' '' candidates @ ''] shares a subnet with this container'')))"

record init_request =
  ir_candidates :: "string slice"
  ir_port :: string
  ir_ca :: string
  ir_no_proxy :: string

definition init_fields :: "(string \<times> jval \<times> string) list \<Rightarrow> init_request option" where
  [go_eval]: "init_fields ms =
     (if strings_field_ok ''proxy_candidates'' ms \<and> string_field_ok ''proxy_port'' ms \<and> string_field_ok ''ca_pem'' ms \<and>
         string_field_ok ''no_proxy'' ms
      then Some \<lparr>ir_candidates = strings_field ''proxy_candidates'' ms, ir_port = string_field ''proxy_port'' ms,
                 ir_ca = string_field ''ca_pem'' ms, ir_no_proxy = string_field ''no_proxy'' ms\<rparr>
      else None)"

definition decode_init :: "string \<Rightarrow> init_request option" where
  [go_eval]: "decode_init body =
     Option.bind (Option.bind (json_decode (take 1048576 body)) struct_members) init_fields"

record session =
  ss_env :: "string list"
  ss_set :: bool
  ss_ca :: "string option"

record init_env =
  ie_addrs :: "string + if_addr list"
  ie_ca_fault :: "(string option \<times> string) option"

definition ca_path :: string where
  [go_eval]: "ca_path = ''/tmp/tinfoil-egress-ca.pem''"

definition proxy_vars :: "string \<Rightarrow> string \<Rightarrow> string list" where
  [go_eval]: "proxy_vars proxy no_proxy =
     [''HTTP_PROXY='' @ proxy, ''HTTPS_PROXY='' @ proxy, ''http_proxy='' @ proxy, ''https_proxy='' @ proxy,
      ''NO_PROXY='' @ no_proxy, ''no_proxy='' @ no_proxy, ''NODE_USE_ENV_PROXY=1'']"

definition ca_vars :: "string list" where
  [go_eval]: "ca_vars =
     [''SSL_CERT_FILE='' @ ca_path, ''REQUESTS_CA_BUNDLE='' @ ca_path, ''CURL_CA_BUNDLE='' @ ca_path,
      ''NODE_EXTRA_CA_CERTS='' @ ca_path, ''GIT_SSL_CAINFO='' @ ca_path]"

definition handle_session_init :: "init_env \<Rightarrow> string \<Rightarrow> session \<Rightarrow> session \<times> http_response" where
  [go_eval]: "handle_session_init env body st =
     (case decode_init body of
        None \<Rightarrow> (st, respond_error 400 ''invalid json'')
      | Some req \<Rightarrow>
          if elems (ir_candidates req) = [] then (st, respond_error 400 ''proxy_candidates is required'')
          else if ir_port req = [] then (st, respond_error 400 ''proxy_port is required'')
          else
            (case select_proxy (ie_addrs env) (elems (ir_candidates req)) (ir_port req) of
               Inl e \<Rightarrow> (st, respond_error 400 e)
             | Inr proxy \<Rightarrow>
                 let vars = proxy_vars proxy (ir_no_proxy req);
                     ok = respond_json 200 (JObj [(''status'', JStr ''ok'')])
                 in if ir_ca req = [] then (st\<lparr>ss_env := vars, ss_set := True\<rparr>, ok)
                    else
                      (case ie_ca_fault env of
                         Some (left, e) \<Rightarrow> (st\<lparr>ss_ca := left\<rparr>, respond_error 500 (''writing CA: '' @ e))
                       | None \<Rightarrow> (st\<lparr>ss_env := vars @ ca_vars, ss_set := True, ss_ca := Some (ir_ca req)\<rparr>, ok))))"

definition command_env :: "string list \<Rightarrow> session \<Rightarrow> string list" where
  [go_eval]: "command_env environ st = (if \<not> ss_set st then environ else environ @ ss_env st)"

section \<open>The api-server\<close>

definition shim_net_cidr :: string where
  [go_eval]: "shim_net_cidr = ''172.31.255.0/30''"

fun candidate :: "ip4 \<Rightarrow> nat \<Rightarrow> if_addr \<Rightarrow> string list" where
  "candidate shim bits (If_Net4 ip n) = (if is_loopback ip \<or> same_net bits shim ip then [] else [cidr_string ip n])"
| "candidate shim bits If_Other = []"

definition proxy_candidates :: "string + if_addr list \<Rightarrow> string + string list" where
  [go_eval]: "proxy_candidates ifs =
     (case parse_cidr shim_net_cidr of
        None \<Rightarrow> Inl (''invalid CIDR address: '' @ shim_net_cidr)
      | Some (shim, bits) \<Rightarrow>
          (case ifs of
             Inl e \<Rightarrow> Inl e
           | Inr addrs \<Rightarrow>
               let out = concat (map (candidate shim bits) addrs) in
               if out = [] then Inl ''no sandbox-facing IPv4 address found'' else Inr out))"

definition init_payload :: "string list \<Rightarrow> string \<Rightarrow> string \<Rightarrow> json" where
  [go_eval]: "init_payload candidates port ca =
     JObj [(''ca_pem'', JStr ca), (''no_proxy'', JStr ''localhost,127.0.0.1''),
           (''proxy_candidates'', JArr (map JStr candidates)), (''proxy_port'', JStr port)]"

definition env_or :: "(string \<times> string) list \<Rightarrow> string \<Rightarrow> string \<Rightarrow> string" where
  [go_eval]: "env_or environ key def =
     (case map_of environ key of None \<Rightarrow> def | Some v \<Rightarrow> if v \<noteq> [] then v else def)"

text \<open>One attempt to push: the request cannot be built, it fails, or it is answered with a status.\<close>

datatype push_try = Push_Unbuilt | Push_Failed | Push_Answered int

record push_env =
  pe_try :: "nat \<Rightarrow> push_try"
  pe_done :: "nat \<Rightarrow> bool"

text \<open>How many attempts were made in the end, and whether the last one was accepted.\<close>

partial_function (option) push_rounds :: "push_env \<Rightarrow> nat \<Rightarrow> (nat \<times> bool) option" where
  "push_rounds env i =
     (if pe_try env i = Push_Unbuilt then Some (Suc i, False)
      else if pe_try env i = Push_Answered 200 then Some (Suc i, True)
      else if pe_done env i then Some (Suc i, False)
      else push_rounds env (Suc i))"

section \<open>Lemmas\<close>

lemma first_match_Some:
  assumes "first_match local cs = Some ip"
  obtains c n where "c \<in> set cs" "parse_cidr c = Some (ip, n)" "list_ex (usable_local n ip) local"
proof -
  have "\<exists>c n. c \<in> set cs \<and> parse_cidr c = Some (ip, n) \<and> list_ex (usable_local n ip) local"
    using assms
  proof (induction cs)
    case (Cons c cs)
    show ?case
    proof (cases "parse_cidr c")
      case None
      with Cons show ?thesis by auto
    next
      case (Some r)
      obtain ip' n where "r = (ip', n)" by fastforce
      with Some Cons show ?thesis by (cases "list_ex (usable_local n ip') local") auto
    qed
  qed simp
  with that show thesis by blast
qed

lemma first_match_None:
  "first_match local cs = None \<Longrightarrow> c \<in> set cs \<Longrightarrow> parse_cidr c = Some (ip, n) \<Longrightarrow> \<not> list_ex (usable_local n ip) local"
  by (induction cs) (auto split: option.splits prod.splits if_splits)

lemma list_ex_local: "list_ex (usable_local n ip) local \<longleftrightarrow> (\<exists>mine k. If_Net4 mine k \<in> set local \<and> \<not> is_loopback mine \<and> same_net n ip mine)"
  unfolding list_ex_iff by (metis usable_local.elims(2) usable_local.simps(1))

definition shim_net :: ip4 where
  [go_eval]: "shim_net = 2887778048"

lemma shim_parsed: "parse_cidr shim_net_cidr = Some (shim_net, 30)"
  by code_simp

definition offered :: "if_addr list \<Rightarrow> ip4 \<Rightarrow> nat \<Rightarrow> bool" where
  "offered addrs ip n \<longleftrightarrow> If_Net4 ip n \<in> set addrs \<and> \<not> is_loopback ip \<and> \<not> same_net 30 shim_net ip"

lemma candidates_offered:
  assumes "proxy_candidates (Inr addrs) = Inr cands"
  shows "cands \<noteq> []" "c \<in> set cands \<longleftrightarrow> (\<exists>ip n. offered addrs ip n \<and> c = cidr_string ip n)"
proof -
  have c: "cands = concat (map (candidate shim_net 30) addrs)" "cands \<noteq> []"
    using assms by (auto simp: proxy_candidates_def shim_parsed Let_def split: if_splits)
  have "c \<in> set (candidate shim_net 30 a) \<longleftrightarrow> (\<exists>ip n. a = If_Net4 ip n \<and> \<not> is_loopback ip \<and> \<not> same_net 30 shim_net ip \<and> c = cidr_string ip n)" for a
    by (cases a) auto
  with c show "cands \<noteq> []" "c \<in> set cands \<longleftrightarrow> (\<exists>ip n. offered addrs ip n \<and> c = cidr_string ip n)"
    by (auto simp: offered_def)
qed

lemma payload_decoded:
  assumes "length (json_text (init_payload cands port ca)) \<le> 1048576"
  shows "decode_init (json_text (init_payload cands port ca)) =
    Some \<lparr>ir_candidates = Some cands, ir_port = port, ir_ca = ca, ir_no_proxy = ''localhost,127.0.0.1''\<rparr>"
proof -
  have "json_decode (json_text (init_payload cands port ca)) = Some (value_of (init_payload cands port ca))"
    by (rule decode_text) (simp_all add: init_payload_def list_all_iff)
  with assms show ?thesis
    by (simp add: decode_init_def struct_members_def init_fields_def string_field_ok_def string_field_def strings_field_ok_def
        strings_field_def field_values_def init_payload_def to_lower_char_def list_all_iff comp_def)
qed

lemma push_rounds_found:
  assumes "\<forall>j < k. pe_try env j \<noteq> Push_Unbuilt \<and> pe_try env j \<noteq> Push_Answered 200 \<and> \<not> pe_done env j" and "pe_try env k = Push_Answered 200"
    and "i \<le> k"
  shows "push_rounds env i = Some (Suc k, True)"
  using assms(3)
proof (induction "k - i" arbitrary: i)
  case 0
  then show ?case using assms(2) by (subst push_rounds.simps) simp
next
  case (Suc d)
  then have "push_rounds env (Suc i) = Some (Suc k, True)" by simp
  then show ?case using Suc assms(1) by (subst push_rounds.simps) auto
qed

section \<open>Properties\<close>

text \<open>
  C32. The executor finds its proxy. Given the payload that the api-server makes of its own addresses, the
  executor accepts exactly when one of the offered addresses (neither loopback nor on the shim's network) is
  on a network of its own; then every later command runs with the variables of such an address and of the
  interception certificate after the inherited ones. A refusal changes nothing.
\<close>

theorem pushed_proxy_reachable:
  assumes "proxy_candidates (Inr addrs) = Inr cands" and "\<forall>ip n. If_Net4 ip n \<in> set addrs \<longrightarrow> n \<le> 32"
    and "ie_addrs env = Inr local" and "ie_ca_fault env = None" and "port \<noteq> []"
    and "length (json_text (init_payload cands port ca)) \<le> 1048576"
    and "handle_session_init env (json_text (init_payload cands port ca)) st = (st', resp)"
  shows "(hr_status resp = 200 \<longleftrightarrow> (\<exists>ip n mine k. offered addrs ip n \<and> If_Net4 mine k \<in> set local \<and> \<not> is_loopback mine \<and> same_net n ip mine)) \<and>
    (hr_status resp = 200 \<longrightarrow> (\<exists>ip n mine k. offered addrs ip n \<and> If_Net4 mine k \<in> set local \<and> \<not> is_loopback mine \<and> same_net n ip mine \<and>
       (\<forall>environ. command_env environ st' =
          environ @ proxy_vars (proxy_url ip port) ''localhost,127.0.0.1'' @ (if ca = [] then [] else ca_vars)) \<and>
       (ca \<noteq> [] \<longrightarrow> ss_ca st' = Some ca))) \<and>
    (hr_status resp \<noteq> 200 \<longrightarrow> st' = st)"
proof -
  have parsed: "parse_cidr (cidr_string ip n) = Some (ip, n)" if "offered addrs ip n" for ip n
    using that assms(2) by (intro parse_cidr_string) (auto simp: offered_def)
  have h: "handle_session_init env (json_text (init_payload cands port ca)) st =
      (case first_match local cands of
         None \<Rightarrow> (st, respond_error 400 (''no candidate in ['' @ join '' '' cands @ ''] shares a subnet with this container''))
       | Some ip \<Rightarrow> (if ca = [] then st\<lparr>ss_env := proxy_vars (proxy_url ip port) ''localhost,127.0.0.1'', ss_set := True\<rparr>
            else st\<lparr>ss_env := proxy_vars (proxy_url ip port) ''localhost,127.0.0.1'' @ ca_vars, ss_set := True, ss_ca := Some ca\<rparr>,
          respond_json 200 (JObj [(''status'', JStr ''ok'')])))"
    using payload_decoded [OF assms(6)] candidates_offered(1) [OF assms(1)] assms(3-5)
    by (simp add: handle_session_init_def select_proxy_def Let_def split: option.split)
  show ?thesis
  proof (cases "first_match local cands")
    case None
    have "\<not> list_ex (usable_local n ip) local" if "offered addrs ip n" for ip n
      using first_match_None [OF None _ parsed [OF that]] candidates_offered(2) [OF assms(1)] that by blast
    then show ?thesis using h None assms(7) by (auto simp: list_ex_local)
  next
    case (Some ip)
    obtain c n where c: "c \<in> set cands" "parse_cidr c = Some (ip, n)" "list_ex (usable_local n ip) local"
      by (rule first_match_Some [OF Some])
    from c(1) candidates_offered(2) [OF assms(1)] obtain ip' n' where "offered addrs ip' n'" "c = cidr_string ip' n'" by blast
    with c(2) parsed have o: "offered addrs ip n" by auto
    obtain mine k where m: "If_Net4 mine k \<in> set local" "\<not> is_loopback mine" "same_net n ip mine"
      using c(3) by (auto simp: list_ex_local)
    have "hr_status resp = 200" and st': "\<And>environ. command_env environ st' =
          environ @ proxy_vars (proxy_url ip port) ''localhost,127.0.0.1'' @ (if ca = [] then [] else ca_vars)"
      and "ca \<noteq> [] \<longrightarrow> ss_ca st' = Some ca"
      using h Some assms(7) by (auto simp: command_env_def)
    with o m show ?thesis by blast
  qed
qed

text \<open>The api-server on the networks of the shim, of the internet and of the sandbox; the executor on the last.\<close>

definition sample_addrs :: "if_addr list" where
  [go_eval]: "sample_addrs = [If_Net4 2130706433 8, If_Other, If_Net4 2887778050 30, If_Net4 167772418 24, If_Net4 167772674 24]"

definition sample_init :: init_env where
  [go_eval]: "sample_init = \<lparr>ie_addrs = Inr [If_Net4 2130706433 8, If_Net4 167772675 24], ie_ca_fault = None\<rparr>"

definition no_session :: session where
  [go_eval]: "no_session = \<lparr>ss_env = [], ss_set = False, ss_ca = None\<rparr>"

lemma sample_candidates: "proxy_candidates (Inr sample_addrs) = Inr [''10.0.1.2/24'', ''10.0.2.2/24'']"
  by code_simp

theorem pushed_proxy_reachable_witness:
  "\<exists>st' resp ip n. handle_session_init sample_init (json_text (init_payload [''10.0.1.2/24'', ''10.0.2.2/24''] ''3128'' ''PEM'')) no_session = (st', resp) \<and>
     hr_status resp = 200 \<and> offered sample_addrs ip n \<and>
     command_env [] st' = proxy_vars (proxy_url ip ''3128'') ''localhost,127.0.0.1'' @ ca_vars"
proof -
  obtain st' resp where h: "handle_session_init sample_init (json_text (init_payload [''10.0.1.2/24'', ''10.0.2.2/24''] ''3128'' ''PEM'')) no_session = (st', resp)"
    by fastforce
  have len: "length (json_text (init_payload [''10.0.1.2/24'', ''10.0.2.2/24''] ''3128'' ''PEM'')) \<le> 1048576"
  proof -
    have "length (json_text (init_payload [''10.0.1.2/24'', ''10.0.2.2/24''] ''3128'' ''PEM'')) = 118" by code_simp
    then show ?thesis by simp
  qed
  have b: "\<forall>ip n. If_Net4 ip n \<in> set sample_addrs \<longrightarrow> n \<le> 32" by (simp add: sample_addrs_def)
  have e: "ie_addrs sample_init = Inr [If_Net4 2130706433 8, If_Net4 167772675 24]" "ie_ca_fault sample_init = None"
    by (simp_all add: sample_init_def)
  have o: "offered sample_addrs 167772674 24"
  proof -
    have "\<not> is_loopback 167772674" "\<not> same_net 30 shim_net 167772674" by code_simp+
    then show ?thesis by (simp add: offered_def sample_addrs_def)
  qed
  have m: "\<not> is_loopback 167772675" "same_net 24 167772674 167772675" by code_simp+
  have port: "''3128'' \<noteq> []" by simp
  note p = pushed_proxy_reachable [OF sample_candidates b e port len h]
  have "If_Net4 167772675 24 \<in> set [If_Net4 2130706433 8, If_Net4 167772675 24]" by simp
  with p o m have "hr_status resp = 200" by blast
  with p obtain ip n where "offered sample_addrs ip n"
      "command_env [] st' = [] @ proxy_vars (proxy_url ip ''3128'') ''localhost,127.0.0.1'' @ (if ''PEM'' = [] then [] else ca_vars)"
    by blast
  with h \<open>hr_status resp = 200\<close> show ?thesis by auto
qed

end
