(* ===== verification/Executor_Server.thy ===== *)
theory Executor_Server imports Executor_Exec Snapshot Uploads Session begin

text \<open>
  The executor as one server: the routes of its \<open>main\<close> (\<open>executor/main.go\<close>) over the handlers of \<open>main.go\<close>,
  \<open>snapshot.go\<close>, \<open>uploads.go\<close> and \<open>session.go\<close>, and the state they share. Paths are clean, as all that the
  api-server sends are.
\<close>

section \<open>Routes\<close>

datatype exec_route = Route_Exec | Route_Read | Route_Write | Route_Snapshot | Route_Restore
  | Route_Manifest | Route_Blobs | Route_Init | Route_Health

definition executor_routes :: "(string \<times> exec_route) list" where
  [go_eval]: "executor_routes =
     [(''/exec'', Route_Exec), (''/read'', Route_Read), (''/write'', Route_Write), (''/snapshot'', Route_Snapshot),
      (''/restore'', Route_Restore), (''/sync-uploads/manifest'', Route_Manifest), (''/sync-uploads/blobs'', Route_Blobs),
      (''/session/init'', Route_Init), (''/health'', Route_Health)]"

record executor =
  ex_tree :: node
  ex_uploads :: uploads
  ex_session :: session

record executor_env =
  xv_environ :: "string list"
  xv_exec :: exec_env
  xv_files :: file_env
  xv_tar :: tar_lib
  xv_tar_fault :: "(nat \<times> string \<times> string) option"
  xv_close_ok :: bool
  xv_restore :: restore_env
  xv_order :: "nat \<Rightarrow> (string \<times> string) list \<Rightarrow> (string \<times> string) list"
  xv_roots :: "nat \<Rightarrow> root_env"
  xv_init :: init_env

text \<open>What comes of a request: a response with its trailers, the death of the process, or nothing ever.\<close>

datatype exec_result = Served http_response "string list" "(string \<times> string) list" | Died string | Hangs

definition snapshot_response :: "string \<times> string \<Rightarrow> exec_result" where
  [go_eval]: "snapshot_response bt =
     Served \<lparr>hr_status = 200, hr_headers = [(''Content-Type'', ''application/json'')], hr_body = fst bt\<rparr>
       [''X-Snapshot-Status''] (if snd bt = [] then [] else [(''X-Snapshot-Status'', snd bt)])"

definition executor_serve :: "(string \<Rightarrow> string) \<Rightarrow> executor_env \<Rightarrow> string \<Rightarrow> string \<Rightarrow> executor \<Rightarrow> executor \<times> exec_result" where
  [go_eval]: "executor_serve H env path body ex =
     (case map_of executor_routes path of
        None \<Rightarrow> (ex, Served mux_not_found [] [])
      | Some Route_Exec \<Rightarrow>
          (case handle_exec (xv_exec env) (command_env (xv_environ env) (ex_session ex)) body (ex_tree ex) of
             None \<Rightarrow> (ex, Hangs)
           | Some (t, Exec_Answer r) \<Rightarrow> (ex\<lparr>ex_tree := t\<rparr>, Served r [] [])
           | Some (t, Exec_Fatal m) \<Rightarrow> (ex\<lparr>ex_tree := t\<rparr>, Died m))
      | Some Route_Read \<Rightarrow> (ex, Served (handle_read (xv_files env) body (ex_tree ex)) [] [])
      | Some Route_Write \<Rightarrow>
          (case handle_write (xv_files env) body (ex_tree ex) of (t, r) \<Rightarrow> (ex\<lparr>ex_tree := t\<rparr>, Served r [] []))
      | Some Route_Snapshot \<Rightarrow>
          (ex, snapshot_response (handle_snapshot (xv_tar env) (xv_tar_fault env) (xv_close_ok env) (ex_tree ex)))
      | Some Route_Restore \<Rightarrow>
          (case handle_restore (xv_restore env) body (ex_tree ex) of (t, r) \<Rightarrow> (ex\<lparr>ex_tree := t\<rparr>, Served r [] []))
      | Some Route_Manifest \<Rightarrow>
          (case handle_manifest (xv_order env) (xv_roots env) (xv_files env) body (ex_uploads ex) of
             (u, r) \<Rightarrow> (ex\<lparr>ex_uploads := u\<rparr>, Served r [] []))
      | Some Route_Blobs \<Rightarrow>
          (case handle_blobs H (xv_roots env) (xv_files env) body (ex_uploads ex) of
             (u, r) \<Rightarrow> (ex\<lparr>ex_uploads := u\<rparr>, Served r [] []))
      | Some Route_Init \<Rightarrow>
          (case handle_session_init (xv_init env) body (ex_session ex) of (s, r) \<Rightarrow> (ex\<lparr>ex_session := s\<rparr>, Served r [] []))
      | Some Route_Health \<Rightarrow> (ex, Served exec_health [] []))"

text \<open>
  \<open>main\<close> up to the point where it serves: what it dies of, or the state it starts with. The contents of the
  two roots, and the failures of the calls it makes, are given; a socket that is not there is no failure.
\<close>

record executor_boot =
  xb_workspace :: "string + node"
  xb_uploads :: "string + node"
  xb_remove :: "string option"
  xb_listen :: "string option"
  xb_chmod :: "string option"

definition socket_path :: string where
  [go_eval]: "socket_path = ''/run/execsock/exec.sock''"

definition executor_main :: "executor_boot \<Rightarrow> string + executor" where
  [go_eval]: "executor_main bt =
     (case xb_workspace bt of
        Inl e \<Rightarrow> Inl (''open workspace root /workspace: '' @ e)
      | Inr t \<Rightarrow>
          (case xb_uploads bt of
             Inl e \<Rightarrow> Inl (''open uploads root /user-uploads: '' @ e)
           | Inr u \<Rightarrow>
               (case xb_remove bt of
                  Some e \<Rightarrow> Inl (''removing stale socket: '' @ e)
                | None \<Rightarrow>
                    (case xb_listen bt of
                       Some e \<Rightarrow> Inl (''listen unix '' @ socket_path @ '': '' @ e)
                     | None \<Rightarrow>
                         (case xb_chmod bt of
                            Some e \<Rightarrow> Inl (''chmod socket: '' @ e)
                          | None \<Rightarrow> Inr \<lparr>ex_tree = t, ex_uploads = \<lparr>up_root = u, up_state = []\<rparr>,
                              ex_session = \<lparr>ss_env = [], ss_set = False, ss_ca = None\<rparr>\<rparr>)))))"

text \<open>The commands a request makes the executor start.\<close>

definition commands_run :: "executor_env \<Rightarrow> string \<Rightarrow> string \<Rightarrow> string list" where
  [go_eval]: "commands_run env path body =
     (if map_of executor_routes path = Some Route_Exec then
        (case decode_exec body of
           None \<Rightarrow> []
         | Some c \<Rightarrow> if c \<noteq> [] \<and> xe_out_temp (xv_exec env) = None \<and> xe_err_temp (xv_exec env) = None then [c] else [])
      else [])"

lemma executor_routed [simp]:
  "map_of executor_routes ''/exec'' = Some Route_Exec" "map_of executor_routes ''/write'' = Some Route_Write"
  "map_of executor_routes ''/snapshot'' = Some Route_Snapshot" "map_of executor_routes ''/restore'' = Some Route_Restore"
  "map_of executor_routes ''/session/init'' = Some Route_Init"
  by (simp_all add: executor_routes_def)

lemma exec_route_path: "map_of executor_routes path = Some Route_Exec \<longleftrightarrow> path = ''/exec''"
  by (auto simp: executor_routes_def)

text \<open>A container that starts with empty directories starts with a true record of its uploads and no proxy.\<close>

lemma executor_starts_clean:
  assumes "executor_main bt = Inr ex" and "xb_uploads bt = Inr (Dir [])"
  shows "uploads_ok H (ex_uploads ex) \<and> command_env vars (ex_session ex) = vars"
proof -
  have "ex_uploads ex = \<lparr>up_root = Dir [], up_state = []\<rparr>" "\<not> ss_set (ex_session ex)"
    using assms by (auto simp: executor_main_def split: sum.splits option.splits)
  then show ?thesis using no_uploads_ok by (simp add: command_env_def no_uploads_def)
qed

section \<open>What an answer looks like\<close>

datatype shape = Str_Shape | Int_Shape | List_Shape shape | Object_Shape "(string \<times> shape) list"

fun fits :: "shape \<Rightarrow> json \<Rightarrow> bool" where
  "fits Str_Shape (JStr s) = True"
| "fits Int_Shape (JInt n) = True"
| "fits (List_Shape sh) (JArr xs) = list_all (fits sh) xs"
| "fits (Object_Shape fs) (JObj kvs) = list_all2 (\<lambda>f kv. fst f = fst kv \<and> fits (snd f) (snd kv)) fs kvs"
| "fits sh j = False"

text \<open>The response types of the handlers, as they are declared.\<close>

definition answer_shape :: "exec_route \<Rightarrow> shape" where
  [go_eval]: "answer_shape rt = Object_Shape
     (case rt of
        Route_Exec \<Rightarrow> [(''stdout'', Str_Shape), (''stderr'', Str_Shape), (''exit_code'', Int_Shape)]
      | Route_Read \<Rightarrow> [(''path'', Str_Shape), (''contents'', Str_Shape)]
      | Route_Write \<Rightarrow> [(''path'', Str_Shape), (''size'', Int_Shape)]
      | Route_Snapshot \<Rightarrow> [(''tar'', Str_Shape)]
      | Route_Manifest \<Rightarrow> [(''missing'', List_Shape (Object_Shape [(''filename'', Str_Shape), (''sha256'', Str_Shape)]))]
      | Route_Blobs \<Rightarrow> [(''written'', Int_Shape)]
      | _ \<Rightarrow> [(''status'', Str_Shape)])"

definition error_shape :: shape where
  [go_eval]: "error_shape = Object_Shape [(''error'', Str_Shape)]"

definition answered :: "exec_route \<Rightarrow> http_response \<Rightarrow> bool" where
  "answered rt resp \<longleftrightarrow> hr_headers resp = [(''Content-Type'', ''application/json'')] \<and> hr_status resp \<in> {200, 400, 404, 413, 500} \<and>
     (\<exists>j. json_unmarshal (hr_body resp) = Some (value_of j) \<and>
        fits (if hr_status resp = 200 then answer_shape rt else error_shape) j)"

lemma fits_printable: "fits sh j \<Longrightarrow> json_plain j \<and> json_ok j"
proof (induction sh j rule: fits.induct)
  case (4 fs kvs)
  have "json_plain (snd kv) \<and> json_ok (snd kv)" if "kv \<in> set kvs" for kv
  proof -
    from that obtain i where i: "i < length kvs" "kv = kvs ! i" by (auto simp: in_set_conv_nth)
    with 4(2) have "fs ! i \<in> set fs" "fst (fs ! i) = fst kv" "fits (snd (fs ! i)) (snd kv)"
      by (simp_all add: list_all2_conv_all_nth)
    with 4(1) that show ?thesis by blast
  qed
  then show ?case by (simp add: list_all_iff)
qed (simp_all add: list_all_iff)

lemma answered_json: "fits (answer_shape rt) j \<Longrightarrow> answered rt (respond_json 200 j)"
  using fits_printable unmarshal_line by (auto simp: answered_def respond_json_def)

lemma answered_error: "status \<in> {400, 404, 413, 500} \<Longrightarrow> answered rt (respond_error status m)"
  using unmarshal_line [of "JObj [(''error'', JStr m)]"]
  by (auto simp: answered_def respond_error_def respond_json_def error_shape_def intro!: exI [of _ "JObj [(''error'', JStr m)]"])

lemmas answered_intros = answered_json answered_error

lemma answered_refusal: "answered rt (decode_refusal env body)"
  by (simp add: decode_refusal_def answered_error)

lemma answered_exec: "handle_exec env vars body t = Some (t', Exec_Answer r) \<Longrightarrow> answered Route_Exec r"
  by (auto simp: handle_exec_def exec_answer_def exec_response_def answer_shape_def Let_def
      split: option.splits prod.splits sum.splits run_error.splits if_splits intro!: answered_intros)

lemma answered_read: "answered Route_Read (handle_read env body t)"
  by (auto simp: handle_read_def read_response_def answer_shape_def
      split: option.splits sum.splits node.splits intro!: answered_intros)

lemma answered_write: "answered Route_Write (snd (handle_write env body t))"
  by (auto simp: handle_write_def write_response_def answer_shape_def answered_refusal
      split: option.splits sum.splits prod.splits intro!: answered_intros)

lemma answered_restore: "answered Route_Restore (snd (handle_restore env body t))"
  by (auto simp: handle_restore_def restore_response_def answer_shape_def answered_refusal
      split: option.splits sum.splits prod.splits intro!: answered_intros)

lemma answered_manifest: "answered Route_Manifest (snd (handle_manifest ord envs env body u))"
  by (auto simp: handle_manifest_def missing_json_def answer_shape_def list_all_iff
      split: option.splits sum.splits prod.splits intro!: answered_intros)

lemma answered_blob: "write_blob H renv env b u = (u', Some r) \<Longrightarrow> answered rt r"
  by (auto simp: write_blob_def Let_def split: option.splits prod.splits if_splits intro!: answered_error)

lemma answered_blobs_error: "write_blobs H envs i env bs u = (u', Some r) \<Longrightarrow> answered rt r"
  by (induction H envs i env bs u rule: write_blobs.induct) (auto split: prod.splits option.splits dest: answered_blob)

lemma answered_blobs: "answered Route_Blobs (snd (handle_blobs H envs env body u))"
  by (auto simp: handle_blobs_def answer_shape_def answered_refusal dest: answered_blobs_error
      split: option.splits prod.splits intro!: answered_json)

lemma answered_init: "answered Route_Init (snd (handle_session_init env body st))"
  by (auto simp: handle_session_init_def answer_shape_def Let_def split: option.splits sum.splits prod.splits intro!: answered_intros)


lemma answered_health: "answered Route_Health exec_health"
proof -
  have b: "hr_body exec_health = json_text (JObj [(''status'', JStr ''ok'')])" by code_simp
  have "json_unmarshal (hr_body exec_health) = Some (value_of (JObj [(''status'', JStr ''ok'')]))"
    unfolding b by (rule decode_text) simp_all
  then show ?thesis
    by (auto simp: answered_def answer_shape_def exec_health_def simp del: value_of_obj
        intro!: exI [of _ "JObj [(''status'', JStr ''ok'')]"])
qed

lemma served_answered:
  assumes "executor_serve H env path body ex = (ex', Served resp announced trailers)"
    and "map_of executor_routes path = Some rt" and "rt \<noteq> Route_Snapshot"
  shows "answered rt resp"
proof (cases rt)
  case Route_Exec
  with assms(1,2) show ?thesis
    by (auto simp: executor_serve_def split: option.splits prod.splits exec_end.splits intro: answered_exec)
next
  case Route_Write
  then show ?thesis
    using assms(1,2) answered_write [of "xv_files env" body "ex_tree ex"] by (auto simp: executor_serve_def split: prod.splits)
next
  case Route_Restore
  then show ?thesis
    using assms(1,2) answered_restore [of "xv_restore env" body "ex_tree ex"] by (auto simp: executor_serve_def split: prod.splits)
next
  case Route_Manifest
  then show ?thesis
    using assms(1,2) answered_manifest [of "xv_order env" "xv_roots env" "xv_files env" body "ex_uploads ex"]
    by (auto simp: executor_serve_def split: prod.splits)
next
  case Route_Blobs
  then show ?thesis
    using assms(1,2) answered_blobs [of H "xv_roots env" "xv_files env" body "ex_uploads ex"]
    by (auto simp: executor_serve_def split: prod.splits)
next
  case Route_Init
  then show ?thesis
    using assms(1,2) answered_init [of "xv_init env" body "ex_session ex"] by (auto simp: executor_serve_def split: prod.splits)
qed (use assms answered_read answered_health in \<open>auto simp: executor_serve_def\<close>)

lemma snapshot_answered:
  assumes "executor_serve H env ''/snapshot'' body ex = (ex', Served resp announced trailers)" and "trailers \<noteq> []"
  shows "answered Route_Snapshot resp"
proof -
  obtain b tr where h: "handle_snapshot (xv_tar env) (xv_tar_fault env) (xv_close_ok env) (ex_tree ex) = (b, tr)" by fastforce
  with assms have r: "resp = \<lparr>hr_status = 200, hr_headers = [(''Content-Type'', ''application/json'')], hr_body = b\<rparr>" and t: "tr \<noteq> []"
    by (auto simp: executor_serve_def snapshot_response_def)
  have "tr = ''ok''" using h t by (auto simp: handle_snapshot_def Let_def split: prod.splits option.splits if_splits)
  from ok_snapshot(2) [OF h [unfolded this]] obtain c where b: "b = json_text (JObj [(''tar'', JStr c)])" by blast
  have "json_unmarshal b = Some (value_of (JObj [(''tar'', JStr c)]))" unfolding b by (rule decode_text) simp_all
  moreover have "fits (answer_shape Route_Snapshot) (JObj [(''tar'', JStr c)])" by (simp add: answer_shape_def)
  ultimately show ?thesis by (auto simp: answered_def r simp del: value_of_obj intro!: exI [of _ "JObj [(''tar'', JStr c)]"])
qed


definition sample_env :: executor_env where
  "sample_env = \<lparr>xv_environ = [], xv_exec = sample_exec, xv_files = sample_files, xv_tar = sample_tar, xv_tar_fault = None,
     xv_close_ok = True, xv_restore = sample_restore, xv_order = (\<lambda>_ xs. xs), xv_roots = (\<lambda>_. fv_root sample_files),
     xv_init = sample_init\<rparr>"

definition sample_executor :: executor where
  "sample_executor = \<lparr>ex_tree = Dir [], ex_uploads = \<lparr>up_root = Dir [], up_state = []\<rparr>, ex_session = no_session\<rparr>"

lemma sample_exec_served:
  "executor_serve H sample_env ''/exec'' sample_exec_body sample_executor =
     (sample_executor, Served (respond_json 200 (exec_response ''out'' [] 0)) [] [])"
  using sample_exec_run
  by (simp add: executor_serve_def exec_route_path sample_env_def sample_executor_def command_env_def no_session_def)


end
