(* ===== verification/Control_Server.thy ===== *)
theory Control_Server imports Tool_Proxy Audit_Api Session begin

text \<open>
  The control side of the api-server as one server: the routes that \<open>main\<close> (\<open>api-server/main.go\<close>) gives to
  \<open>proxyHandler\<close>, \<open>healthHandler\<close> and, behind \<open>requireAuth\<close>, to the handlers of the audit API, over the gate and
  the control plane that they share; the load of the signer that \<open>main\<close> starts beside it. Paths are clean.
\<close>

section \<open>Routes\<close>

datatype control_route = To_Executor | To_Health | To_Head | To_Log | To_Session | To_Resume

definition control_routes :: "(string \<times> control_route) list" where
  [go_eval]: "control_routes =
     [(''/exec'', To_Executor), (''/read'', To_Executor), (''/write'', To_Executor), (''/snapshot'', To_Executor),
      (''/restore'', To_Executor), (''/sync-uploads/manifest'', To_Executor), (''/sync-uploads/blobs'', To_Executor),
      (''/health'', To_Health), (''/audit/head'', To_Head), (''/audit/log'', To_Log), (''/audit/session'', To_Session),
      (''/audit/resume'', To_Resume)]"

record 'k api_server =
  as_gate :: gate
  as_control :: "'k control"

text \<open>A request with the parameters \<open>from\<close> and \<open>to\<close> of its query.\<close>

record control_request =
  cr_tool :: tool_request
  cr_from :: string
  cr_to :: string

record 'k control_env =
  ve_begin :: begin_env
  ve_finish :: finish_env
  ve_executor :: "string \<Rightarrow> stream \<Rightarrow> do_result"
  ve_probe :: do_result
  ve_api :: api_env
  ve_sign :: "'k \<Rightarrow> string \<Rightarrow> string + string"
  ve_digest :: "string \<Rightarrow> string"
  ve_now :: string

text \<open>The handlers behind \<open>requireAuth\<close>.\<close>

definition audit_serve :: "(string \<Rightarrow> string) \<Rightarrow> 'k control_env \<Rightarrow> control_route \<Rightarrow> control_request \<Rightarrow> 'k control \<Rightarrow> 'k control \<times> http_response" where
  [go_eval]: "audit_serve H env route req cn =
     (let body = concat (st_chunks (tr_body (cr_tool req))) in
      case route of
        To_Head \<Rightarrow> (cn, fst (handle_head (ve_sign env) (ve_digest env) (ve_now env) cn))
      | To_Log \<Rightarrow> (cn, handle_log (cr_from req) (cr_to req) cn)
      | To_Session \<Rightarrow> handle_session H (ve_api env) body cn
      | To_Resume \<Rightarrow> handle_resume H (ve_api env) body cn
      | _ \<Rightarrow> (cn, mux_not_found))"

definition control_serve :: "(string \<Rightarrow> string) \<Rightarrow> 'k control_env \<Rightarrow> control_request \<Rightarrow> 'k api_server \<Rightarrow> 'k api_server \<times> http_response" where
  [go_eval]: "control_serve H env req srv =
     (let cn = as_control srv; eg = cn_egress cn in
      case map_of control_routes (tr_path (cr_tool req)) of
        None \<Rightarrow> (srv, mux_not_found)
      | Some To_Executor \<Rightarrow>
          (case proxy_handler H (ve_begin env) (ve_finish env) (ve_executor env) (cr_tool req)
                  \<lparr>ts_gate = as_gate srv, ts_log = eg_log eg\<rparr> of
             (ts, resp) \<Rightarrow> (srv\<lparr>as_gate := ts_gate ts, as_control := cn\<lparr>cn_egress := eg\<lparr>eg_log := ts_log ts\<rparr>\<rparr>\<rparr>, resp))
      | Some To_Health \<Rightarrow> (srv, health_handler (ve_probe env) (cn_signer_err cn) (cn_signer_ready cn))
      | Some route \<Rightarrow>
          (case require_auth (tr_token (cr_tool req)) (as_gate srv) of
             (g, Some resp) \<Rightarrow> (srv\<lparr>as_gate := g\<rparr>, resp)
           | (g, None) \<Rightarrow>
               (case audit_serve H env route req cn of
                  (cn', resp) \<Rightarrow> (srv\<lparr>as_gate := g, as_control := cn'\<rparr>, resp))))"

text \<open>The goroutine of \<open>main\<close> that waits for the key; \<open>None\<close> while \<open>LoadSigner\<close> is still waiting.\<close>

definition install_signer :: "(string + 'k signer) option \<Rightarrow> 'k control \<Rightarrow> 'k control" where
  [go_eval]: "install_signer loaded cn =
     (case loaded of
        None \<Rightarrow> cn
      | Some (Inl e) \<Rightarrow> cn\<lparr>cn_signer_err := Some e\<rparr>
      | Some (Inr s) \<Rightarrow> set_signer s cn)"

definition new_api_server :: "string \<Rightarrow> string \<Rightarrow> string \<Rightarrow> 'k api_server" where
  [go_eval]: "new_api_server seg now ca_fp = \<lparr>as_gate = new_gate, as_control = new_control seg now ca_fp\<rparr>"

text \<open>
  \<open>main\<close>: the server, where the two ports listen, and the body that is pushed to the executor, if an address
  for it is found. The certificate authority, that may fail, is its fingerprint and its PEM text.
\<close>

definition shim_upstream_ip :: string where
  [go_eval]: "shim_upstream_ip = ''172.31.255.2''"

definition proxy_port :: string where
  [go_eval]: "proxy_port = ''3128''"

record 'k api_start =
  st_server :: "'k api_server"
  st_push :: "string option"
  st_proxy_addr :: string
  st_control_addr :: string

definition api_main :: "string \<Rightarrow> string \<Rightarrow> string + (string \<times> string) \<Rightarrow> string + if_addr list \<Rightarrow> (string \<times> string) list \<Rightarrow>
    string + 'k api_start" where
  [go_eval]: "api_main seg now ca addrs environ =
     (case ca of
        Inl e \<Rightarrow> Inl (''api-server: '' @ e)
      | Inr (ca_fp, ca_pem) \<Rightarrow> Inr
          \<lparr>st_server = new_api_server seg now ca_fp,
           st_push = (case proxy_candidates addrs of
                        Inl _ \<Rightarrow> None
                      | Inr candidates \<Rightarrow> Some (json_text (init_payload candidates proxy_port ca_pem))),
           st_proxy_addr = env_or environ ''PROXY_LISTEN'' ('':'' @ proxy_port),
           st_control_addr = env_or environ ''CONTROL_LISTEN'' (shim_upstream_ip @ '':8000'')\<rparr>)"

inductive server_step :: "(string \<Rightarrow> string) \<Rightarrow> 'k api_server \<Rightarrow> 'k api_server \<Rightarrow> bool" for H where
  server_request: "control_serve H env req srv = (srv', resp) \<Longrightarrow> server_step H srv srv'"
| server_signer: "server_step H srv (srv\<lparr>as_control := install_signer loaded (as_control srv)\<rparr>)"

text \<open>The control port is an address of the shim's network, none of which is ever offered to the executor.\<close>

lemma control_address_in_shim_net: "case parse_ip4 shim_upstream_ip of Some ip \<Rightarrow> same_net 30 shim_net ip | None \<Rightarrow> False"
  by code_simp

lemma no_shim_address_offered:
  "proxy_candidates (Inr addrs) = Inr cs \<Longrightarrow> c \<in> set cs \<Longrightarrow> \<exists>ip n. c = cidr_string ip n \<and> \<not> same_net 30 shim_net ip"
  using candidates_offered(2) by (auto simp: offered_def)

text \<open>The token that opens every route but one, once there is one.\<close>

lemma check_refused:
  assumes "gt_token g \<noteq> []" and "tok \<noteq> gt_token g"
  shows "\<exists>status msg. check_auth tok g = (g, status, msg, False) \<and> status \<in> {401, 403}"
  using assms by (simp add: check_auth_def)

lemma proxy_unauthorised:
  assumes "gt_token (ts_gate srv) \<noteq> []" and "tr_token req \<noteq> gt_token (ts_gate srv)"
  shows "\<exists>resp. proxy_handler H benv fenv executor req srv = (srv, resp) \<and> hr_status resp \<in> {401, 403, 405}"
  using check_refused [OF assms]
  by (auto simp: proxy_handler_def proxy_begin_def check_def json_error_def Let_def)

section \<open>Every request is made of the parts' steps\<close>

lemma control_log_steps:
  assumes "reaches (audit_step H) a b" and "fst a = eg_log (cn_egress cn)"
  shows "reaches (control_step H) (cn, snd a) (cn\<lparr>cn_egress := (cn_egress cn)\<lparr>eg_log := fst b\<rparr>\<rparr>, snd b)"
  using assms
proof (induction rule: reaches.induct)
  case (reaches_step a b c)
  let ?cn = "cn\<lparr>cn_egress := (cn_egress cn)\<lparr>eg_log := fst b\<rparr>\<rparr>"
  have "control_step H (?cn, snd b) (?cn\<lparr>cn_egress := (cn_egress ?cn)\<lparr>eg_log := fst c\<rparr>\<rparr>, snd c)"
    by (rule control_log) (use reaches_step(2) in simp)
  then have "control_step H (?cn, snd b) (cn\<lparr>cn_egress := (cn_egress cn)\<lparr>eg_log := fst c\<rparr>\<rparr>, snd c)" by simp
  with reaches_step.IH [OF reaches_step.prems] show ?case by (rule reaches.reaches_step)
qed (simp add: reaches_refl)

lemma gate_calls_reach: "reaches gate_step g (fst (gate_do c g))"
  by (rule reaches_one) (rule gate_call)

lemma check_reaches: "reaches gate_step g (fst (check path tok g))"
  using gate_calls_reach [of g "Check path tok"] by (simp split: prod.splits)

lemma auth_reaches: "require_auth tok g = (g', r) \<Longrightarrow> reaches gate_step g g'"
  using gate_calls_reach [of g "Auth tok"] by (simp split: prod.splits)

lemma proxy_gate_reaches: "reaches gate_step (ts_gate srv) (ts_gate (fst (proxy_handler H benv fenv executor req srv)))"
proof -
  obtain srv1 out where b: "proxy_begin H benv req srv = (srv1, out)" by fastforce
  have 1: "reaches gate_step (ts_gate srv) (ts_gate srv1)"
    using proxy_begin_gate [of H benv req srv] b check_reaches by (simp add: reaches_refl)
  have "reaches gate_step (ts_gate srv1) (ts_gate (fst (proxy_finish H fenv fl d srv1)))" for fl d
    using gate_calls_reach [of "ts_gate srv1" Kill]
    by (auto simp: proxy_finish_def Let_def reaches_refl split: do_result.splits prod.splits)
  with 1 b show ?thesis by (auto simp: proxy_handler_def split: sum.splits intro: reaches_trans)
qed

lemma audit_serve_steps:
  "audit_serve H env route req cn = (cn', resp) \<Longrightarrow> reaches (control_step H) (cn, rs) (cn', rs)"
  by (cases route) (auto simp: audit_serve_def Let_def reaches_refl
      intro: reaches_one [where step = "control_step H"] control_session control_resume)

lemma control_serve_steps:
  assumes "control_serve H env req srv = (srv', resp)"
  shows "\<exists>rs'. reaches (control_step H) (as_control srv, rs) (as_control srv', rs @ rs') \<and> reaches gate_step (as_gate srv) (as_gate srv')"
proof (cases "map_of control_routes (tr_path (cr_tool req))")
  case None
  with assms show ?thesis by (intro exI [of _ "[]"]) (auto simp: control_serve_def reaches_refl Let_def)
next
  case (Some route)
  consider "route = To_Executor" | "route = To_Health" | "route \<notin> {To_Executor, To_Health}" by blast
  then show ?thesis
  proof cases
    case 1
    define ts where "ts = \<lparr>ts_gate = as_gate srv, ts_log = eg_log (cn_egress (as_control srv))\<rparr>"
    obtain ts' resp' where p: "proxy_handler H (ve_begin env) (ve_finish env) (ve_executor env) (cr_tool req) ts = (ts', resp')" by fastforce
    have srv': "as_gate srv' = ts_gate ts'"
        "as_control srv' = (as_control srv)\<lparr>cn_egress := (cn_egress (as_control srv))\<lparr>eg_log := ts_log ts'\<rparr>\<rparr>"
      using assms Some 1 p by (auto simp: control_serve_def ts_def Let_def)
    obtain rs' where "reaches (audit_step H) (ts_log ts, rs) (ts_log ts', rs @ rs')"
      using handler_refines_log [of H ts rs "ve_begin env" "ve_finish env" "ve_executor env" "cr_tool req"] p by auto
    from control_log_steps [OF this, of "as_control srv"] srv'
    have "reaches (control_step H) (as_control srv, rs) (as_control srv', rs @ rs')" by (simp add: ts_def)
    moreover have "reaches gate_step (as_gate srv) (as_gate srv')"
      using proxy_gate_reaches [of ts H "ve_begin env" "ve_finish env" "ve_executor env" "cr_tool req"] p srv' by (simp add: ts_def)
    ultimately show ?thesis by blast
  next
    case 2
    with assms Some show ?thesis by (intro exI [of _ "[]"]) (auto simp: control_serve_def reaches_refl Let_def)
  next
    case 3
    obtain g r where a: "require_auth (tr_token (cr_tool req)) (as_gate srv) = (g, r)" by fastforce
    obtain cn' resp' where c: "audit_serve H env route req (as_control srv) = (cn', resp')" by fastforce
    have "as_gate srv' = g \<and> as_control srv' \<in> {as_control srv, cn'}"
      using assms Some 3 a c by (cases route) (auto simp: control_serve_def Let_def split: option.splits)
    with auth_reaches [OF a] audit_serve_steps [OF c, of rs] show ?thesis
      by (intro exI [of _ "[]"]) (auto simp: reaches_refl)
  qed
qed

lemma install_signer_steps: "reaches (control_step H) (cn, rs) (install_signer loaded cn, rs)"
  by (auto simp: install_signer_def reaches_refl split: option.splits sum.splits
      intro: reaches_one [where step = "control_step H"] control_signer control_signer_err)

section \<open>Properties\<close>

text \<open>
  C19. The control port obeys one client. Once the container token is set, a request without it, to whatever
  path and with whatever body, is refused and changes nothing, neither the gate nor the log nor the policy,
  and nothing reaches the executor; only \<open>/health\<close> answers everyone.
\<close>

theorem control_obeys_token:
  assumes "gt_token (as_gate srv) \<noteq> []" and "tr_token (cr_tool req) \<noteq> gt_token (as_gate srv)"
    and "tr_path (cr_tool req) \<noteq> ''/health''"
  shows "fst (control_serve H env req srv) = srv \<and> hr_status (snd (control_serve H env req srv)) \<in> {401, 403, 404, 405}"
proof (cases "map_of control_routes (tr_path (cr_tool req))")
  case (Some route)
  obtain status msg where a: "check_auth (tr_token (cr_tool req)) (as_gate srv) = (as_gate srv, status, msg, False)" "status \<in> {401, 403}"
    using check_refused [OF assms(1,2)] by blast
  obtain resp where p: "proxy_handler H (ve_begin env) (ve_finish env) (ve_executor env) (cr_tool req)
      \<lparr>ts_gate = as_gate srv, ts_log = eg_log (cn_egress (as_control srv))\<rparr> =
      (\<lparr>ts_gate = as_gate srv, ts_log = eg_log (cn_egress (as_control srv))\<rparr>, resp)" "hr_status resp \<in> {401, 403, 405}"
    using proxy_unauthorised [of "\<lparr>ts_gate = as_gate srv, ts_log = eg_log (cn_egress (as_control srv))\<rparr>" "cr_tool req" H "ve_begin env"
        "ve_finish env" "ve_executor env"] assms by auto
  have "route \<noteq> To_Health" using Some assms(3) by (auto simp: control_routes_def split: if_splits)
  with a p Some show ?thesis
    by (cases route) (auto simp: control_serve_def require_auth_def json_error_def Let_def)
qed (simp add: control_serve_def mux_not_found_def Let_def)


definition sample_control_env :: "string control_env" where
  "sample_control_env = \<lparr>ve_begin = sample_begin, ve_finish = sample_finish, ve_executor = (\<lambda>_ _. Do_Err ''down''),
     ve_probe = Do_Err ''down'', ve_api = sample_api, ve_sign = (\<lambda>k d. Inr (k @ d)), ve_digest = id, ve_now = ''now''\<rparr>"

definition sample_log_request :: control_request where
  "sample_log_request = \<lparr>cr_tool = \<lparr>tr_method = ''GET'', tr_path = ''/audit/log'', tr_token = ''t'',
     tr_body = \<lparr>st_chunks = [], st_err = None\<rparr>\<rparr>, cr_from = [], cr_to = []\<rparr>"

lemma sample_log_served:
  "as_gate (fst (control_serve H sample_control_env sample_log_request (new_api_server ''seg'' ''t'' ''ca''))) = \<lparr>gt_token = ''t'', gt_state = Warm\<rparr>"
  by (simp add: control_serve_def sample_log_request_def control_routes_def require_auth_def check_auth_def new_api_server_def
      new_gate_def audit_serve_def Let_def)

theorem control_obeys_token_witness:
  "fst (control_serve (\<lambda>x. x) sample_control_env (sample_log_request\<lparr>cr_tool := (cr_tool sample_log_request)\<lparr>tr_token := ''u''\<rparr>\<rparr>)
     (fst (control_serve (\<lambda>x. x) sample_control_env sample_log_request (new_api_server ''seg'' ''t'' ''ca'')))) =
   fst (control_serve (\<lambda>x. x) sample_control_env sample_log_request (new_api_server ''seg'' ''t'' ''ca''))"
  by (rule conjunct1 [OF control_obeys_token]) (simp_all add: sample_log_served, simp_all add: sample_log_request_def)



end
