(* ===== verification/Whole_System.thy ===== *)
theory Whole_System imports Executor_Server Control_Server begin

text \<open>
  The two programs together: the executor, and the api-server's proxy in front of it. A request waits between
  the two phases of \<open>proxyHandler\<close>, is served by the executor, lost or given up, and is answered; requests
  interleave freely, and the rest of the api-server adds its own lines to the log meanwhile. The executor serves
  one request in a step, as the header says of its handlers. The executor's side is an interface, the locale \<open>executor_contract\<close>: the
  lemmas about recording hold for any executor that runs only what \<open>/exec\<close> is given.
\<close>

section \<open>The system\<close>

text \<open>
  What reaches the api-server of a result: nothing (the connection failed), or the response as far as it
  came; an undamaged body is the whole one, and only then the trailers are there.
\<close>

definition arrives :: "exec_result \<Rightarrow> do_result \<Rightarrow> bool" where
  "arrives r d \<longleftrightarrow> (\<exists>e. d = Do_Err e) \<or>
     (\<exists>resp ann trailers er. r = Served resp ann trailers \<and> d = Do_Ok er \<and> er_status er = hr_status resp \<and> er_announced er = ann \<and>
        prefix (concat (st_chunks (er_body er))) (hr_body resp) \<and>
        (if st_err (er_body er) = None then concat (st_chunks (er_body er)) = hr_body resp \<and> er_trailer er = trailers
         else er_trailer er = []))"

record run_record =
  rr_id :: string
  rr_body :: string
  rr_command :: string

record 'x system =
  sy_gate :: gate
  sy_log :: audit_log
  sy_flights :: "(flight \<times> do_result option) list"
  sy_exec :: 'x
  sy_orphans :: "flight list"
  sy_dead :: bool
  sy_runs :: "run_record list"

definition sy_server :: "'x system \<Rightarrow> tool_server" where
  "sy_server s = \<lparr>ts_gate = sy_gate s, ts_log = sy_log s\<rparr>"

definition put_server :: "tool_server \<Rightarrow> 'x system \<Rightarrow> 'x system" where
  "put_server srv s = s\<lparr>sy_gate := ts_gate srv, sy_log := ts_log srv\<rparr>"

definition forwarded :: "flight \<Rightarrow> string" where
  [go_eval]: "forwarded fl = concat (st_chunks (fl_forward fl))"

text \<open>A body that breaks off on its way to the executor arrives in part.\<close>

definition delivered :: "flight \<Rightarrow> string \<Rightarrow> bool" where
  [go_eval]: "delivered fl body \<longleftrightarrow> (if st_err (fl_forward fl) = None then body = forwarded fl else prefix body (forwarded fl))"

text \<open>
  A request can get lost on the way, or the api-server gives up waiting while the executor still has it: then
  it is an orphan, which may be served at any later time. A buffered request arrives whole or not at all.
\<close>

inductive sys_step :: "(string \<Rightarrow> string) \<Rightarrow> ('e \<Rightarrow> string \<Rightarrow> string \<Rightarrow> 'x \<Rightarrow> 'x \<times> exec_result) \<Rightarrow>
    ('e \<Rightarrow> string \<Rightarrow> string \<Rightarrow> string list) \<Rightarrow> 'x system \<Rightarrow> 'x system \<Rightarrow> bool" for H serve runs where
  sys_request: "proxy_begin H env req (sy_server s) = (srv, Inr fl) \<Longrightarrow>
    sys_step H serve runs s ((put_server srv s)\<lparr>sy_flights := sy_flights s @ [(fl, None)]\<rparr>)"
| sys_refuse: "proxy_begin H env req (sy_server s) = (srv, Inl resp) \<Longrightarrow> sys_step H serve runs s (put_server srv s)"
| sys_execute: "sy_flights s = as @ (fl, None) # bs \<Longrightarrow> \<not> sy_dead s \<Longrightarrow> delivered fl body \<Longrightarrow>
    serve env (fl_path fl) body (sy_exec s) = (ex, r) \<Longrightarrow> arrives r d \<Longrightarrow>
    sys_step H serve runs s (s\<lparr>sy_flights := as @ (fl, Some d) # bs, sy_exec := ex, sy_dead := (\<exists>m. r = Died m),
      sy_runs := sy_runs s @ map (\<lambda>c. \<lparr>rr_id = fl_exec_id fl, rr_body = body, rr_command = c\<rparr>)
        (runs env (fl_path fl) body)\<rparr>)"
| sys_lose: "sy_flights s = as @ (fl, None) # bs \<Longrightarrow>
    sys_step H serve runs s (s\<lparr>sy_flights := as @ (fl, Some (Do_Err e)) # bs\<rparr>)"
| sys_abandon: "sy_flights s = as @ (fl, None) # bs \<Longrightarrow>
    sys_step H serve runs s (s\<lparr>sy_flights := as @ (fl, Some (Do_Err e)) # bs, sy_orphans := fl # sy_orphans s\<rparr>)"
| sys_orphan: "sy_orphans s = as @ fl # bs \<Longrightarrow> \<not> sy_dead s \<Longrightarrow> delivered fl body \<Longrightarrow>
    serve env (fl_path fl) body (sy_exec s) = (ex, r) \<Longrightarrow>
    sys_step H serve runs s (s\<lparr>sy_orphans := as @ bs, sy_exec := ex, sy_dead := (\<exists>m. r = Died m),
      sy_runs := sy_runs s @ map (\<lambda>c. \<lparr>rr_id = fl_exec_id fl, rr_body = body, rr_command = c\<rparr>)
        (runs env (fl_path fl) body)\<rparr>)"
| sys_finish: "sy_flights s = as @ (fl, Some d) # bs \<Longrightarrow> proxy_finish H env fl d (sy_server s) = (srv, resp) \<Longrightarrow>
    sys_step H serve runs s ((put_server srv s)\<lparr>sy_flights := as @ bs\<rparr>)"
| sys_push: "\<not> sy_dead s \<Longrightarrow> serve env ''/session/init'' body (sy_exec s) = (ex, r) \<Longrightarrow> sys_step H serve runs s (s\<lparr>sy_exec := ex\<rparr>)"
| sys_append: "typ \<notin> {''exec'', ''exec.intent''} \<Longrightarrow>
    sys_step H serve runs s (s\<lparr>sy_log := fst (append_log H tk typ salt body (sy_log s))\<rparr>)"
| sys_admit: "typ \<notin> {''exec'', ''exec.intent''} \<Longrightarrow>
    sys_step H serve runs s (s\<lparr>sy_log := fst (admit H tk typ salt body (sy_log s))\<rparr>)"
| sys_complete: "typ \<notin> {''exec'', ''exec.intent''} \<Longrightarrow>
    sys_step H serve runs s (s\<lparr>sy_log := fst (complete H tk typ salt body res (sy_log s))\<rparr>)"

inductive_cases sys_stepE: "sys_step H serve runs s t"

definition new_system :: "string \<Rightarrow> string \<Rightarrow> 'x \<Rightarrow> 'x system" where
  [go_eval]: "new_system seg now ex = \<lparr>sy_gate = new_gate, sy_log = new_audit_log seg now, sy_flights = [], sy_exec = ex,
     sy_orphans = [], sy_dead = False, sy_runs = []\<rparr>"

section \<open>What holds for any executor that keeps its contract\<close>

definition proxy_view :: "'x system \<Rightarrow> proxy_sys" where
  "proxy_view s = (sy_server s, map fst (sy_flights s))"

definition intent_logged :: "audit_log \<Rightarrow> string \<Rightarrow> string \<Rightarrow> bool" where
  "intent_logged l eid command \<longleftrightarrow> (\<exists>line \<in> set (log_range 0 0 l). \<exists>e. read_entry line = Some e \<and>
     en_type e = ''exec.intent'' \<and> json_marshal (exec_intent_body eid command) = Inr (en_body e))"

definition waiting_execs :: "(flight \<times> do_result option) list \<Rightarrow> nat" where
  "waiting_execs fs = length (filter (\<lambda>f. fl_path (fst f) = ''/exec'' \<and> snd f = None) fs)"

definition exec_flight_ok :: "audit_log \<Rightarrow> flight \<Rightarrow> bool" where
  "exec_flight_ok l fl \<longleftrightarrow> (fl_path fl = ''/exec'' \<longrightarrow> st_err (fl_forward fl) = None \<and>
     intent_logged l (fl_exec_id fl) (unmarshal_field ''command'' (forwarded fl)))"

definition run_ok :: "audit_log \<Rightarrow> run_record \<Rightarrow> bool" where
  "run_ok l r \<longleftrightarrow> intent_logged l (rr_id r) (unmarshal_field ''command'' (rr_body r)) \<and> decode_exec (rr_body r) = Some (rr_command r)"

definition whole_ok :: "'x system \<Rightarrow> bool" where
  "whole_ok s \<longleftrightarrow> proxy_ok (proxy_view s) \<and>
     length (sy_runs s) + waiting_execs (sy_flights s) + exec_flights (sy_orphans s) \<le> type_count ''exec.intent'' (sy_log s) \<and>
     list_all (\<lambda>f. exec_flight_ok (sy_log s) (fst f)) (sy_flights s) \<and>
     list_all (exec_flight_ok (sy_log s)) (sy_orphans s) \<and> list_all (run_ok (sy_log s)) (sy_runs s)"

text \<open>Nothing waits for the executor, no orphan is left, and no more will come.\<close>

definition closed_down :: "'x system \<Rightarrow> bool" where
  "closed_down s \<longleftrightarrow> gt_state (sy_gate s) = lifecycle.Killed \<and> list_all (\<lambda>f. snd f \<noteq> None) (sy_flights s) \<and>
     sy_orphans s = []"

definition whole_le :: "('x \<Rightarrow> 'x \<Rightarrow> bool) \<Rightarrow> 'x system \<Rightarrow> 'x system \<Rightarrow> bool" where
  "whole_le keeps s t \<longleftrightarrow> log_le (sy_log s) (sy_log t) \<and> gate_le (sy_gate s) (sy_gate t) \<and> prefix (sy_runs s) (sy_runs t) \<and>
     (closed_down s \<longrightarrow> closed_down t \<and> sy_runs t = sy_runs s \<and> keeps (sy_exec s) (sy_exec t))"

lemma intent_logged_mono: "log_le l l' \<Longrightarrow> intent_logged l i c \<Longrightarrow> intent_logged l' i c"
  by (auto simp: intent_logged_def log_le_def log_range_all prefix_def)

lemma exec_flight_ok_mono: "log_le l l' \<Longrightarrow> exec_flight_ok l fl \<Longrightarrow> exec_flight_ok l' fl"
  using intent_logged_mono by (auto simp: exec_flight_ok_def)

lemma run_ok_mono: "log_le l l' \<Longrightarrow> run_ok l r \<Longrightarrow> run_ok l' r"
  using intent_logged_mono by (auto simp: run_ok_def)

lemma sy_server_simps [simp]: "ts_gate (sy_server s) = sy_gate s" "ts_log (sy_server s) = sy_log s"
  by (simp_all add: sy_server_def)

lemma put_server_simps [simp]:
  "sy_server (put_server srv s) = srv" "sy_gate (put_server srv s) = ts_gate srv" "sy_log (put_server srv s) = ts_log srv"
  "sy_flights (put_server srv s) = sy_flights s" "sy_exec (put_server srv s) = sy_exec s" "sy_runs (put_server srv s) = sy_runs s"
  "sy_orphans (put_server srv s) = sy_orphans s"
  by (simp_all add: put_server_def sy_server_def)

lemma sy_server_update [simp]:
  "sy_server (s\<lparr>sy_flights := x\<rparr>) = sy_server s" "sy_server (s\<lparr>sy_exec := e\<rparr>) = sy_server s"
  "sy_server (s\<lparr>sy_dead := d\<rparr>) = sy_server s" "sy_server (s\<lparr>sy_runs := rs\<rparr>) = sy_server s"
  "sy_server (s\<lparr>sy_orphans := fs\<rparr>) = sy_server s"
  "sy_server (s\<lparr>sy_log := l\<rparr>) = (sy_server s)\<lparr>ts_log := l\<rparr>"
  by (simp_all add: sy_server_def)

text \<open>Seen from the proxy, the whole system is the proxy: every other step is invisible to it.\<close>

lemma sys_step_view:
  assumes "sys_step H serve runs s t"
  shows "proxy_view t = proxy_view s \<or> proxy_step H (proxy_view s) (proxy_view t)"
  using assms
proof (induction rule: sys_step.induct)
  case (sys_request env req s srv fl)
  from begin_flight [OF this] show ?case by (simp add: proxy_view_def)
next
  case (sys_refuse env req s srv resp)
  from begin_refused [OF this] show ?case by (simp add: proxy_view_def)
next
  case (sys_finish s as fl d bs env srv resp)
  from finish_flight [OF this(2)] sys_finish(1) show ?case by (simp add: proxy_view_def)
next
  case (sys_append "typ" s tk salt body)
  from other_append [OF this, where srv = "sy_server s" and fs = "map fst (sy_flights s)"] show ?case by (simp add: proxy_view_def)
next
  case (sys_admit "typ" s tk salt body)
  from other_admit [OF this, where srv = "sy_server s" and fs = "map fst (sy_flights s)"] show ?case by (simp add: proxy_view_def)
next
  case (sys_complete "typ" s tk salt body res)
  from other_complete [OF this, where srv = "sy_server s" and fs = "map fst (sy_flights s)"] show ?case by (simp add: proxy_view_def)
qed (simp_all add: proxy_view_def)

lemma sys_step_proxy:
  assumes "sys_step H serve runs s t" and "proxy_ok (proxy_view s)"
  shows "proxy_ok (proxy_view t) \<and> log_le (sy_log s) (sy_log t) \<and> gate_le (sy_gate s) (sy_gate t)"
proof -
  have "proxy_ok (proxy_view t) \<and> proxy_le (proxy_view s) (proxy_view t)"
    using sys_step_view [OF assms(1)] tool_calls.step_inv [of H "proxy_view s" "proxy_view t"]
      tool_calls.step_le [of H "proxy_view s" "proxy_view t"] tool_calls.le_refl [of "proxy_view s"] assms(2) by auto
  then show ?thesis by (simp add: proxy_le_def proxy_view_def)
qed

lemma type_count_mono: "log_le l l' \<Longrightarrow> type_count ty l \<le> type_count ty l'"
  by (auto simp: log_le_def prefix_def type_count_def)

lemma admit_longer:
  assumes "admit H tk typ salt body l = (l', Inr r)" and "typ \<noteq> ''log.saturated''"
  shows "length (al_records l) < length (al_records l')"
proof -
  have "type_count typ l' = Suc (type_count typ l)" using type_count_admit [OF assms(1)] assms(2) by simp
  moreover have "prefix (al_records l) (al_records l')" using admit_effect(1) [OF assms(1)] by (simp add: log_le_def)
  ultimately show ?thesis by (auto simp: prefix_def type_count_def)
qed

lemma waiting_execs_simps [simp]:
  "waiting_execs (as @ bs) = waiting_execs as + waiting_execs bs" "waiting_execs [] = 0"
  "waiting_execs ((fl, d) # fs) = (if fl_path fl = ''/exec'' \<and> d = None then 1 else 0) + waiting_execs fs"
  by (simp_all add: waiting_execs_def)

lemma exec_flights_simps [simp]:
  "exec_flights (as @ bs) = exec_flights as + exec_flights bs" "exec_flights [] = 0"
  "exec_flights (fl # fs) = (if fl_path fl = ''/exec'' then 1 else 0) + exec_flights fs"
  by (simp_all add: exec_flights_def)

locale executor_contract =
  fixes H :: "string \<Rightarrow> string"
    and serve :: "'e \<Rightarrow> string \<Rightarrow> string \<Rightarrow> 'x \<Rightarrow> 'x \<times> exec_result"
    and runs :: "'e \<Rightarrow> string \<Rightarrow> string \<Rightarrow> string list"
    and keeps :: "'x \<Rightarrow> 'x \<Rightarrow> bool"
  assumes runs_exec: "cmd \<in> set (runs env path body) \<Longrightarrow> path = ''/exec'' \<and> runs env path body = [cmd] \<and> decode_exec body = Some cmd"
    and init_keeps: "serve env ''/session/init'' body ex = (ex', r) \<Longrightarrow> keeps ex ex'"
    and keeps_refl: "keeps ex ex"
    and keeps_trans: "keeps ex ex' \<Longrightarrow> keeps ex' ex'' \<Longrightarrow> keeps ex ex''"
begin

lemma runs_cases:
  obtains "runs env path body = []" | c where "path = ''/exec''" "runs env path body = [c]" "decode_exec body = Some c"
proof (cases "runs env path body")
  case (Cons cmd cs)
  with runs_exec [of cmd env path body] that show thesis by auto
qed (use that in simp)

text \<open>A request that is served runs at most its own command, which its line names.\<close>

lemma runs_logged:
  assumes "exec_flight_ok l f" and "delivered f body"
  shows "list_all (run_ok l) (map (\<lambda>c. \<lparr>rr_id = fl_exec_id f, rr_body = body, rr_command = c\<rparr>) (runs env (fl_path f) body)) \<and>
    length (runs env (fl_path f) body) \<le> (if fl_path f = ''/exec'' then 1 else 0)"
proof (cases rule: runs_cases [of env "fl_path f" body])
  case (2 c)
  with assms show ?thesis by (simp add: run_ok_def exec_flight_ok_def delivered_def)
qed simp

lemma step_whole_ok:
  assumes "sys_step H serve runs s t" and "whole_ok s"
  shows "whole_ok t"
proof -
  have "proxy_ok (proxy_view s)" using assms(2) by (simp add: whole_ok_def)
  from sys_step_proxy [OF assms(1) this] have p: "proxy_ok (proxy_view t)" and le: "log_le (sy_log s) (sy_log t)" by auto
  have fl: "list_all (\<lambda>f. exec_flight_ok (sy_log t) (fst f)) (sy_flights s)" and rs: "list_all (run_ok (sy_log t)) (sy_runs s)"
    using assms(2) exec_flight_ok_mono [OF le] run_ok_mono [OF le] by (auto simp: whole_ok_def list_all_iff)
  have orph: "list_all (exec_flight_ok (sy_log t)) (sy_orphans s)"
    using assms(2) exec_flight_ok_mono [OF le] by (auto simp: whole_ok_def list_all_iff)
  have n: "length (sy_runs s) + waiting_execs (sy_flights s) + exec_flights (sy_orphans s) \<le> type_count ''exec.intent'' (sy_log t)"
    using assms(2) type_count_mono [OF le, of "''exec.intent''"] by (simp add: whole_ok_def)
  show ?thesis
    using assms(1)
  proof (cases rule: sys_step.cases)
    case (sys_request env req srv f)
    from sys_request(2) show ?thesis
    proof (cases rule: proxy_begin_flight)
      case (Exec l a)
      have "json_plain (exec_intent_body i c)" for i c by (simp add: exec_intent_body_def)
      from admitted_entry [OF Exec(3) this] obtain e where "read_entry (rec_raw (al_records l ! length (al_records (sy_log s)))) = Some e"
          "en_type e = ''exec.intent''" "json_marshal (exec_intent_body (be_exec_id env) (unmarshal_field ''command'' (fl_req_body f))) = Inr (en_body e)"
        by auto
      moreover have "length (al_records (sy_log s)) < length (al_records l)" using admit_longer [OF Exec(3)] by simp
      ultimately have "exec_flight_ok l f" using Exec
        by (auto simp: exec_flight_ok_def intent_logged_def log_range_all forwarded_def intro!: bexI [OF _ nth_mem])
      moreover have "type_count ''exec.intent'' l = Suc (type_count ''exec.intent'' (sy_log s))"
        using type_count_admit [OF Exec(3)] by simp
      ultimately show ?thesis using p fl rs orph assms(2) sys_request(1) Exec by (simp add: whole_ok_def)
    next
      case Other
      then show ?thesis using p fl rs orph n sys_request(1) by (simp add: whole_ok_def exec_flight_ok_def)
    qed
  next
    case (sys_execute as f bs body env ex r d)
    have "exec_flight_ok (sy_log t) f" using fl sys_execute(2) by simp
    from runs_logged [OF this sys_execute(4), of env] show ?thesis
      using p fl rs orph n sys_execute by (simp add: whole_ok_def split: if_splits)
  next
    case (sys_orphan as f bs body env ex r)
    have "exec_flight_ok (sy_log t) f" using orph sys_orphan(2) by simp
    from runs_logged [OF this sys_orphan(4), of env] show ?thesis
      using p fl rs orph n sys_orphan by (simp add: whole_ok_def split: if_splits)
  qed (use p fl rs orph n in \<open>simp_all add: whole_ok_def\<close>)
qed

lemma step_whole_le:
  assumes "sys_step H serve runs s t" and "whole_ok s"
  shows "whole_le keeps s t"
proof -
  have "proxy_ok (proxy_view s)" using assms(2) by (simp add: whole_ok_def)
  from sys_step_proxy [OF assms(1) this] have le: "log_le (sy_log s) (sy_log t)" "gate_le (sy_gate s) (sy_gate t)" by auto
  have killed: "gt_state (sy_gate s) = lifecycle.Killed \<Longrightarrow> gt_state (sy_gate t) = lifecycle.Killed" using le(2) by (simp add: gate_le_def)
  from assms(1) show ?thesis
  proof (cases rule: sys_step.cases)
    case (sys_request env req srv fl)
    from proxy_begin_passed(1) [OF sys_request(2)] have "gt_state (sy_gate s) \<noteq> lifecycle.Killed" by (auto simp: check_cases)
    with le sys_request show ?thesis by (simp add: whole_le_def closed_down_def)
  next
    case (sys_push env body ex r)
    with le killed init_keeps show ?thesis by (auto simp: whole_le_def closed_down_def)
  qed (use le killed keeps_refl in \<open>auto simp: whole_le_def closed_down_def\<close>)
qed

end

sublocale executor_contract \<subseteq> whole: step_system "sys_step H serve runs" whole_ok "whole_le keeps"
proof
  show "whole_le keeps s t" if "sys_step H serve runs s t" "whole_ok s" for s t using step_whole_le that .
  show "whole_ok t" if "sys_step H serve runs s t" "whole_ok s" for s t using step_whole_ok that .
  show "whole_le keeps s s" for s by (simp add: whole_le_def keeps_refl)
  show "whole_le keeps s u" if "whole_le keeps s t" "whole_le keeps t u" for s t u
    using that by (auto simp: whole_le_def intro: log_le_trans gate_le_trans keeps_trans prefix_order.trans)
qed


section \<open>The executor keeps it\<close>

definition same_files :: "executor \<Rightarrow> executor \<Rightarrow> bool" where
  [go_eval]: "same_files a b \<longleftrightarrow> ex_tree a = ex_tree b \<and> ex_uploads a = ex_uploads b"

lemma commands_run_exec:
  assumes "cmd \<in> set (commands_run env path body)"
  shows "path = ''/exec'' \<and> commands_run env path body = [cmd] \<and> decode_exec body = Some cmd"
proof (cases "path = ''/exec''")
  case True
  with assms show ?thesis by (cases "decode_exec body") (auto simp: commands_run_def split: if_split_asm)
qed (use assms in \<open>simp add: commands_run_def exec_route_path\<close>)

interpretation code_executor: executor_contract H "executor_serve H" commands_run same_files for H
proof
  show "path = ''/exec'' \<and> commands_run env path body = [cmd] \<and> decode_exec body = Some cmd"
    if "cmd \<in> set (commands_run env path body)" for cmd env path body using commands_run_exec [OF that] .
next
  fix env body ex ex' r
  assume "executor_serve H env ''/session/init'' body ex = (ex', r)"
  then show "same_files ex ex'" by (auto simp: executor_serve_def same_files_def split: prod.splits)
qed (simp_all add: same_files_def)

lemma new_system_ok: "whole_ok (new_system seg now ex)"
  by (simp add: whole_ok_def new_system_def proxy_view_def proxy_ok_def exec_flights_def type_count_def)

lemma reachable_whole_ok:
  "reaches (sys_step H (executor_serve H) commands_run) (new_system seg now ex) s \<Longrightarrow> whole_ok s"
  by (rule code_executor.whole.reaches_inv [OF _ new_system_ok])

section \<open>What is recorded and what is done\<close>

lemma number_int_itoa: "- (2 ^ 63) \<le> i \<Longrightarrow> i < 2 ^ 63 \<Longrightarrow> number_int (itoa i) = Some i"
proof (cases "i < 0")
  case False
  assume "i < 2 ^ 63"
  obtain c s where c: "nat_digits (nat i) = c # s" by (cases "nat_digits (nat i)") auto
  with nat_digits_digits [of "nat i"] have "c \<noteq> CHR ''-''" "list_all is_digit (nat_digits (nat i))" by (auto simp: is_digit_def list_all_iff)
  with c False \<open>i < 2 ^ 63\<close> digits_val_nat_digits [of "nat i"] show ?thesis by (simp add: number_int_def itoa_def)
next
  case True
  assume "- (2 ^ 63) \<le> i" "i < 2 ^ 63"
  with True nat_digits_digits [of "nat (- i)"] show ?thesis by (simp add: number_int_def itoa_def list_all_iff)
qed

lemma exec_fields_answer:
  assumes "- (2 ^ 63) \<le> code" and "code < 2 ^ 63"
  shows "exec_fields (json_text (exec_response out err code) @ [CHR 0x0A]) = ((out, err, code), True)"
proof -
  have "json_unmarshal (json_text (exec_response out err code) @ [CHR 0x0A]) = Some (value_of (exec_response out err code))"
    by (rule unmarshal_line) (simp_all add: exec_response_def)
  with number_int_itoa [OF assms] show ?thesis
    by (simp add: exec_fields_def exec_response_def struct_members_def string_field_def string_field_ok_def int_field_def
        int_field_ok_def field_values_def to_lower_char_def)
qed

lemma write_unmarshal:
  assumes "decode_write body = Some (path, contents)" and "json_unmarshal body \<noteq> None" and "length body \<le> max_request_bytes"
  shows "unmarshal_field ''path'' body = path" "unmarshal_field ''contents'' body = contents"
proof -
  obtain v where v: "json_unmarshal body = Some v" using assms(2) by blast
  from unmarshal_decode [OF v] assms(1,3) obtain ms where "struct_members v = Some ms" "write_fields ms = Some (path, contents)"
    by (auto simp: decode_write_def bind_eq_Some_conv)
  with v show "unmarshal_field ''path'' body = path" "unmarshal_field ''contents'' body = contents"
    by (simp_all add: unmarshal_field_def write_fields_def split: if_splits)
qed

lemma begin_audited:
  assumes "proxy_begin H env req srv = (srv', Inr fl)" and "auditable_request (fl_path fl)"
  shows "fl_forward fl = \<lparr>st_chunks = [fl_req_body fl], st_err = None\<rparr>" "length (fl_req_body fl) \<le> max_auditable_body"
  using assms
  by (auto simp: proxy_begin_def Let_def map_sum_id read_limited_def split: if_splits prod.splits sum.splits option.splits)

section \<open>A session\<close>

lemma sample_session:
  obtains s i where "reaches (sys_step (\<lambda>x. ''h'') (executor_serve (\<lambda>x. ''h'')) commands_run) (new_system ''seg'' ''t'' sample_executor) s"
    "sy_runs s = [\<lparr>rr_id = i, rr_body = sample_exec_body, rr_command = ''id''\<rparr>]"
proof -
  let ?step = "sys_step (\<lambda>x. ''h'') (executor_serve (\<lambda>x. ''h'')) commands_run"
  define s0 where "s0 = new_system ''seg'' ''t'' sample_executor"
  obtain srv fl where f: "proxy_begin (\<lambda>x. ''h'') sample_begin sample_request sample_server = (srv, Inr fl)" "fl_path fl = ''/exec''"
      "fl_req_body fl = concat (st_chunks (tr_body sample_request))" by (rule sample_begin_flight)
  have "sy_server s0 = sample_server" by (simp add: s0_def new_system_def sy_server_def sample_server_def)
  with f(1) have "?step s0 ((put_server srv s0)\<lparr>sy_flights := sy_flights s0 @ [(fl, None)]\<rparr>)" by (auto intro: sys_request)
  moreover define s1 where "s1 = (put_server srv s0)\<lparr>sy_flights := sy_flights s0 @ [(fl, None)]\<rparr>"
  ultimately have 1: "?step s0 s1" by simp
  have b: "concat (st_chunks (tr_body sample_request)) = sample_exec_body" by code_simp
  have w: "st_err (fl_forward fl) = None \<and> concat (st_chunks (fl_forward fl)) = sample_exec_body"
    using f(1) by (cases rule: proxy_begin_flight) (use f(2,3) b in simp_all)
  have s1: "sy_flights s1 = [] @ (fl, None) # []" "\<not> sy_dead s1" "sy_exec s1 = sample_executor" "sy_runs s1 = []"
    by (simp_all add: s1_def s0_def new_system_def put_server_def)
  have d: "delivered fl sample_exec_body" using w by (simp add: delivered_def forwarded_def)
  have "decode_exec sample_exec_body = Some ''id''" by code_simp
  then have c: "commands_run sample_env ''/exec'' sample_exec_body = [''id'']"
    by (simp add: commands_run_def exec_route_path sample_env_def sample_exec_def)
  have a: "arrives r (Do_Err [])" for r by (simp add: arrives_def)
  obtain s2 where 2: "?step s1 s2" and r: "sy_runs s2 = [\<lparr>rr_id = fl_exec_id fl, rr_body = sample_exec_body, rr_command = ''id''\<rparr>]"
  proof (rule that)
    show "?step s1 (s1\<lparr>sy_flights := [] @ (fl, Some (Do_Err [])) # [], sy_exec := sample_executor,
        sy_dead := (\<exists>m. Served (respond_json 200 (exec_response ''out'' [] 0)) [] [] = Died m),
        sy_runs := sy_runs s1 @ map (\<lambda>c. \<lparr>rr_id = fl_exec_id fl, rr_body = sample_exec_body, rr_command = c\<rparr>)
          (commands_run sample_env (fl_path fl) sample_exec_body)\<rparr>)"
      by (rule sys_execute [OF s1(1,2) d _ a]) (simp add: f(2) s1(3) sample_exec_served)
  qed (simp add: f(2) c s1(4))
  from reaches_trans [OF reaches_one [where step = ?step, OF 1] reaches_one [where step = ?step, OF 2]] r
  show thesis unfolding s0_def by (rule that)
qed

section \<open>Properties\<close>




lemma closed_down_frozen:
  assumes "reaches (sys_step H (executor_serve H) commands_run) (new_system seg now ex) s" and "closed_down s"
    and "reaches (sys_step H (executor_serve H) commands_run) s t"
  shows "closed_down t \<and> sy_runs t = sy_runs s \<and> ex_tree (sy_exec t) = ex_tree (sy_exec s) \<and>
    ex_uploads (sy_exec t) = ex_uploads (sy_exec s)"
  using code_executor.whole.reaches_le [OF assms(3) reachable_whole_ok [OF assms(1)]] assms(2)
  by (simp add: whole_le_def same_files_def)

text \<open>What kills is a snapshot, and a snapshot can be restored.\<close>

lemma killing_snapshot_restores:
  assumes "executor_serve H env ''/snapshot'' body ex = (ex', r)" and "arrives r d"
    and "proxy_finish H fenv fl d srv = (srv', resp)" and "gt_state (ts_gate srv) \<noteq> lifecycle.Killed"
    and "gt_state (ts_gate srv') = lifecycle.Killed"
    and "ex_tree ex = Dir es" and "tree_ok (Dir es)" and "ex_tree ex2 = Dir ws" and "tree_ok (Dir ws)"
    and "rv_lib (xv_restore env2) = xv_tar env" and "tar_faithful (xv_tar env)" and "length (hr_body resp) \<le> max_request_bytes"
    and "\<forall>i. fault_free (rv_clear (xv_restore env2) i) \<and> fault_free (rv_untar (xv_restore env2) i)"
    and "rv_list_err (xv_restore env2) = None"
  shows "\<exists>t. executor_serve H env2 ''/restore'' (hr_body resp) ex2 =
       (ex2\<lparr>ex_tree := t\<rparr>, Served (respond_json 200 restore_response) [] []) \<and>
     (\<forall>p. look t p = kept (look (ex_tree ex) p))"
proof -
  obtain er where er: "d = Do_Ok er" "st_err (er_body er) = None" "trailer_get ''X-Snapshot-Status'' (er_trailer er) = ''ok''"
      "hr_body resp = concat (st_chunks (er_body er))"
    using kill_is_snapshot [OF assms(3,4,5)] by blast
  obtain b trailer where h: "handle_snapshot (xv_tar env) (xv_tar_fault env) (xv_close_ok env) (Dir es) = (b, trailer)" by fastforce
  then have r: "r = snapshot_response (b, trailer)" using assms(1,6) by (simp add: executor_serve_def)
  from assms(2) er(1,2) have a: "concat (st_chunks (er_body er)) = b" "er_trailer er = (if trailer = [] then [] else [(''X-Snapshot-Status'', trailer)])"
    by (auto simp: arrives_def r snapshot_response_def)
  with er(3) have t: "trailer = ''ok''" by (auto simp: trailer_get_def split: if_splits)
  have b: "hr_body resp = b" using er(4) a(1) by simp
  obtain t' where "handle_restore (xv_restore env2) b (Dir ws) = (t', respond_json 200 restore_response)"
      "\<forall>p. look t' p = kept (look (Dir es) p)"
    by (rule snapshot_restores [OF h [unfolded t, folded assms(10)], where ws = ws]) (use assms b in simp_all)
  then show ?thesis using assms(6,8) b by (auto simp: executor_serve_def)
qed



text \<open>
  C13. A session moves whole. When the answer to a \<open>/snapshot\<close> kills the session, the body the client was given
  is accepted by \<open>/restore\<close> of another executor, whatever its workspace holds, and leaves it exactly the files
  and directories the first one had: the proxy kills on nothing less than a snapshot that can be restored.
\<close>

theorem session_migrates:
  assumes "executor_serve H env ''/snapshot'' body ex = (ex', r)" and "arrives r d"
    and "proxy_finish H fenv fl d srv = (srv', resp)" and "gt_state (ts_gate srv) \<noteq> lifecycle.Killed"
    and "gt_state (ts_gate srv') = lifecycle.Killed"
    and "ex_tree ex = Dir es" and "tree_ok (Dir es)" and "ex_tree ex2 = Dir ws" and "tree_ok (Dir ws)"
    and "rv_lib (xv_restore env2) = xv_tar env" and "tar_faithful (xv_tar env)" and "length (hr_body resp) \<le> max_request_bytes"
    and "\<forall>i. fault_free (rv_clear (xv_restore env2) i) \<and> fault_free (rv_untar (xv_restore env2) i)"
    and "rv_list_err (xv_restore env2) = None"
  shows "\<exists>t. executor_serve H env2 ''/restore'' (hr_body resp) ex2 =
       (ex2\<lparr>ex_tree := t\<rparr>, Served (respond_json 200 restore_response) [] []) \<and>
     (\<forall>p. look t p = kept (look (ex_tree ex) p))"
  using assms by (rule killing_snapshot_restores)




text \<open>Witnesses.\<close>

definition sample_answer :: "string \<Rightarrow> executor_response" where
  [go_eval]: "sample_answer body = \<lparr>er_status = 200, er_announced = [], er_body = \<lparr>st_chunks = [body], st_err = None\<rparr>, er_trailer = []\<rparr>"

lemma sample_arrives: "hr_status hr = 200 \<Longrightarrow> arrives (Served hr [] []) (Do_Ok (sample_answer (hr_body hr)))"
  by (simp add: arrives_def sample_answer_def)


definition sample_write_request :: tool_request where
  [go_eval]: "sample_write_request = \<lparr>tr_method = ''POST'', tr_path = ''/write'', tr_token = ''t'',
     tr_body = \<lparr>st_chunks = [json_text sample_write], st_err = None\<rparr>\<rparr>"

lemma sample_write_flight:
  obtains srv fl where "proxy_begin (\<lambda>x. ''h'') sample_begin sample_write_request sample_server = (srv, Inr fl)" "fl_path fl = ''/write''"
    "fl_req_body fl = json_text sample_write"
proof -
  have "length (json_text sample_write) = 47" by code_simp
  then have b: "read_limited max_auditable_body (tr_body sample_write_request) = Inr (json_text sample_write)"
    by (simp add: sample_write_request_def read_limited_def max_auditable_body_def)
  have c: "check ''/write'' ''t'' (ts_gate sample_server) = (\<lparr>gt_token = ''t'', gt_state = Active\<rparr>, 0, [], True)" by code_simp
  show thesis
    by (rule that [of "sample_server\<lparr>ts_gate := \<lparr>gt_token = ''t'', gt_state = Active\<rparr>\<rparr>" "\<lparr>fl_path = ''/write'', fl_req_body = json_text sample_write,
        fl_forward = \<lparr>st_chunks = [json_text sample_write], st_err = None\<rparr>, fl_reservation = None, fl_exec_id = []\<rparr>"])
      (use b c in \<open>simp_all add: proxy_begin_def sample_write_request_def auditable_request_def Let_def sample_begin_def\<close>)
qed



definition sample_tree :: node where
  [go_eval]: "sample_tree = Dir [(''a'', Reg ''hi'')]"

definition sample_archive :: string where
  "sample_archive = fst (handle_snapshot sample_tar None True sample_tree)"

definition sample_snapshot_answer :: executor_response where
  "sample_snapshot_answer = \<lparr>er_status = 200, er_announced = [''X-Snapshot-Status''],
     er_body = \<lparr>st_chunks = [sample_archive], st_err = None\<rparr>, er_trailer = [(''X-Snapshot-Status'', ''ok'')]\<rparr>"

lemma sample_snapshot_served:
  "executor_serve H sample_env ''/snapshot'' [] (sample_executor\<lparr>ex_tree := sample_tree\<rparr>) =
     (sample_executor\<lparr>ex_tree := sample_tree\<rparr>, snapshot_response (sample_archive, ''ok''))"
  by (simp add: executor_serve_def sample_env_def sample_archive_def handle_snapshot_def tar_workspace_def)

lemma sample_snapshot_arrives: "arrives (snapshot_response (sample_archive, ''ok'')) (Do_Ok sample_snapshot_answer)"
  by (simp add: arrives_def snapshot_response_def sample_snapshot_answer_def)

lemma sample_snapshot_kills:
  assumes "fl_path fl = ''/snapshot''"
  obtains srv' resp where "proxy_finish H sample_finish fl (Do_Ok sample_snapshot_answer) srv = (srv', resp)"
    "gt_state (ts_gate srv') = lifecycle.Killed" "hr_body resp = sample_archive"
proof -
  obtain srv' resp where f: "proxy_finish H sample_finish fl (Do_Ok sample_snapshot_answer) srv = (srv', resp)" by fastforce
  then show thesis
    using that assms
    by (auto simp: proxy_finish_def auditable_request_def sample_snapshot_answer_def sample_finish_def trailer_get_def
        mark_killed_def hc_write_def hasher_def Let_def)
qed

theorem session_migrates_witness:
  "\<exists>t. executor_serve (\<lambda>x. ''h'') sample_env ''/restore'' sample_archive (sample_executor\<lparr>ex_tree := Dir [(''b'', Reg ''old'')]\<rparr>) =
       (sample_executor\<lparr>ex_tree := t\<rparr>, Served (respond_json 200 restore_response) [] []) \<and>
     look t [''a''] = Some (Reg ''hi'') \<and> look t [''b''] = None"
proof -
  have p: "fl_path sample_flight = ''/snapshot''" by (simp add: sample_flight_def)
  obtain srv' resp where f: "proxy_finish (\<lambda>x. ''h'') sample_finish sample_flight (Do_Ok sample_snapshot_answer) sample_server = (srv', resp)"
      and k: "gt_state (ts_gate srv') = lifecycle.Killed" and b: "hr_body resp = sample_archive"
    by (rule sample_snapshot_kills [OF p])
  have g: "gt_state (ts_gate sample_server) \<noteq> lifecycle.Killed" by code_simp
  have "length sample_archive = 26" unfolding sample_archive_def sample_tar_def by code_simp
  then have len: "length (hr_body resp) \<le> max_request_bytes" by (simp add: b max_request_bytes_def)
  have ok: "tree_ok (Dir [(''a'', Reg ''hi'')])" "tree_ok (Dir [(''b'', Reg ''old'')])" by code_simp+
  have "fault_free (fv_root sample_files)" by code_simp
  then have env: "rv_lib (xv_restore sample_env) = xv_tar sample_env" "tar_faithful (xv_tar sample_env)"
      "\<forall>i. fault_free (rv_clear (xv_restore sample_env) i) \<and> fault_free (rv_untar (xv_restore sample_env) i)"
      "rv_list_err (xv_restore sample_env) = None"
    by (simp_all add: sample_env_def sample_restore_def sample_tar_faithful)
  obtain t where t: "executor_serve (\<lambda>x. ''h'') sample_env ''/restore'' (hr_body resp) (sample_executor\<lparr>ex_tree := Dir [(''b'', Reg ''old'')]\<rparr>) =
       (sample_executor\<lparr>ex_tree := t\<rparr>, Served (respond_json 200 restore_response) [] [])"
      "\<forall>p. look t p = kept (look sample_tree p)"
    using session_migrates [OF sample_snapshot_served sample_snapshot_arrives f g k _ ok(1) _ ok(2) env(1,2) len env(3,4),
        of "sample_executor\<lparr>ex_tree := Dir [(''b'', Reg ''old'')]\<rparr>"]
    by (auto simp: sample_tree_def)
  have "kept (look sample_tree [''a'']) = Some (Reg ''hi'')" "kept (look sample_tree [''b'']) = None" by code_simp+
  with t b show ?thesis by auto
qed

definition sample_flights :: "flight list" where
  "sample_flights = [\<lparr>fl_path = ''/read'', fl_req_body = [], fl_forward = \<lparr>st_chunks = [[]], st_err = None\<rparr>, fl_reservation = None, fl_exec_id = []\<rparr>,
     sample_flight]"

text \<open>A read that is lost, with a snapshot waiting behind it.\<close>

lemma sample_waiting:
  obtains s where "reaches (sys_step (\<lambda>x. ''h'') (executor_serve (\<lambda>x. ''h'')) commands_run)
      (new_system ''seg'' ''t'' (sample_executor\<lparr>ex_tree := sample_tree\<rparr>)) s"
    "sy_flights s = [(hd sample_flights, Some (Do_Err []))] @ (sample_flight, None) # []"
    "sy_exec s = sample_executor\<lparr>ex_tree := sample_tree\<rparr>" "\<not> sy_dead s" "sy_orphans s = []"
proof -
  let ?H = "\<lambda>x :: string. ''h''" and ?f1 = "hd sample_flights"
  let ?step = "sys_step ?H (executor_serve ?H) commands_run"
  define g where "g = \<lparr>gt_token = ''t'', gt_state = Active\<rparr>"
  define s0 where "s0 = new_system ''seg'' ''t'' (sample_executor\<lparr>ex_tree := sample_tree\<rparr>)"
  define read where "read = sample_request\<lparr>tr_path := ''/read'', tr_body := \<lparr>st_chunks = [], st_err = None\<rparr>\<rparr>"
  define snap where "snap = read\<lparr>tr_path := ''/snapshot''\<rparr>"
  have c: "check ''/read'' ''t'' (sy_gate s0) = (g, 0, [], True)" "check ''/snapshot'' ''t'' g = (g, 0, [], True)"
    by (simp_all add: s0_def g_def new_system_def check_def check_auth_def check_lifecycle_def new_gate_def)
  have "proxy_begin ?H sample_begin read (sy_server s0) = ((sy_server s0)\<lparr>ts_gate := g\<rparr>, Inr ?f1)"
    using c(1) by (simp add: proxy_begin_def read_def sample_request_def auditable_request_def sample_flights_def read_limited_def
        max_auditable_body_def sample_begin_def Let_def)
  from sys_request [OF this] obtain s1 where 1: "?step s0 s1" and s1: "sy_gate s1 = g" "sy_flights s1 = [(?f1, None)]"
      "sy_exec s1 = sample_executor\<lparr>ex_tree := sample_tree\<rparr>" "\<not> sy_dead s1" "sy_orphans s1 = []"
    by (force simp: s0_def new_system_def put_server_def)
  have "proxy_begin ?H sample_begin snap (sy_server s1) = ((sy_server s1)\<lparr>ts_gate := g\<rparr>, Inr sample_flight)"
    using c(2) s1(1) by (simp add: proxy_begin_def read_def snap_def sample_request_def auditable_request_def sample_flight_def
        sample_begin_def Let_def)
  from sys_request [OF this] obtain s2 where 2: "?step s1 s2" and s2: "sy_gate s2 = g" "sy_flights s2 = [] @ (?f1, None) # [(sample_flight, None)]"
      "sy_exec s2 = sample_executor\<lparr>ex_tree := sample_tree\<rparr>" "\<not> sy_dead s2" "sy_orphans s2 = []"
    using s1 by (force simp: put_server_def)
  from sys_lose [OF s2(2)] obtain s3 where 3: "?step s2 s3" and s3: "sy_gate s3 = g" "sy_flights s3 = [(?f1, Some (Do_Err []))] @ (sample_flight, None) # []"
      "sy_exec s3 = sample_executor\<lparr>ex_tree := sample_tree\<rparr>" "\<not> sy_dead s3" "sy_orphans s3 = []"
    using s2 by force
  have "reaches ?step s0 s3"
    by (rule reaches_trans [OF reaches_trans [OF reaches_one [where step = ?step, OF 1] reaches_one [where step = ?step, OF 2]]
        reaches_one [where step = ?step, OF 3]])
  then show thesis using s3(2,3,4,5) unfolding s0_def by (rule that)
qed

lemma sample_closed:
  obtains s where "reaches (sys_step (\<lambda>x. ''h'') (executor_serve (\<lambda>x. ''h'')) commands_run)
      (new_system ''seg'' ''t'' (sample_executor\<lparr>ex_tree := sample_tree\<rparr>)) s" "closed_down s" "\<not> sy_dead s"
proof -
  let ?H = "\<lambda>x :: string. ''h''" and ?f1 = "hd sample_flights" and ?d = "Do_Ok sample_snapshot_answer"
  let ?step = "sys_step ?H (executor_serve ?H) commands_run" and ?s0 = "new_system ''seg'' ''t'' (sample_executor\<lparr>ex_tree := sample_tree\<rparr>)"
  obtain s3 where r: "reaches ?step ?s0 s3" and s3: "sy_flights s3 = [(?f1, Some (Do_Err []))] @ (sample_flight, None) # []"
    "sy_exec s3 = sample_executor\<lparr>ex_tree := sample_tree\<rparr>" "\<not> sy_dead s3" "sy_orphans s3 = []" by (rule sample_waiting)
  have d: "delivered sample_flight []" by (simp add: delivered_def forwarded_def sample_flight_def)
  have p: "fl_path sample_flight = ''/snapshot''" by (simp add: sample_flight_def)
  note served = sample_snapshot_served [of ?H, folded p s3(2)]
  from sys_execute [where serve = "executor_serve ?H", OF s3(1,3) d served sample_snapshot_arrives]
  obtain s4 where 4: "?step s3 s4" and s4: "sy_flights s4 = [(?f1, Some (Do_Err []))] @ (sample_flight, Some ?d) # []" "\<not> sy_dead s4" "sy_orphans s4 = []"
    using s3(4) by (force simp: snapshot_response_def)
  obtain srv resp where f: "proxy_finish ?H sample_finish sample_flight ?d (sy_server s4) = (srv, resp)" "gt_state (ts_gate srv) = lifecycle.Killed"
    by (rule sample_snapshot_kills [OF p])
  from sys_finish [OF s4(1) f(1)] have 5: "?step s4 ((put_server srv s4)\<lparr>sy_flights := [(?f1, Some (Do_Err []))]\<rparr>)" by simp
  show thesis
  proof (rule that)
    show "reaches ?step ?s0 ((put_server srv s4)\<lparr>sy_flights := [(?f1, Some (Do_Err []))]\<rparr>)"
      by (rule reaches_trans [OF reaches_trans [OF r reaches_one [where step = ?step, OF 4]] reaches_one [where step = ?step, OF 5]])
  qed (use f(2) s4(2,3) in \<open>simp_all add: closed_down_def put_server_def\<close>)
qed


end
