(* ===== verification/Session_End.thy ===== *)
theory Session_End imports Whole_System begin

text \<open>
  The end of a session, where calls overlap the final \<open>/snapshot\<close>. The gate of \<open>api-server/main.go\<close>
  closes only when the snapshot has been sent whole, and the executor's other handlers do not wait for
  it: what is written while the archive travels is answered and recorded like anything else.
\<close>

definition archive_of :: "node \<Rightarrow> string" where
  "archive_of t = fst (handle_snapshot sample_tar None True t)"

definition archive_answer :: "node \<Rightarrow> executor_response" where
  "archive_answer t = \<lparr>er_status = 200, er_announced = [''X-Snapshot-Status''],
     er_body = \<lparr>st_chunks = [archive_of t], st_err = None\<rparr>, er_trailer = [(''X-Snapshot-Status'', ''ok'')]\<rparr>"

definition write_flight :: flight where
  "write_flight = \<lparr>fl_path = ''/write'', fl_req_body = json_text sample_write,
     fl_forward = \<lparr>st_chunks = [json_text sample_write], st_err = None\<rparr>, fl_reservation = None, fl_exec_id = []\<rparr>"

definition written :: "node \<times> http_response" where
  "written = handle_write sample_files (json_text sample_write) (Dir [])"

abbreviation open_gate :: gate where
  "open_gate \<equiv> \<lparr>gt_token = ''t'', gt_state = Active\<rparr>"

lemma written_effect:
  "hr_status (snd written) = 200" "fst written = Dir [(''a'', Dir [(''b.txt'', Reg ''hi'')])]"
proof -
  show "hr_status (snd written) = 200" unfolding written_def by (rule sample_write_status)
  have "resolve_p ''/workspace/a/b.txt'' = Inr ''a/b.txt''" "b64_decode (b64_encode ''hi'') = Some ''hi''"
      "path_dir ''a/b.txt'' = ''a''" by code_simp+
  moreover have "root_mkdir_all (fv_root sample_files) (Dir []) ''a'' = (Dir [(''a'', Dir [])], None)"
      "root_write_file (fv_root sample_files) (Dir [(''a'', Dir [])]) ''a/b.txt'' ''hi'' =
         (Dir [(''a'', Dir [(''b.txt'', Reg ''hi'')])], None)" by code_simp+
  ultimately show "fst written = Dir [(''a'', Dir [(''b.txt'', Reg ''hi'')])]"
    by (simp add: written_def handle_write_def sample_write_decoded)
qed

lemma empty_archive_restores:
  "\<exists>t. executor_serve H sample_env ''/restore'' (archive_of (Dir [])) sample_executor =
     (sample_executor\<lparr>ex_tree := t\<rparr>, Served (respond_json 200 restore_response) [] []) \<and> look t [''a'', ''b.txt''] = None"
proof -
  have h: "handle_snapshot (rv_lib sample_restore) None True (Dir []) = (archive_of (Dir []), ''ok'')"
    by (simp add: archive_of_def handle_snapshot_def tar_workspace_def sample_restore_def)
  have "length (archive_of (Dir [])) \<le> 26" unfolding archive_of_def sample_tar_def by code_simp
  then have len: "length (archive_of (Dir [])) \<le> max_request_bytes" by (simp add: max_request_bytes_def)
  have "fault_free (fv_root sample_files)" by code_simp
  then have env: "\<forall>i. fault_free (rv_clear sample_restore i) \<and> fault_free (rv_untar sample_restore i)"
      "rv_list_err sample_restore = None" "tar_faithful (rv_lib sample_restore)"
    by (simp_all add: sample_restore_def sample_tar_faithful)
  have ok: "tree_ok (Dir [])" by simp
  obtain t where t: "handle_restore sample_restore (archive_of (Dir [])) (Dir []) = (t, respond_json 200 restore_response)"
      "\<forall>p. look t p = kept (look (Dir []) p)"
    by (rule snapshot_restores [OF h env(3) ok ok len env(1,2)])
  have "kept (look (Dir []) [''a'', ''b.txt'']) = None" by code_simp
  with t show ?thesis by (simp add: executor_serve_def sample_env_def sample_executor_def)
qed

definition snapshot_request :: tool_request where
  "snapshot_request = sample_request\<lparr>tr_path := ''/snapshot'', tr_body := \<lparr>st_chunks = [], st_err = None\<rparr>\<rparr>"

lemma requests_begun:
  "proxy_begin (\<lambda>x. ''h'') sample_begin sample_write_request sample_server =
     (sample_server\<lparr>ts_gate := open_gate\<rparr>, Inr write_flight)"
  "ts_gate srv = open_gate \<Longrightarrow> proxy_begin (\<lambda>x. ''h'') sample_begin snapshot_request srv = (srv, Inr sample_flight)"
proof -
  have "length (json_text sample_write) = 47" by code_simp
  then have b: "read_limited max_auditable_body (tr_body sample_write_request) = Inr (json_text sample_write)"
    by (simp add: sample_write_request_def read_limited_def max_auditable_body_def)
  have c: "check ''/write'' ''t'' (ts_gate sample_server) = (open_gate, 0, [], True)" by code_simp
  from b c show "proxy_begin (\<lambda>x. ''h'') sample_begin sample_write_request sample_server =
      (sample_server\<lparr>ts_gate := open_gate\<rparr>, Inr write_flight)"
    by (simp add: proxy_begin_def sample_write_request_def auditable_request_def Let_def sample_begin_def write_flight_def)
  have "check ''/snapshot'' ''t'' open_gate = (open_gate, 0, [], True)" by code_simp
  then show "ts_gate srv = open_gate \<Longrightarrow> proxy_begin (\<lambda>x. ''h'') sample_begin snapshot_request srv = (srv, Inr sample_flight)"
    by (simp add: proxy_begin_def snapshot_request_def sample_request_def auditable_request_def sample_flight_def sample_begin_def Let_def)
qed

lemma both_served:
  "executor_serve H sample_env ''/snapshot'' [] ex = (ex, snapshot_response (archive_of (ex_tree ex), ''ok''))"
  "executor_serve H sample_env ''/write'' (json_text sample_write) sample_executor =
     (sample_executor\<lparr>ex_tree := fst written\<rparr>, Served (snd written) [] [])"
  by (simp_all add: executor_serve_def sample_env_def sample_executor_def archive_of_def handle_snapshot_def tar_workspace_def
      written_def split: prod.splits)

text \<open>The write waits, the snapshot is taken, the write is done; both answers are on their way back.\<close>

lemma overlapped_state:
  obtains s where "reaches (sys_step (\<lambda>x. ''h'') (executor_serve (\<lambda>x. ''h'')) commands_run) (new_system ''seg'' ''t'' sample_executor) s"
    "sy_flights s = [(write_flight, Some (Do_Ok (sample_answer (hr_body (snd written))))), (sample_flight, Some (Do_Ok (archive_answer (Dir []))))]"
    "sy_exec s = sample_executor\<lparr>ex_tree := fst written\<rparr>" "sy_server s = sample_server\<lparr>ts_gate := open_gate\<rparr>"
proof -
  let ?H = "\<lambda>x :: string. ''h''" and ?d = "Do_Ok (archive_answer (Dir []))" and ?wd = "Do_Ok (sample_answer (hr_body (snd written)))"
  let ?step = "sys_step ?H (executor_serve ?H) commands_run" and ?s0 = "new_system ''seg'' ''t'' sample_executor"
  let ?srv = "sample_server\<lparr>ts_gate := open_gate\<rparr>"
  have s0: "sy_server ?s0 = sample_server" by (simp add: new_system_def sy_server_def sample_server_def)
  from sys_request [OF requests_begun(1) [folded s0]] obtain s1 where 1: "?step ?s0 s1" and s1: "sy_flights s1 = [(write_flight, None)]"
      "sy_exec s1 = sample_executor" "\<not> sy_dead s1" "sy_server s1 = ?srv"
    by (force simp: new_system_def put_server_def sy_server_def sample_server_def)
  have "ts_gate (sy_server s1) = open_gate" by (simp only: s1(4)) simp
  from sys_request [OF requests_begun(2) [OF this]] obtain s2 where 2: "?step s1 s2"
      and s2: "sy_flights s2 = [(write_flight, None)] @ (sample_flight, None) # []"
      "sy_exec s2 = sample_executor" "\<not> sy_dead s2" "sy_server s2 = ?srv"
    using s1 by (force simp: put_server_def)
  have d: "delivered sample_flight []" "delivered write_flight (json_text sample_write)"
    by (simp_all add: delivered_def forwarded_def sample_flight_def write_flight_def)
  have p: "fl_path sample_flight = ''/snapshot''" "fl_path write_flight = ''/write''" by (simp_all add: sample_flight_def write_flight_def)
  have a: "arrives (snapshot_response (archive_of (ex_tree (sy_exec s2)), ''ok'')) ?d" "arrives (Served (snd written) [] []) ?wd"
    using sample_arrives [OF written_effect(1)] by (simp_all add: arrives_def snapshot_response_def archive_answer_def s2(2) sample_executor_def)
  from sys_execute [where serve = "executor_serve ?H", OF s2(1,3) d(1) both_served(1) [of ?H "sy_exec s2", folded p] a(1)]
  obtain s3 where 3: "?step s2 s3" and s3: "sy_flights s3 = [] @ (write_flight, None) # [(sample_flight, Some ?d)]"
      "sy_exec s3 = sample_executor" "\<not> sy_dead s3" "sy_server s3 = ?srv"
    using s2(2,4) by (force simp: snapshot_response_def)
  from sys_execute [where serve = "executor_serve ?H", OF s3(1,3) d(2) both_served(2) [of ?H, folded p s3(2)] a(2)]
  obtain s4 where 4: "?step s3 s4" and s4: "sy_flights s4 = [(write_flight, Some ?wd), (sample_flight, Some ?d)]"
      "sy_exec s4 = sample_executor\<lparr>ex_tree := fst written\<rparr>" "sy_server s4 = ?srv"
    using s3(2,4) by force
  have "reaches ?step ?s0 s4"
    by (rule reaches_trans [OF reaches_trans [OF reaches_trans [OF reaches_one [where step = ?step, OF 1]
        reaches_one [where step = ?step, OF 2]] reaches_one [where step = ?step, OF 3]] reaches_one [where step = ?step, OF 4]])
  then show thesis using s4 by (rule that)
qed

lemma snapshot_finish_kills:
  assumes "proxy_finish H sample_finish sample_flight (Do_Ok (archive_answer t)) srv = (srv', resp)"
  shows "gt_state (ts_gate srv') = lifecycle.Killed" "hr_body resp = archive_of t"
  using assms
  by (auto simp: proxy_finish_def sample_flight_def auditable_request_def archive_answer_def sample_finish_def trailer_get_def
      mark_killed_def hc_write_def hasher_def Let_def)

text \<open>
  A write beside the last snapshot is lost. There is a run in which a \<open>/write\<close> and the \<open>/snapshot\<close>
  overlap: the write is answered 200 and its \<open>file.write\<close> line appended, the file stands in the
  workspace, then the snapshot kills the session, and what it restores to elsewhere lacks the file.
\<close>

lemma late_write_not_migrated:
  "\<exists>s fw d wsrv wresp srv resp t.
     reaches (sys_step (\<lambda>x. ''h'') (executor_serve (\<lambda>x. ''h'')) commands_run) (new_system ''seg'' ''t'' sample_executor) s \<and>
     sy_flights s = [(fw, Some d), (sample_flight, Some (Do_Ok (archive_answer (Dir []))))] \<and> fl_path fw = ''/write'' \<and>
     proxy_finish (\<lambda>x. ''h'') sample_finish fw d (sy_server s) = (wsrv, wresp) \<and> hr_status wresp = 200 \<and>
     (\<exists>b. ts_log wsrv = fst (append_log (\<lambda>x. ''h'') sample_tick ''file.write'' ''salt'' b (sy_log s))) \<and>
     look (ex_tree (sy_exec s)) [''a'', ''b.txt''] = Some (Reg ''hi'') \<and>
     proxy_finish (\<lambda>x. ''h'') sample_finish sample_flight (Do_Ok (archive_answer (Dir []))) wsrv = (srv, resp) \<and>
     gt_state (ts_gate srv) = lifecycle.Killed \<and>
     executor_serve (\<lambda>x. ''h'') sample_env ''/restore'' (hr_body resp) sample_executor =
       (sample_executor\<lparr>ex_tree := t\<rparr>, Served (respond_json 200 restore_response) [] []) \<and>
     look t [''a'', ''b.txt''] = None"
proof -
  let ?H = "\<lambda>x :: string. ''h''" and ?wd = "Do_Ok (sample_answer (hr_body (snd written)))"
  obtain s where s: "reaches (sys_step ?H (executor_serve ?H) commands_run) (new_system ''seg'' ''t'' sample_executor) s"
    "sy_flights s = [(write_flight, Some ?wd), (sample_flight, Some (Do_Ok (archive_answer (Dir []))))]"
    "sy_exec s = sample_executor\<lparr>ex_tree := fst written\<rparr>" by (rule overlapped_state)
  obtain wsrv wresp where w: "proxy_finish ?H sample_finish write_flight ?wd (sy_server s) = (wsrv, wresp)" by fastforce
  then have w200: "hr_status wresp = 200"
    and line: "\<exists>b. ts_log wsrv = fst (append_log ?H sample_tick ''file.write'' ''salt'' b (sy_log s))"
    by (auto simp: proxy_finish_def write_flight_def auditable_request_def sample_answer_def sample_finish_def
        record_tool_call_def Let_def split: sum.splits)
  obtain srv resp where f: "proxy_finish ?H sample_finish sample_flight (Do_Ok (archive_answer (Dir []))) wsrv = (srv, resp)" by fastforce
  note k = snapshot_finish_kills [OF f]
  have stored: "look (ex_tree (sy_exec s)) [''a'', ''b.txt''] = Some (Reg ''hi'')"
    by (simp add: s(3) written_effect(2)) code_simp
  obtain t where t: "executor_serve ?H sample_env ''/restore'' (archive_of (Dir [])) sample_executor =
     (sample_executor\<lparr>ex_tree := t\<rparr>, Served (respond_json 200 restore_response) [] [])" "look t [''a'', ''b.txt''] = None"
    using empty_archive_restores by blast
  have p: "fl_path write_flight = ''/write''" by (simp add: write_flight_def)
  show ?thesis using s(1,2) p w w200 line stored f k t by metis
qed

section \<open>A quiet end\<close>


text \<open>The same two calls one after the other: the write is answered before the snapshot is asked for.\<close>

lemma written_state:
  obtains s where "reaches (sys_step (\<lambda>x. ''h'') (executor_serve (\<lambda>x. ''h'')) commands_run) (new_system ''seg'' ''t'' sample_executor) s"
    "sy_flights s = []" "sy_exec s = sample_executor\<lparr>ex_tree := fst written\<rparr>" "\<not> sy_dead s" "sy_orphans s = []"
    "sy_gate s = open_gate"
proof -
  let ?H = "\<lambda>x :: string. ''h''" and ?wd = "Do_Ok (sample_answer (hr_body (snd written)))"
  let ?step = "sys_step ?H (executor_serve ?H) commands_run" and ?s0 = "new_system ''seg'' ''t'' sample_executor"
  have p: "fl_path write_flight = ''/write''" and d: "delivered write_flight (json_text sample_write)"
    by (simp_all add: delivered_def forwarded_def write_flight_def)
  have s0: "sy_server ?s0 = sample_server" by (simp add: new_system_def sy_server_def sample_server_def)
  from sys_request [OF requests_begun(1) [folded s0]] obtain s1 where 1: "?step ?s0 s1" and s1: "sy_flights s1 = [] @ (write_flight, None) # []"
      "sy_exec s1 = sample_executor" "\<not> sy_dead s1" "sy_orphans s1 = []" "sy_gate s1 = open_gate"
    by (force simp: new_system_def put_server_def sy_server_def sample_server_def)
  have "arrives (Served (snd written) [] []) ?wd" by (rule sample_arrives [OF written_effect(1)])
  from sys_execute [where serve = "executor_serve ?H", OF s1(1,3) d both_served(2) [of ?H, folded p s1(2)] this]
  obtain s2 where 2: "?step s1 s2" and s2: "sy_flights s2 = [] @ (write_flight, Some ?wd) # []"
      "sy_exec s2 = sample_executor\<lparr>ex_tree := fst written\<rparr>" "\<not> sy_dead s2" "sy_orphans s2 = []" "sy_gate s2 = open_gate"
    using s1(2,4,5) by force
  obtain wsrv wresp where w: "proxy_finish ?H sample_finish write_flight ?wd (sy_server s2) = (wsrv, wresp)" by fastforce
  then have "ts_gate wsrv = open_gate"
    using s2(5) by (auto simp: proxy_finish_def write_flight_def auditable_request_def sample_answer_def sample_finish_def
        Let_def split: sum.splits)
  with sys_finish [OF s2(1) w] obtain s3 where 3: "?step s2 s3" and s3: "sy_flights s3 = []"
      "sy_exec s3 = sample_executor\<lparr>ex_tree := fst written\<rparr>" "\<not> sy_dead s3" "sy_orphans s3 = []" "sy_gate s3 = open_gate"
    using s2(2,3,4) by (force simp: put_server_def)
  have "reaches ?step ?s0 s3"
    by (rule reaches_trans [OF reaches_trans [OF reaches_one [where step = ?step, OF 1] reaches_one [where step = ?step, OF 2]]
        reaches_one [where step = ?step, OF 3]])
  then show thesis using s3 by (rule that)
qed

lemma quiet_state:
  obtains s where "reaches (sys_step (\<lambda>x. ''h'') (executor_serve (\<lambda>x. ''h'')) commands_run) (new_system ''seg'' ''t'' sample_executor) s"
    "sy_flights s = [(sample_flight, Some (Do_Ok (archive_answer (fst written))))]"
    "sy_exec s = sample_executor\<lparr>ex_tree := fst written\<rparr>" "sy_orphans s = []" "sy_gate s = open_gate"
proof -
  let ?H = "\<lambda>x :: string. ''h''" and ?d = "Do_Ok (archive_answer (fst written))"
  let ?step = "sys_step ?H (executor_serve ?H) commands_run" and ?s0 = "new_system ''seg'' ''t'' sample_executor"
  have p: "fl_path sample_flight = ''/snapshot''" and d: "delivered sample_flight []"
    by (simp_all add: delivered_def forwarded_def sample_flight_def)
  obtain s3 where 3: "reaches ?step ?s0 s3" and s3: "sy_flights s3 = []"
      "sy_exec s3 = sample_executor\<lparr>ex_tree := fst written\<rparr>" "\<not> sy_dead s3" "sy_orphans s3 = []" "sy_gate s3 = open_gate"
    by (rule written_state)
  have "ts_gate (sy_server s3) = open_gate" by (simp add: s3(5))
  from sys_request [OF requests_begun(2) [OF this]] obtain s4 where 4: "?step s3 s4"
      and s4: "sy_flights s4 = [] @ (sample_flight, None) # []" "sy_exec s4 = sample_executor\<lparr>ex_tree := fst written\<rparr>"
      "\<not> sy_dead s4" "sy_orphans s4 = []" "sy_gate s4 = open_gate"
    using s3 by (force simp: put_server_def)
  have "arrives (snapshot_response (archive_of (ex_tree (sy_exec s4)), ''ok'')) ?d"
    by (simp add: arrives_def snapshot_response_def archive_answer_def s4(2))
  from sys_execute [where serve = "executor_serve ?H", OF s4(1,3) d both_served(1) [of ?H "sy_exec s4", folded p] this]
  obtain s5 where 5: "?step s4 s5" and s5: "sy_flights s5 = [(sample_flight, Some ?d)]"
      "sy_exec s5 = sample_executor\<lparr>ex_tree := fst written\<rparr>" "sy_orphans s5 = []" "sy_gate s5 = open_gate"
    using s4(2,4,5) by force
  have "reaches ?step ?s0 s5"
    by (rule reaches_trans [OF reaches_trans [OF 3 reaches_one [where step = ?step, OF 4]] reaches_one [where step = ?step, OF 5]])
  then show thesis using s5 by (rule that)
qed


end
