(* ===== verification/Spec2Isabelle.thy ===== *)
theory Spec2Isabelle
  imports Policy Leaf_Cache Config_Check Audit_Race Process_Cleanup Executor_Server Control_Server Whole_System Session_End
begin

text \<open>
  An attested environment for executing code, in Go: the \<open>api-server\<close> takes the calls of a client, records
  them and is the only way to the internet; the \<open>executor\<close>, on a closed network behind a unix socket, runs
  the commands and holds the files; \<open>hack/configcheck\<close> checks the deployment that keeps the two apart.

  \<^bold>\<open>How the parts interact.\<close> A tool call passes the access gate of the api-server, is recorded in the audit
  chain, goes over the socket to a handler of the executor and comes back through the same proxy, which records
  the outcome. Traffic of the commands goes to the egress proxy, which asks the session's policy, records every
  connection and request before it is sent, and looks into TLS with certificates of the interception CA. The
  audit API installs the policy, and serves the log and a head signed by the checkpoint signer. At the start
  the api-server pushes its addresses to the executor, which picks the one it can reach.

  \<^bold>\<open>Theories and code.\<close> A Go function has a definition of its name in small letters; a method has its receiver
  as last argument and returns it changed; a handler takes the request and the state, and returns the state and
  the response.
  \<^item> \<open>Base\<close>: slices, reachability, the locale \<open>step_system\<close> of start state, steps and invariant. Every stateful
    component below is an interpretation of it, and its invariants in all reachable states are facts of it.
  \<^item> \<open>Go_Strings\<close>, \<open>Go_Url\<close>, \<open>Go_Json\<close>, \<open>Go_Decode\<close>, \<open>Json_Roundtrip\<close>, \<open>Go_Base64\<close>, \<open>Go_Path\<close>, \<open>Go_Root\<close>, \<open>Go_Net\<close>:
    what the program uses of Go's library. Strings are byte lists. JSON is printed and parsed as text, and what is
    printed is read back. \<open>Go_Root\<close> is \<open>os.Root\<close>: a tree of files, directories, links and special files, paths
    resolved through links, escapes refused.
  \<^item> \<open>Policy\<close> (\<open>api-server/policy.go\<close>): \<open>Compose\<close>, \<open>Decide\<close>, \<open>AdmitHost\<close> and the rule matchers. What is allowed
    lies within the ceiling; the glob matcher decides its pattern language; verdicts name their rule.
  \<^item> \<open>Audit_Log\<close>, \<open>Transcript\<close>, \<open>Audit_Chain\<close> (\<open>audit.go\<close>): the log with its reservations and its seal. The
    transcript replays to the head, is append-only, bounded, final once sealed, and fixed by its head as far as
    the hash has no collision at hand.
  \<^item> \<open>Gate\<close>, \<open>Tool_Proxy\<close> (\<open>api-server/main.go\<close>): the gate is locked by its first token; \<open>proxyHandler\<close> is split
    into what happens before and after the executor is called, so that other requests may come in between.
  \<^item> \<open>Egress\<close>, \<open>Egress_Safety\<close> (\<open>egress.go\<close>): CONNECT, intercepted and plain requests, again in two phases.
  \<^item> \<open>Leaf_Cache\<close> (\<open>mitm.go\<close>), \<open>Checkpoint\<close> (\<open>checkpoint.go\<close>), \<open>Audit_Api\<close> (\<open>audit_api.go\<close>): the certificates, the
    signature, and the control plane in which a signed head always fits the served log and the enforced policy.
  \<^item> \<open>Audit_Race\<close> (\<open>audit_api.go\<close> again): \<open>handleSession\<close> and \<open>handleHead\<close> in the pieces between which other requests
    run. Every signed head is true of the log however they overlap; the attested policy is the enforced one as long
    as session calls do not overlap, and need not be otherwise. The atomic model is one of these interleavings
    (\<open>control_runs_embed\<close>).
  \<^item> \<open>Executor_Files\<close>, \<open>Executor_Exec\<close> (\<open>executor/main.go\<close>), \<open>Snapshot\<close> (\<open>snapshot.go\<close>), \<open>Uploads\<close> (\<open>uploads.go\<close>): what
    is written is read back and nothing outside is touched; a snapshot restores to the tree it was taken from;
    the record of uploads is the disk; a command is answered only when two scans found none of its processes, within a
    bounded number of rounds.
  \<^item> \<open>Process_Cleanup\<close> (\<open>killCommandProcesses\<close> and \<open>commandPIDs\<close> again): the scans read a process table that changes
    meanwhile. A process that stays until its status is read is found; one that forks and exits in time is not.
  \<^item> \<open>Session\<close> (\<open>executor/session.go\<close> and \<open>pushSessionInit\<close>, \<open>proxyCandidates\<close> of \<open>api-server/main.go\<close>): the executor
    finds a reachable address among those that are pushed. \<open>env_or\<close> is the lookup of the environment.
  \<^item> \<open>Executor_Server\<close>, \<open>Control_Server\<close> (the two \<open>main\<close> functions with their routes): all handlers of the executor as one
    server over one state, whose answers have their declared types; all handlers of the control port as one server,
    which obeys the container token and whose every history is one of the audit API's and the gate's steps.
  \<^item> \<open>Whole_System\<close>: both programs. Requests wait in the two phases of the proxy, are executed, lost, given up
    (the executor may still serve them later) and answered in any order. \<open>executor_contract\<close> is what the proxy
    relies on of an executor; \<open>code_executor\<close> shows that the code's keeps it. What runs has its line in the log,
    what the lines of writes and commands say is what happened, nothing moves once the session is killed and no
    request waits, and the snapshot that kills it restores elsewhere to what it was taken from.
  \<^item> \<open>Session_End\<close>: a session whose last call is its snapshot moves whole and stays as it was; a call that overlaps the
    snapshot may be answered and lost.
  \<^item> \<open>Config_Check\<close> (\<open>hack/configcheck/main.go\<close>): the check is exact, and with \<open>Policy\<close> gives that the api-server
    lets through only what the network's own allow list names.

  \<^bold>\<open>Atomicity.\<close> A mutex makes the section it guards one step: the log's methods, the gate's, the uploads
  handlers, \<open>/exec\<close> and \<open>/snapshot\<close>. \<open>handleSession\<close> and \<open>handleHead\<close> hold no lock: they are one step in
  \<open>Audit_Api\<close> and what is built on it, and several in \<open>Audit_Race\<close>. A listing of \<open>/proc\<close> is one moment, its entries
  are read later. The file handlers run on a tree that nothing else changes meanwhile; in the code a command may
  run beside \<open>/read\<close>, \<open>/write\<close> and \<open>/restore\<close>, which do not take \<open>execMu\<close>.

  \<^bold>\<open>Parameters.\<close> SHA-256, SHA-384, ECDSA, X.509 and the tar format are functions given to the definitions;
  where a theorem needs a law of one it is a hypothesis with a name (\<open>tar_faithful\<close>) or stated as the failure it
  excludes (a collision). Clocks, salts, ids, faults of the file system and the network, interface lists, the
  contents of \<open>/proc\<close>, the orders in which Go walks its maps, and the effect of a command are arguments.

  \<^bold>\<open>Bounds and fuel.\<close> The JSON parser has fuel of twice the length of its text, and \<open>parse_settles\<close> shows that more
  changes nothing. Links are followed up to \<open>re_links\<close> times, as the kernel counts them. The cleanup of \<open>/exec\<close> and
  the push of the session are partial functions whose end is a theorem (\<open>cleanup_terminates\<close>,
  \<open>push_rounds_found\<close>). Counters of the log that Go keeps in 64 bits are integers below its caps.

  \<^bold>\<open>Not modelled.\<close> The sockets, servers and goroutines that the two \<open>main\<close> functions start,
  \<open>net/http\<close> below the handlers (redirects of paths that are not clean among it), the generation of keys and certificates, the YAML decoder, the logging.
  \<open>ToLower\<close> and \<open>TrimSpace\<close> are their ASCII cases and JSON strings are taken as valid UTF-8. IPv6 candidates are not
  read. That \<open>os/exec\<close> kills a process group after 30 seconds is part of what a command does.

  \<^bold>\<open>What the code does not do.\<close> Some lemmas are about surprises, each beside the property it limits:
  \<open>trailing_data_hides_command\<close>, \<open>opaque_request_misattributed\<close>, \<open>exact_body_marked_truncated\<close>,
  \<open>long_response_truncated\<close>, \<open>expired_leaf_served\<close>, \<open>leftover_directory_blocks\<close>, \<open>cut_write_keeps_record\<close>,
  \<open>parent_mount_accepted\<close>, \<open>two_egress_networks_accepted\<close>, \<open>empty_network_name_skips_ceiling\<close>,
  \<open>overlapping_sessions_split\<close>, \<open>fork_chain_outruns_cleanup\<close>,
  \<open>late_write_not_migrated\<close>.
\<close>

end
